(* ===== verification/Prelude.thy ===== *)
theory Prelude
  imports Main "HOL-Library.Word"
begin

text \<open>
  Shared vocabulary of the development: the machine types of the driver, the collections of
  facts the component theories fill, and the generic lemmas on cyclic index segments that
  every ring buffer of the program (descriptor ring, buffer pool, statistics ring) uses.
\<close>

unbundle bit_operations_syntax

section \<open>Machine types\<close>

type_synonym u8 = "8 word"
type_synonym u16 = "16 word"
type_synonym u32 = "32 word"
type_synonym u64 = "64 word"

section \<open>Collections\<close>

named_theorems hwc \<open>numeric values of the register and descriptor constants\<close>
named_theorems mach_simps \<open>effect of the access macros on memory and event log\<close>
named_theorems ring_frame \<open>fields a ring operation leaves alone\<close>

section \<open>Cyclic segments of indices\<close>

text \<open>\<open>cyc n i k\<close>: the \<open>k\<close> consecutive slots of a ring of \<open>n\<close> slots that start at slot \<open>i\<close>.\<close>

definition cyc :: "nat \<Rightarrow> nat \<Rightarrow> nat \<Rightarrow> nat list" where
  "cyc n i k = map (\<lambda>j. (i + j) mod n) [0..<k]"

lemma length_cyc [simp]: "length (cyc n i k) = k"
  by (simp add: cyc_def)

lemma cyc_0 [simp]: "cyc n i 0 = []"
  by (simp add: cyc_def)

lemma nth_cyc: "j < k \<Longrightarrow> cyc n i k ! j = (i + j) mod n"
  by (simp add: cyc_def)

lemma cyc_Suc: "cyc n i (Suc k) = (i mod n) # cyc n (Suc i) k"
proof (rule nth_equalityI)
  fix j assume "j < length (cyc n i (Suc k))"
  then show "cyc n i (Suc k) ! j = (i mod n # cyc n (Suc i) k) ! j"
    by (cases j) (simp_all add: nth_cyc)
qed simp

lemma cyc_mod [simp]: "cyc n (i mod n) k = cyc n i k"
  by (simp add: cyc_def mod_add_left_eq)

lemma cyc_Suc_mod: "cyc n (Suc (i mod n)) k = cyc n (Suc i) k"
  by (metis cyc_mod mod_Suc_eq)

lemma cyc_add: "cyc n i (a + b) = cyc n i a @ cyc n (i + a) b"
proof (rule nth_equalityI)
  fix j assume "j < length (cyc n i (a + b))"
  then show "cyc n i (a + b) ! j = (cyc n i a @ cyc n (i + a) b) ! j"
    by (auto simp: nth_cyc nth_append add.assoc)
qed simp

lemma cyc_snoc: "cyc n i (Suc k) = cyc n i k @ [(i + k) mod n]"
  using cyc_add[of n i k 1] by (simp add: cyc_Suc)

lemma wrap_Suc: "i < n \<Longrightarrow> (if n \<le> Suc i then 0 else Suc i) = Suc i mod n"
  by (simp add: mod_Suc)

lemma take_cyc: "a \<le> k \<Longrightarrow> take a (cyc n i k) = cyc n i a"
  by (simp add: cyc_def take_map)

lemma drop_cyc: "a \<le> k \<Longrightarrow> drop a (cyc n i k) = cyc n (i + a) (k - a)"
  by (metis append_eq_conv_conj cyc_add le_add_diff_inverse length_cyc)

lemma cyc_before:
  "k \<le> i \<Longrightarrow> cyc n (i - k) (a + k) = cyc n (i - k) k @ cyc n i a"
  using cyc_add[of n "i - k" k a] by (simp add: add.commute)

lemma set_cyc_less: "0 < n \<Longrightarrow> x \<in> set (cyc n i k) \<Longrightarrow> x < n"
  by (auto simp: cyc_def)

lemma mod_add_inj:
  fixes n i a b :: nat
  assumes eq: "(i + a) mod n = (i + b) mod n" and "a < n" "b < n"
  shows "a = b"
proof -
  have *: "x = y" if "(i + x) mod n = (i + y) mod n" "x \<le> y" "y < n" for x y
  proof -
    from that have "n dvd (i + y) - (i + x)" by (metis mod_eq_dvd_iff_nat nat_add_left_cancel_le)
    then have "n dvd y - x" by simp
    with that show ?thesis by (metis dvd_imp_le le_antisym less_imp_diff_less linorder_not_le zero_less_diff)
  qed
  show ?thesis using *[of a b] *[of b a] assms by (cases "a \<le> b") auto
qed

lemma distinct_cyc:
  assumes "k \<le> n"
  shows "distinct (cyc n i k)"
  unfolding cyc_def distinct_map using assms
  by (auto intro!: inj_onI dest: mod_add_inj)

lemma set_cyc_full: "0 < n \<Longrightarrow> set (cyc n i n) = {0..<n}"
proof -
  assume n: "0 < n"
  have "set (cyc n i n) \<subseteq> {0..<n}" using n by (auto dest: set_cyc_less)
  moreover have "card (set (cyc n i n)) = n"
    by (simp add: distinct_card distinct_cyc)
  ultimately show ?thesis by (simp add: card_subset_eq)
qed

lemma mod_add_sub:
  fixes n i a :: nat
  assumes "i < n" "a \<le> n"
  shows "((i + a) mod n + (n - a)) mod n = i"
proof -
  have "((i + a) mod n + (n - a)) mod n = (i + a + (n - a)) mod n" by (rule mod_add_left_eq)
  also have "i + a + (n - a) = i + n" using assms by simp
  finally show ?thesis using assms by simp
qed

section \<open>Lists\<close>

text \<open>The longest prefix of \<open>xs\<close> that ends in an element satisfying \<open>P\<close>.\<close>

definition trim :: "('a \<Rightarrow> bool) \<Rightarrow> 'a list \<Rightarrow> 'a list" where
  "trim P xs = rev (dropWhile (\<lambda>x. \<not> P x) (rev xs))"

lemma trim_append_rest: "trim P xs @ rev (takeWhile (\<lambda>x. \<not> P x) (rev xs)) = xs"
  by (simp add: trim_def flip: rev_append)

lemma length_trim: "length (trim P xs) + length (takeWhile (\<lambda>x. \<not> P x) (rev xs)) = length xs"
  by (metis length_append length_rev trim_append_rest)

lemma trim_take: "trim P xs = take (length (trim P xs)) xs"
  by (metis append_eq_conv_conj trim_append_rest)

lemma trim_id: "xs = [] \<or> P (last xs) \<Longrightarrow> trim P xs = xs"
  by (cases xs rule: rev_cases) (simp_all add: trim_def)

lemma trim_last: "trim P xs \<noteq> [] \<Longrightarrow> P (last (trim P xs))"
  using hd_dropWhile[of "\<lambda>x. \<not> P x" "rev xs"] by (auto simp: trim_def last_rev)

lemma trim_maximal: "j < length xs \<Longrightarrow> length (trim P xs) \<le> j \<Longrightarrow> \<not> P (xs ! j)"
proof -
  assume j: "j < length xs" "length (trim P xs) \<le> j"
  let ?r = "rev (takeWhile (\<lambda>x. \<not> P x) (rev xs))"
  have "xs ! j = ?r ! (j - length (trim P xs))"
    by (metis j(2) linorder_not_le nth_append trim_append_rest)
  moreover have "j - length (trim P xs) < length ?r"
    using j length_trim[of P xs] by simp
  ultimately have "xs ! j \<in> set ?r" by (metis nth_mem)
  then show ?thesis by (auto dest: set_takeWhileD)
qed

section \<open>Words\<close>

lemma unat_of_nat32 [simp]: "n < 2 ^ 32 \<Longrightarrow> unat (of_nat n :: u32) = n"
  by (simp add: unsigned_of_nat take_bit_nat_eq_self)

lemma unat_add32: "unat (a + b :: u32) = (unat a + unat b) mod 2 ^ 32"
  by (simp add: unat_word_ariths)

lemma unat_mult32: "unat (a * b :: u32) = (unat a * unat b) mod 2 ^ 32"
  by (simp add: unat_word_ariths)

lemma unat_lt32 [simp]: "unat (a :: u32) < 2 ^ 32"
  using unsigned_less [of a] by simp

lemma unat_add_no_overflow:
  "unat (a :: u32) + unat b < 2 ^ 32 \<Longrightarrow> unat (a + b) = unat a + unat b"
  by (simp add: unat_add32)

lemma unat_sub_le: "b \<le> (a :: u32) \<Longrightarrow> unat (a - b) = unat a - unat b"
  by (simp add: unat_sub)

end
