(* ===== verification/Xio.thy ===== *)
theory Xio
  imports Prelude
begin

text \<open>
  The machine under the driver (\<open>fc1553_dma/include/xio.h\<close> and the register macros of
  \<open>fc1553_dma/xdma/xdma_hw.h\<close>): word-addressed descriptor memory, the device behind the
  memory-mapped registers, and the chronological log of what the driver does to both.
  Built as the \<open>Makefile\<close> builds it (\<open>NWLDMA\<close>, \<open>X86_PC\<close>): no byte swapping.
\<close>

section \<open>Machine state\<close>

datatype spinlock = DmaLock | DmaStatsLock | IntrLock | PktPoolLock | RawLock

text \<open>
  What an outside observer sees of the driver, newest event first: register reads with the
  value returned, register writes, descriptor writes, clearing of a descriptor area, write
  barriers, DMA mappings made and removed, the spinlock operations,
  coherent memory obtained and returned (size, virtual and bus address), a page given back to the
  kernel, and \<open>NullDeref\<close> where the
  driver follows a \<open>NULL\<close> pointer (what the model does afterwards has no meaning).
\<close>

datatype io_event =
    RdReg u32 u32
  | WrReg u32 u32
  | WrBd u32 u32
  | Clear u32 u32
  | Wmb
  | MapBuf u32 u32
  | UnmapBuf u32 u32
  | LockEv spinlock
  | UnlockEv spinlock
  | AllocMem u32 u32 u32
  | FreeMem u32 u32 u32
  | FreePage u32
  | NullDeref

text \<open>
  \<open>dev\<close> is the hardware: the value a register read returns, as a function of everything that
  has happened so far and of the address. \<open>dma_map\<close> is the kernel's \<open>pci_map_single\<close>: the bus
  address of a buffer. Both are parameters of the model and no operation changes them.
\<close>

record mach =
  mem :: "u32 \<Rightarrow> u32"
  evs :: "io_event list"
  dev :: "io_event list \<Rightarrow> u32 \<Rightarrow> u32"
  dma_map :: "u32 \<Rightarrow> u32 \<Rightarrow> u32"

definition log_ev :: "io_event \<Rightarrow> mach \<Rightarrow> mach" where
  "log_ev e m = m\<lparr>evs := e # evs m\<rparr>"

lemma log_ev_sel [simp]:
  "mem (log_ev e m) = mem m" "evs (log_ev e m) = e # evs m"
  "dev (log_ev e m) = dev m" "dma_map (log_ev e m) = dma_map m"
  by (simp_all add: log_ev_def)

definition XIo_In32 :: "u32 \<Rightarrow> mach \<Rightarrow> u32 \<times> mach" where
  "XIo_In32 addr m = (let v = dev m (evs m) addr in (v, log_ev (RdReg addr v) m))"

definition XIo_Out32 :: "u32 \<Rightarrow> u32 \<Rightarrow> mach \<Rightarrow> mach" where
  "XIo_Out32 addr data m = log_ev (WrReg addr data) m"

definition wmb :: "mach \<Rightarrow> mach" where
  "wmb m = log_ev Wmb m"

definition spin_lock :: "spinlock \<Rightarrow> mach \<Rightarrow> mach" where
  "spin_lock l m = log_ev (LockEv l) m"

definition spin_unlock :: "spinlock \<Rightarrow> mach \<Rightarrow> mach" where
  "spin_unlock l m = log_ev (UnlockEv l) m"

definition null_deref :: "mach \<Rightarrow> mach" where
  "null_deref m = log_ev NullDeref m"

definition pci_free_consistent :: "u32 \<Rightarrow> u32 \<Rightarrow> u32 \<Rightarrow> mach \<Rightarrow> mach" where
  "pci_free_consistent len va pa m = log_ev (FreeMem len va pa) m"

text \<open>\<open>memset\<close> of a byte area to zero, for word-aligned areas of the descriptor memory.\<close>

definition mem_clear :: "u32 \<Rightarrow> u32 \<Rightarrow> mach \<Rightarrow> mach" where
  "mem_clear base len m =
     log_ev (Clear base len) (m\<lparr>mem := (\<lambda>a. if a - base < len then 0 else mem m a)\<rparr>)"

definition pci_map_single :: "u32 \<Rightarrow> u32 \<Rightarrow> mach \<Rightarrow> u32 \<times> mach" where
  "pci_map_single va len m = (let pa = dma_map m va len in (pa, log_ev (MapBuf pa len) m))"

definition pci_unmap_single :: "u32 \<Rightarrow> u32 \<Rightarrow> mach \<Rightarrow> mach" where
  "pci_unmap_single pa len m = log_ev (UnmapBuf pa len) m"

lemma xio_mem [mach_simps, simp]:
  "mem (snd (XIo_In32 a m)) = mem m"
  "mem (XIo_Out32 a d m) = mem m"
  "mem (wmb m) = mem m"
  "mem (spin_lock l m) = mem m"
  "mem (spin_unlock l m) = mem m"
  "mem (snd (pci_map_single va sz m)) = mem m"
  "mem (pci_unmap_single pa sz m) = mem m"
  "mem (null_deref m) = mem m"
  by (simp_all add: XIo_In32_def XIo_Out32_def wmb_def spin_lock_def spin_unlock_def null_deref_def
      pci_map_single_def pci_unmap_single_def Let_def)

lemma xio_env [mach_simps, simp]:
  "dev (snd (XIo_In32 a m)) = dev m" "dma_map (snd (XIo_In32 a m)) = dma_map m"
  "dev (XIo_Out32 a d m) = dev m" "dma_map (XIo_Out32 a d m) = dma_map m"
  "dev (wmb m) = dev m" "dma_map (wmb m) = dma_map m"
  "dev (spin_lock l m) = dev m" "dma_map (spin_lock l m) = dma_map m"
  "dev (spin_unlock l m) = dev m" "dma_map (spin_unlock l m) = dma_map m"
  "dev (mem_clear a len m) = dev m" "dma_map (mem_clear a len m) = dma_map m"
  "dev (snd (pci_map_single va sz m)) = dev m" "dma_map (snd (pci_map_single va sz m)) = dma_map m"
  "dev (pci_unmap_single pa sz m) = dev m" "dma_map (pci_unmap_single pa sz m) = dma_map m"
  "dev (null_deref m) = dev m" "dma_map (null_deref m) = dma_map m"
  by (simp_all add: XIo_In32_def XIo_Out32_def wmb_def null_deref_def spin_lock_def spin_unlock_def mem_clear_def
      pci_map_single_def pci_unmap_single_def Let_def)

lemma xio_evs [simp]:
  "evs (XIo_Out32 a d m) = WrReg a d # evs m"
  "evs (wmb m) = Wmb # evs m"
  "evs (spin_lock l m) = LockEv l # evs m"
  "evs (spin_unlock l m) = UnlockEv l # evs m"
  "evs (mem_clear a len m) = Clear a len # evs m"
  "evs (pci_unmap_single pa sz m) = UnmapBuf pa sz # evs m"
  "evs (null_deref m) = NullDeref # evs m"
  by (simp_all add: null_deref_def XIo_Out32_def wmb_def spin_lock_def spin_unlock_def mem_clear_def
      pci_unmap_single_def)

lemma mem_mem_clear [simp]: "mem (mem_clear b len m) a = (if a - b < len then 0 else mem m a)"
  by (simp add: mem_clear_def)

section \<open>Lock discipline\<close>

text \<open>
  How often a lock is held after the events of a log (newest first): acquiring counts up,
  releasing counts down. A log is \<open>disciplined\<close> for a lock if it is never acquired while held
  and never released while free.
\<close>

fun lock_depth :: "spinlock \<Rightarrow> io_event list \<Rightarrow> int" where
  "lock_depth l [] = 0"
| "lock_depth l (LockEv k # es) = (if k = l then lock_depth l es + 1 else lock_depth l es)"
| "lock_depth l (UnlockEv k # es) = (if k = l then lock_depth l es - 1 else lock_depth l es)"
| "lock_depth l (_ # es) = lock_depth l es"

lemma lock_depth_simps [simp]:
  "lock_depth l (RdReg a v # es) = lock_depth l es"
  "lock_depth l (WrReg a v # es) = lock_depth l es"
  "lock_depth l (WrBd a v # es) = lock_depth l es"
  by simp_all

section \<open>Registers (\<open>xdma_hw.h\<close>)\<close>

definition REG_DMA_CTRL_STATUS :: u32 where [hwc]: "REG_DMA_CTRL_STATUS = 0x4000"
definition REG_DMA_ENG_CAP :: u32 where [hwc]: "REG_DMA_ENG_CAP = 0x00000000"
definition REG_DMA_ENG_CTRL_STATUS :: u32 where [hwc]: "REG_DMA_ENG_CTRL_STATUS = 0x00000004"
definition REG_DMA_ENG_NEXT_BD :: u32 where [hwc]: "REG_DMA_ENG_NEXT_BD = 0x00000008"
definition REG_SW_NEXT_BD :: u32 where [hwc]: "REG_SW_NEXT_BD = 0x0000000C"
definition REG_DMA_ENG_LAST_BD :: u32 where [hwc]: "REG_DMA_ENG_LAST_BD = 0x00000010"
definition REG_DMA_ENG_ACTIVE_TIME :: u32 where [hwc]: "REG_DMA_ENG_ACTIVE_TIME = 0x00000014"
definition REG_DMA_ENG_WAIT_TIME :: u32 where [hwc]: "REG_DMA_ENG_WAIT_TIME = 0x00000018"
definition REG_DMA_ENG_COMP_BYTES :: u32 where [hwc]: "REG_DMA_ENG_COMP_BYTES = 0x0000001C"

definition DMA_INT_ENABLE :: u32 where [hwc]: "DMA_INT_ENABLE = 0x00000001"
definition DMA_USER_INT_ENABLE :: u32 where [hwc]: "DMA_USER_INT_ENABLE = 0x00000010"
definition DMA_S2C_ENG_INT_VAL :: u32 where [hwc]: "DMA_S2C_ENG_INT_VAL = 0x00FF0000"
definition DMA_C2S_ENG_INT_VAL :: u32 where [hwc]: "DMA_C2S_ENG_INT_VAL = 0xFF000000"

definition DMA_ENG_PRESENT_MASK :: u32 where [hwc]: "DMA_ENG_PRESENT_MASK = 0x00000001"
definition DMA_ENG_DIRECTION_MASK :: u32 where [hwc]: "DMA_ENG_DIRECTION_MASK = 0x00000002"
definition DMA_ENG_C2S :: u32 where [hwc]: "DMA_ENG_C2S = 0x00000002"
definition DMA_ENG_TYPE_MASK :: u32 where [hwc]: "DMA_ENG_TYPE_MASK = 0x00000010"
definition DMA_ENG_PACKET :: u32 where [hwc]: "DMA_ENG_PACKET = 0x00000010"

definition DMA_ENG_INT_ENABLE :: u32 where [hwc]: "DMA_ENG_INT_ENABLE = 0x00000001"
definition DMA_ENG_INT_ACTIVE_MASK :: u32 where [hwc]: "DMA_ENG_INT_ACTIVE_MASK = 0x00000002"
definition DMA_ENG_INT_ACK :: u32 where [hwc]: "DMA_ENG_INT_ACK = 0x00000002"
definition DMA_ENG_INT_BDCOMP :: u32 where [hwc]: "DMA_ENG_INT_BDCOMP = 0x00000004"
definition DMA_ENG_INT_BDCOMP_ACK :: u32 where [hwc]: "DMA_ENG_INT_BDCOMP_ACK = 0x00000004"
definition DMA_ENG_INT_ALERR :: u32 where [hwc]: "DMA_ENG_INT_ALERR = 0x00000008"
definition DMA_ENG_INT_ALERR_ACK :: u32 where [hwc]: "DMA_ENG_INT_ALERR_ACK = 0x00000008"
definition DMA_ENG_INT_FETERR :: u32 where [hwc]: "DMA_ENG_INT_FETERR = 0x00000010"
definition DMA_ENG_INT_FETERR_ACK :: u32 where [hwc]: "DMA_ENG_INT_FETERR_ACK = 0x00000010"
definition DMA_ENG_INT_ABORTERR :: u32 where [hwc]: "DMA_ENG_INT_ABORTERR = 0x00000020"
definition DMA_ENG_INT_ABORTERR_ACK :: u32 where [hwc]: "DMA_ENG_INT_ABORTERR_ACK = 0x00000020"
definition DMA_ENG_INT_CHAINEND :: u32 where [hwc]: "DMA_ENG_INT_CHAINEND = 0x00000080"
definition DMA_ENG_INT_CHAINEND_ACK :: u32 where [hwc]: "DMA_ENG_INT_CHAINEND_ACK = 0x00000080"
definition DMA_ENG_ENABLE_MASK :: u32 where [hwc]: "DMA_ENG_ENABLE_MASK = 0x00000100"
definition DMA_ENG_ENABLE :: u32 where [hwc]: "DMA_ENG_ENABLE = 0x00000100"
definition DMA_ENG_DISABLE :: u32 where [hwc]: "DMA_ENG_DISABLE = 0x00000000"
definition DMA_ENG_STATE_MASK :: u32 where [hwc]: "DMA_ENG_STATE_MASK = 0x00000C00"
definition DMA_ENG_RUNNING :: u32 where [hwc]: "DMA_ENG_RUNNING = 0x00000400"
definition DMA_ENG_USER_RESET :: u32 where [hwc]: "DMA_ENG_USER_RESET = 0x00004000"
definition DMA_ENG_RESET :: u32 where [hwc]: "DMA_ENG_RESET = 0x00008000"
definition DMA_ENG_ALLINT_MASK :: u32 where [hwc]: "DMA_ENG_ALLINT_MASK = 0x000000BE"

definition Dma_mReadReg :: "u32 \<Rightarrow> u32 \<Rightarrow> mach \<Rightarrow> u32 \<times> mach" where
  "Dma_mReadReg BaseAddress RegOffset m = XIo_In32 (BaseAddress + RegOffset) m"

definition Dma_mWriteReg :: "u32 \<Rightarrow> u32 \<Rightarrow> u32 \<Rightarrow> mach \<Rightarrow> mach" where
  "Dma_mWriteReg BaseAddress RegOffset Data m = XIo_Out32 (BaseAddress + RegOffset) Data m"

definition Dma_mIntEnable :: "u32 \<Rightarrow> mach \<Rightarrow> mach" where
  "Dma_mIntEnable BaseAddress m =
     (let (Reg, m) = Dma_mReadReg BaseAddress REG_DMA_CTRL_STATUS m
      in Dma_mWriteReg BaseAddress REG_DMA_CTRL_STATUS
           (Reg OR (DMA_INT_ENABLE OR DMA_USER_INT_ENABLE)) m)"

definition Dma_mIntDisable :: "u32 \<Rightarrow> mach \<Rightarrow> mach" where
  "Dma_mIntDisable BaseAddress m =
     (let (Reg, m) = Dma_mReadReg BaseAddress REG_DMA_CTRL_STATUS m
      in Dma_mWriteReg BaseAddress REG_DMA_CTRL_STATUS
           (Reg AND NOT (DMA_INT_ENABLE OR DMA_USER_INT_ENABLE)) m)"

definition Dma_mIntAck :: "u32 \<Rightarrow> u32 \<Rightarrow> mach \<Rightarrow> mach" where
  "Dma_mIntAck BaseAddress Mask m =
     (let (Reg, m) = Dma_mReadReg BaseAddress REG_DMA_CTRL_STATUS m
      in Dma_mWriteReg BaseAddress REG_DMA_CTRL_STATUS (Reg OR Mask) m)"

definition Dma_mEnable :: "u32 \<Rightarrow> mach \<Rightarrow> mach" where
  "Dma_mEnable BaseAddress m =
     (let (val, m) = Dma_mReadReg BaseAddress REG_DMA_ENG_CTRL_STATUS m
      in Dma_mWriteReg BaseAddress REG_DMA_ENG_CTRL_STATUS (val OR DMA_ENG_ENABLE) m)"

lemma reg_mem [mach_simps, simp]:
  "mem (snd (Dma_mReadReg b r m)) = mem m"
  "mem (Dma_mWriteReg b r d m) = mem m"
  "mem (Dma_mIntEnable b m) = mem m"
  "mem (Dma_mIntDisable b m) = mem m"
  "mem (Dma_mIntAck b k m) = mem m"
  "mem (Dma_mEnable b m) = mem m"
  by (simp_all add: Dma_mReadReg_def Dma_mWriteReg_def Dma_mIntEnable_def Dma_mIntDisable_def
      Dma_mIntAck_def Dma_mEnable_def XIo_In32_def Let_def)

end
