(* ===== verification/Bd.thy ===== *)
theory Bd
  imports Xio
begin

text \<open>
  Buffer descriptors (\<open>fc1553_dma/xdma/xdma_bd.h\<close>): sixteen 32-bit words, the first eight
  shared with the hardware. Each accessor macro is a function on the descriptor memory; the
  lemmas give the read-back law of every field and its independence from the others.
\<close>

section \<open>Layout and masks\<close>

definition DMA_BD_MINIMUM_ALIGNMENT :: u32 where [hwc]: "DMA_BD_MINIMUM_ALIGNMENT = 0x40"
definition DMA_BD_SW_NUM_WORDS :: u32 where [hwc]: "DMA_BD_SW_NUM_WORDS = 16"

definition DMA_BD_BUFL_STATUS_OFFSET :: u32 where [hwc]: "DMA_BD_BUFL_STATUS_OFFSET = 0x00"
definition DMA_BD_USRL_OFFSET :: u32 where [hwc]: "DMA_BD_USRL_OFFSET = 0x04"
definition DMA_BD_USRH_OFFSET :: u32 where [hwc]: "DMA_BD_USRH_OFFSET = 0x08"
definition DMA_BD_BUFL_CTRL_OFFSET :: u32 where [hwc]: "DMA_BD_BUFL_CTRL_OFFSET = 0x10"
definition DMA_BD_BUFAL_OFFSET :: u32 where [hwc]: "DMA_BD_BUFAL_OFFSET = 0x14"
definition DMA_BD_BUFAH_OFFSET :: u32 where [hwc]: "DMA_BD_BUFAH_OFFSET = 0x18"
definition DMA_BD_NDESC_OFFSET :: u32 where [hwc]: "DMA_BD_NDESC_OFFSET = 0x1C"
definition DMA_BD_VBUFAL_OFFSET :: u32 where [hwc]: "DMA_BD_VBUFAL_OFFSET = 0x20"

definition DMA_BD_BUFL_MASK :: u32 where [hwc]: "DMA_BD_BUFL_MASK = 0x000FFFFF"
definition DMA_BD_STATUS_MASK :: u32 where [hwc]: "DMA_BD_STATUS_MASK = 0xFF000000"
definition DMA_BD_CTRL_MASK :: u32 where [hwc]: "DMA_BD_CTRL_MASK = 0xFF000000"
definition DMA_BD_INT_ERROR_MASK :: u32 where [hwc]: "DMA_BD_INT_ERROR_MASK = 0x02000000"
definition DMA_BD_INT_COMP_MASK :: u32 where [hwc]: "DMA_BD_INT_COMP_MASK = 0x01000000"
definition DMA_BD_SOP_MASK :: u32 where [hwc]: "DMA_BD_SOP_MASK = 0x80000000"
definition DMA_BD_EOP_MASK :: u32 where [hwc]: "DMA_BD_EOP_MASK = 0x40000000"
definition DMA_BD_ERROR_MASK :: u32 where [hwc]: "DMA_BD_ERROR_MASK = 0x10000000"
definition DMA_BD_USER_HIGH_ZERO_MASK :: u32 where [hwc]: "DMA_BD_USER_HIGH_ZERO_MASK = 0x08000000"
definition DMA_BD_USER_LOW_ZERO_MASK :: u32 where [hwc]: "DMA_BD_USER_LOW_ZERO_MASK = 0x04000000"
definition DMA_BD_SHORT_MASK :: u32 where [hwc]: "DMA_BD_SHORT_MASK = 0x02000000"
definition DMA_BD_COMP_MASK :: u32 where [hwc]: "DMA_BD_COMP_MASK = 0x01000000"

section \<open>Accessors\<close>

definition Dma_mBdRead :: "u32 \<Rightarrow> u32 \<Rightarrow> mach \<Rightarrow> u32" where
  "Dma_mBdRead BaseAddress Offset m = mem m (BaseAddress + Offset)"

definition Dma_mBdWrite :: "u32 \<Rightarrow> u32 \<Rightarrow> u32 \<Rightarrow> mach \<Rightarrow> mach" where
  "Dma_mBdWrite BaseAddress Offset Data m =
     log_ev (WrBd (BaseAddress + Offset) Data) (m\<lparr>mem := (mem m)(BaseAddress + Offset := Data)\<rparr>)"

definition Dma_mBdClear :: "u32 \<Rightarrow> mach \<Rightarrow> mach" where
  "Dma_mBdClear BdPtr m = mem_clear BdPtr (4 * DMA_BD_SW_NUM_WORDS) m"

definition Dma_mBdSetCtrl :: "u32 \<Rightarrow> u32 \<Rightarrow> mach \<Rightarrow> mach" where
  "Dma_mBdSetCtrl BdPtr Data m =
     Dma_mBdWrite BdPtr DMA_BD_BUFL_CTRL_OFFSET
       ((Dma_mBdRead BdPtr DMA_BD_BUFL_CTRL_OFFSET m AND DMA_BD_BUFL_MASK)
         OR (Data AND DMA_BD_CTRL_MASK)) m"

definition Dma_mBdGetCtrl :: "u32 \<Rightarrow> mach \<Rightarrow> u32" where
  "Dma_mBdGetCtrl BdPtr m = Dma_mBdRead BdPtr DMA_BD_BUFL_CTRL_OFFSET m AND DMA_BD_CTRL_MASK"

definition Dma_mBdSetStatus :: "u32 \<Rightarrow> u32 \<Rightarrow> mach \<Rightarrow> mach" where
  "Dma_mBdSetStatus BdPtr Data m =
     Dma_mBdWrite BdPtr DMA_BD_BUFL_STATUS_OFFSET
       ((Dma_mBdRead BdPtr DMA_BD_BUFL_STATUS_OFFSET m AND DMA_BD_BUFL_MASK)
         OR (Data AND DMA_BD_STATUS_MASK)) m"

definition Dma_mBdGetStatus :: "u32 \<Rightarrow> mach \<Rightarrow> u32" where
  "Dma_mBdGetStatus BdPtr m = Dma_mBdRead BdPtr DMA_BD_BUFL_STATUS_OFFSET m AND DMA_BD_STATUS_MASK"

definition Dma_mBdSetCtrlLength :: "u32 \<Rightarrow> u32 \<Rightarrow> mach \<Rightarrow> mach" where
  "Dma_mBdSetCtrlLength BdPtr LenBytes m =
     Dma_mBdWrite BdPtr DMA_BD_BUFL_CTRL_OFFSET
       ((Dma_mBdRead BdPtr DMA_BD_BUFL_CTRL_OFFSET m AND DMA_BD_CTRL_MASK)
         OR (LenBytes AND DMA_BD_BUFL_MASK)) m"

definition Dma_mBdSetStatLength :: "u32 \<Rightarrow> u32 \<Rightarrow> mach \<Rightarrow> mach" where
  "Dma_mBdSetStatLength BdPtr LenBytes m =
     Dma_mBdWrite BdPtr DMA_BD_BUFL_STATUS_OFFSET
       ((Dma_mBdRead BdPtr DMA_BD_BUFL_STATUS_OFFSET m AND DMA_BD_STATUS_MASK)
         OR (LenBytes AND DMA_BD_BUFL_MASK)) m"

definition Dma_mBdGetStatLength :: "u32 \<Rightarrow> mach \<Rightarrow> u32" where
  "Dma_mBdGetStatLength BdPtr m = Dma_mBdRead BdPtr DMA_BD_BUFL_STATUS_OFFSET m AND DMA_BD_BUFL_MASK"

definition Dma_mBdGetCtrlLength :: "u32 \<Rightarrow> mach \<Rightarrow> u32" where
  "Dma_mBdGetCtrlLength BdPtr m = Dma_mBdRead BdPtr DMA_BD_BUFL_CTRL_OFFSET m AND DMA_BD_BUFL_MASK"

definition Dma_mBdSetId :: "u32 \<Rightarrow> u32 \<Rightarrow> mach \<Rightarrow> mach" where
  "Dma_mBdSetId BdPtr ident m = Dma_mBdWrite BdPtr DMA_BD_VBUFAL_OFFSET ident m"

definition Dma_mBdGetId :: "u32 \<Rightarrow> mach \<Rightarrow> u32" where
  "Dma_mBdGetId BdPtr m = Dma_mBdRead BdPtr DMA_BD_VBUFAL_OFFSET m"

definition Dma_mBdSetBufAddr :: "u32 \<Rightarrow> u32 \<Rightarrow> mach \<Rightarrow> mach" where
  "Dma_mBdSetBufAddr BdPtr Addr m =
     Dma_mBdWrite BdPtr DMA_BD_BUFAH_OFFSET 0 (Dma_mBdWrite BdPtr DMA_BD_BUFAL_OFFSET Addr m)"

definition Dma_mBdGetBufAddr :: "u32 \<Rightarrow> mach \<Rightarrow> u32" where
  "Dma_mBdGetBufAddr BdPtr m = Dma_mBdRead BdPtr DMA_BD_BUFAL_OFFSET m"

definition Dma_mBdSetUserData :: "u32 \<Rightarrow> u64 \<Rightarrow> mach \<Rightarrow> mach" where
  "Dma_mBdSetUserData BdPtr User m =
     (let val = ucast (User AND 0xFFFFFFFF);
          m = Dma_mBdWrite BdPtr DMA_BD_USRL_OFFSET val m;
          val = ucast (drop_bit 32 User AND 0xFFFFFFFF)
      in Dma_mBdWrite BdPtr DMA_BD_USRH_OFFSET val m)"

definition Dma_mBdGetUserData :: "u32 \<Rightarrow> mach \<Rightarrow> u64" where
  "Dma_mBdGetUserData BdPtr m =
     (let val1 = Dma_mBdRead BdPtr DMA_BD_USRH_OFFSET m;
          val2 = Dma_mBdRead BdPtr DMA_BD_USRL_OFFSET m;
          val = push_bit 32 (ucast val1 :: u64)
      in val OR ucast val2)"

section \<open>Effect on the memory\<close>

lemma mem_BdWrite [mach_simps, simp]: "mem (Dma_mBdWrite b off d m) = (mem m)(b + off := d)"
  by (simp add: Dma_mBdWrite_def)

lemma BdWrite_env [simp]:
  "dev (Dma_mBdWrite b off d m) = dev m" "dma_map (Dma_mBdWrite b off d m) = dma_map m"
  "evs (Dma_mBdWrite b off d m) = WrBd (b + off) d # evs m"
  by (simp_all add: Dma_mBdWrite_def)

lemma BdRead_mem_cong: "mem m = mem m' \<Longrightarrow> Dma_mBdRead b off m = Dma_mBdRead b off m'"
  by (simp add: Dma_mBdRead_def)

lemma BdRead_BdWrite:
  "Dma_mBdRead b off (Dma_mBdWrite b' off' d m) = (if b + off = b' + off' then d else Dma_mBdRead b off m)"
  by (simp add: Dma_mBdRead_def)

lemmas bd_set_defs = Dma_mBdSetCtrl_def Dma_mBdSetStatus_def Dma_mBdSetCtrlLength_def
  Dma_mBdSetStatLength_def Dma_mBdSetId_def Dma_mBdSetBufAddr_def Dma_mBdSetUserData_def

lemmas bd_get_defs = Dma_mBdGetCtrl_def Dma_mBdGetStatus_def Dma_mBdGetStatLength_def
  Dma_mBdGetCtrlLength_def Dma_mBdGetId_def Dma_mBdGetBufAddr_def Dma_mBdGetUserData_def

text \<open>A write through any setter touches words of its own descriptor only.\<close>

definition same_outside :: "u32 \<Rightarrow> mach \<Rightarrow> mach \<Rightarrow> bool" where
  "same_outside b m m' \<longleftrightarrow> (\<forall>a. mem m' a \<noteq> mem m a \<longrightarrow> a - b < 64)"

lemma setter_same_outside:
  "same_outside b m (Dma_mBdSetCtrl b d m)"
  "same_outside b m (Dma_mBdSetStatus b d m)"
  "same_outside b m (Dma_mBdSetCtrlLength b d m)"
  "same_outside b m (Dma_mBdSetStatLength b d m)"
  "same_outside b m (Dma_mBdSetId b d m)"
  "same_outside b m (Dma_mBdSetBufAddr b d m)"
  "same_outside b m (Dma_mBdSetUserData b u m)"
  by (simp_all add: same_outside_def bd_set_defs hwc Let_def)

lemma same_outside_trans: "same_outside b m1 m2 \<Longrightarrow> same_outside b m2 m3 \<Longrightarrow> same_outside b m1 m3"
  by (metis same_outside_def)

section \<open>Read-back laws\<close>

lemma word_mask_split: "((x AND DMA_BD_BUFL_MASK) OR (y AND DMA_BD_CTRL_MASK)) AND DMA_BD_BUFL_MASK = x AND DMA_BD_BUFL_MASK"
  "((x AND DMA_BD_BUFL_MASK) OR (y AND DMA_BD_CTRL_MASK)) AND DMA_BD_CTRL_MASK = y AND DMA_BD_CTRL_MASK"
  "((y AND DMA_BD_CTRL_MASK) OR (x AND DMA_BD_BUFL_MASK)) AND DMA_BD_BUFL_MASK = x AND DMA_BD_BUFL_MASK"
  "((y AND DMA_BD_CTRL_MASK) OR (x AND DMA_BD_BUFL_MASK)) AND DMA_BD_CTRL_MASK = y AND DMA_BD_CTRL_MASK"
  by (simp_all add: hwc bit.conj_disj_distrib2 and.assoc)

lemma status_eq_ctrl_mask: "DMA_BD_STATUS_MASK = DMA_BD_CTRL_MASK"
  by (simp add: hwc)

lemma get_set_ctrl [simp]:
  "Dma_mBdGetCtrl b (Dma_mBdSetCtrl b d m) = d AND DMA_BD_CTRL_MASK"
  "Dma_mBdGetCtrlLength b (Dma_mBdSetCtrl b d m) = Dma_mBdGetCtrlLength b m"
  "Dma_mBdGetCtrl b (Dma_mBdSetCtrlLength b d m) = Dma_mBdGetCtrl b m"
  "Dma_mBdGetCtrlLength b (Dma_mBdSetCtrlLength b d m) = d AND DMA_BD_BUFL_MASK"
  by (simp_all add: bd_set_defs bd_get_defs BdRead_BdWrite word_mask_split)

lemma get_set_status [simp]:
  "Dma_mBdGetStatus b (Dma_mBdSetStatus b d m) = d AND DMA_BD_STATUS_MASK"
  "Dma_mBdGetStatLength b (Dma_mBdSetStatus b d m) = Dma_mBdGetStatLength b m"
  "Dma_mBdGetStatus b (Dma_mBdSetStatLength b d m) = Dma_mBdGetStatus b m"
  "Dma_mBdGetStatLength b (Dma_mBdSetStatLength b d m) = d AND DMA_BD_BUFL_MASK"
  by (simp_all add: bd_set_defs bd_get_defs BdRead_BdWrite word_mask_split status_eq_ctrl_mask)

lemma get_set_id [simp]:
  "Dma_mBdGetId b (Dma_mBdSetId b d m) = d"
  "Dma_mBdGetBufAddr b (Dma_mBdSetBufAddr b d m) = d"
  by (simp_all add: bd_set_defs bd_get_defs BdRead_BdWrite hwc)

lemma mask32_u64: "(0xFFFFFFFF :: u64) = mask 32"
  by (simp add: mask_eq_exp_minus_1)

lemma u64_split_join:
  "push_bit 32 (ucast (ucast (drop_bit 32 u AND 0xFFFFFFFF) :: u32))
     OR ucast (ucast (u AND 0xFFFFFFFF) :: u32) = (u :: u64)"
  unfolding mask32_u64
proof (rule bit_word_eqI)
  fix n assume "n < LENGTH(64)"
  then show "bit (push_bit 32 (ucast (ucast (drop_bit 32 u AND mask 32) :: u32) :: u64)
      OR ucast (ucast (u AND mask 32) :: u32)) n = bit u n"
    by (cases "n < 32") (auto simp: bit_simps)
qed

lemma get_set_userdata [simp]: "Dma_mBdGetUserData b (Dma_mBdSetUserData b u m) = u"
  by (simp add: bd_set_defs bd_get_defs BdRead_BdWrite hwc Let_def u64_split_join)


text \<open>The control word after its two halves were set, and the setters that leave it alone.\<close>

lemma read_set_ctrl:
  "Dma_mBdRead b DMA_BD_BUFL_CTRL_OFFSET (Dma_mBdSetCtrl b d m)
     = Dma_mBdGetCtrlLength b m OR (d AND DMA_BD_CTRL_MASK)"
  by (simp add: Dma_mBdSetCtrl_def Dma_mBdGetCtrlLength_def BdRead_BdWrite)

lemma ctrl_length_frame [simp]:
  "Dma_mBdGetCtrlLength b (Dma_mBdSetId b d m) = Dma_mBdGetCtrlLength b m"
  "Dma_mBdGetCtrlLength b (Dma_mBdSetStatLength b d m) = Dma_mBdGetCtrlLength b m"
  "Dma_mBdGetCtrlLength b (Dma_mBdSetUserData b u m) = Dma_mBdGetCtrlLength b m"
  by (simp_all add: bd_set_defs bd_get_defs BdRead_BdWrite hwc Let_def)

lemma read_ctrl_frame [simp]:
  "Dma_mBdRead b DMA_BD_BUFL_CTRL_OFFSET (Dma_mBdSetUserData b u m) = Dma_mBdRead b DMA_BD_BUFL_CTRL_OFFSET m"
  by (simp add: bd_set_defs BdRead_BdWrite hwc Let_def)

lemma setter_env [simp]:
  "dev (Dma_mBdSetCtrl b d m) = dev m" "dma_map (Dma_mBdSetCtrl b d m) = dma_map m"
  "dev (Dma_mBdSetStatus b d m) = dev m" "dma_map (Dma_mBdSetStatus b d m) = dma_map m"
  "dev (Dma_mBdSetCtrlLength b d m) = dev m" "dma_map (Dma_mBdSetCtrlLength b d m) = dma_map m"
  "dev (Dma_mBdSetStatLength b d m) = dev m" "dma_map (Dma_mBdSetStatLength b d m) = dma_map m"
  "dev (Dma_mBdSetId b d m) = dev m" "dma_map (Dma_mBdSetId b d m) = dma_map m"
  "dev (Dma_mBdSetBufAddr b d m) = dev m" "dma_map (Dma_mBdSetBufAddr b d m) = dma_map m"
  "dev (Dma_mBdSetUserData b u m) = dev m" "dma_map (Dma_mBdSetUserData b u m) = dma_map m"
  by (simp_all add: bd_set_defs Let_def)

end
