(* ===== verification/BdRing.thy ===== *)
theory BdRing
  imports Bd
begin

text \<open>
  The descriptor ring of \<open>fc1553_dma/xdma/xdma_bdring.h\<close>: the control block \<open>Dma_BdRing\<close>, the
  pointer macros that walk it, and its geometry. A ring of \<open>n\<close> descriptors occupies the
  addresses \<open>bd_addr R 0 \<dots> bd_addr R (n - 1)\<close>; on those addresses the macros compute
  modulo \<open>n\<close>, which is what the lemmas at the end say.
\<close>

section \<open>Status codes and the control block\<close>

definition XST_SUCCESS :: int where [hwc]: "XST_SUCCESS = 0"
definition XST_FAILURE :: int where [hwc]: "XST_FAILURE = 1"
definition XST_INVALID_PARAM :: int where [hwc]: "XST_INVALID_PARAM = 15"
definition XST_IS_STARTED :: int where [hwc]: "XST_IS_STARTED = 23"
definition XST_DMA_SG_IS_STARTED :: u32 where [hwc]: "XST_DMA_SG_IS_STARTED = 514"
definition XST_DMA_SG_IS_STOPPED :: u32 where [hwc]: "XST_DMA_SG_IS_STOPPED = 515"
definition XST_DMA_SG_NO_LIST :: int where [hwc]: "XST_DMA_SG_NO_LIST = 523"
definition XST_DMA_SG_LIST_ERROR :: int where [hwc]: "XST_DMA_SG_LIST_ERROR = 526"

record Dma_BdRing =
  ChanBase :: u32
  IsRxChannel :: u32
  RunState :: u32
  FirstBdPhysAddr :: u32
  FirstBdAddr :: u32
  LastBdAddr :: u32
  Length :: u32
  Separation :: u32
  FreeHead :: u32
  PreHead :: u32
  HwHead :: u32
  HwTail :: u32
  PostHead :: u32
  BdaRestart :: u32
  FreeCnt :: u32
  PreCnt :: u32
  HwCnt :: u32
  PostCnt :: u32
  AllCnt :: u32
  BDerrs :: u32
  BDSerrs :: u32

section \<open>Pointer macros\<close>

definition Dma_mBdRingGetCnt :: "Dma_BdRing \<Rightarrow> u32" where
  "Dma_mBdRingGetCnt R = AllCnt R"

definition Dma_mBdRingGetFreeCnt :: "Dma_BdRing \<Rightarrow> u32" where
  "Dma_mBdRingGetFreeCnt R = FreeCnt R"

definition Dma_mBdRingSnapShotCurrBd :: "Dma_BdRing \<Rightarrow> mach \<Rightarrow> Dma_BdRing \<times> mach" where
  "Dma_mBdRingSnapShotCurrBd R m =
     (let (v, m) = Dma_mReadReg (ChanBase R) REG_DMA_ENG_NEXT_BD m in (R\<lparr>BdaRestart := v\<rparr>, m))"

definition Dma_mBdRingNext :: "Dma_BdRing \<Rightarrow> u32 \<Rightarrow> u32" where
  "Dma_mBdRingNext R BdPtr =
     (if BdPtr \<ge> LastBdAddr R then FirstBdAddr R else BdPtr + Separation R)"

definition Dma_mBdRingPrev :: "Dma_BdRing \<Rightarrow> u32 \<Rightarrow> u32" where
  "Dma_mBdRingPrev R BdPtr =
     (if BdPtr \<le> FirstBdAddr R then LastBdAddr R else BdPtr - Separation R)"

definition Dma_mRingSeekahead :: "Dma_BdRing \<Rightarrow> u32 \<Rightarrow> u32 \<Rightarrow> u32" where
  "Dma_mRingSeekahead R BdPtr NumBd =
     (let Addr = BdPtr + Separation R * NumBd
      in if Addr > LastBdAddr R \<or> BdPtr > Addr then Addr - Length R else Addr)"

definition Dma_mRingSeekback :: "Dma_BdRing \<Rightarrow> u32 \<Rightarrow> u32 \<Rightarrow> u32" where
  "Dma_mRingSeekback R BdPtr NumBd =
     (let Addr = BdPtr - Separation R * NumBd
      in if Addr < FirstBdAddr R \<or> BdPtr < Addr then Addr + Length R else Addr)"

definition Dma_mPhysToVirt :: "Dma_BdRing \<Rightarrow> u32 \<Rightarrow> u32" where
  "Dma_mPhysToVirt R BdPtr = BdPtr + (FirstBdAddr R - FirstBdPhysAddr R)"

definition Dma_mVirtToPhys :: "Dma_BdRing \<Rightarrow> u32 \<Rightarrow> u32" where
  "Dma_mVirtToPhys R BdPtr = BdPtr - (FirstBdAddr R - FirstBdPhysAddr R)"

lemma virt_phys_roundtrip [simp]:
  "Dma_mPhysToVirt R (Dma_mVirtToPhys R p) = p" "Dma_mVirtToPhys R (Dma_mPhysToVirt R p) = p"
  by (simp_all add: Dma_mPhysToVirt_def Dma_mVirtToPhys_def)

section \<open>Geometry\<close>

text \<open>The number of descriptors and the address of descriptor \<open>i\<close>.\<close>

definition ring_n :: "Dma_BdRing \<Rightarrow> nat" where
  "ring_n R = unat (AllCnt R)"

definition bd_addr :: "Dma_BdRing \<Rightarrow> nat \<Rightarrow> u32" where
  "bd_addr R i = FirstBdAddr R + Separation R * of_nat i"

text \<open>
  What \<open>Dma_BdRingCreate\<close> establishes about the addresses: at least one descriptor, descriptors
  at least as far apart as they are long, the last address and the byte length consistent with
  the count, and no wrap-around of the address space inside the ring.
\<close>

definition geom :: "Dma_BdRing \<Rightarrow> bool" where
  "geom R \<longleftrightarrow> 0 < ring_n R \<and> 64 \<le> unat (Separation R)
     \<and> unat (Separation R) * ring_n R < 2 ^ 32
     \<and> unat (FirstBdAddr R) + unat (Separation R) * ring_n R \<le> 2 ^ 32
     \<and> LastBdAddr R = FirstBdAddr R + Separation R * (AllCnt R - 1)
     \<and> Length R = Separation R * AllCnt R"

lemma geom_n_pos: "geom R \<Longrightarrow> 0 < ring_n R"
  by (simp add: geom_def)

lemma ring_n_lt: "ring_n R < 2 ^ 32"
  unfolding ring_n_def by (rule unat_lt32)

lemma AllCnt_eq: "AllCnt R = of_nat (ring_n R)"
  by (simp add: ring_n_def)

lemma mult_less_geom:
  "geom R \<Longrightarrow> i \<le> ring_n R \<Longrightarrow> unat (Separation R) * i < 2 ^ 32"
  unfolding geom_def by (meson le_less_trans mult_le_mono2)

lemma unat_sep_mult:
  assumes "geom R" "i \<le> ring_n R"
  shows "unat (Separation R * of_nat i) = unat (Separation R) * i"
proof -
  have "i < 2 ^ 32" using assms(2) ring_n_lt[of R] by simp
  then show ?thesis using mult_less_geom[OF assms] by (simp add: unat_mult32)
qed

lemma sep_mult_lt:
  assumes "geom R" "i < ring_n R"
  shows "unat (FirstBdAddr R) + unat (Separation R) * i + unat (Separation R) \<le> 2 ^ 32"
proof -
  have "unat (Separation R) * Suc i \<le> unat (Separation R) * ring_n R"
    using assms(2) by (intro mult_le_mono2) simp
  then show ?thesis using assms(1) by (simp add: geom_def)
qed

lemma unat_bd_addr:
  assumes "geom R" "i < ring_n R"
  shows "unat (bd_addr R i) = unat (FirstBdAddr R) + unat (Separation R) * i"
proof -
  have "64 \<le> unat (Separation R)" using assms(1) by (simp add: geom_def)
  then have "unat (FirstBdAddr R) + unat (Separation R) * i < 2 ^ 32"
    using sep_mult_lt[OF assms] by simp
  then show ?thesis using assms unat_sep_mult[of R i]
    unfolding bd_addr_def by (subst unat_add_no_overflow) auto
qed

lemma bd_addr_0 [simp]: "bd_addr R 0 = FirstBdAddr R"
  by (simp add: bd_addr_def)

lemma LastBdAddr_eq:
  assumes "geom R" shows "LastBdAddr R = bd_addr R (ring_n R - 1)"
proof -
  have "AllCnt R - 1 = of_nat (ring_n R - 1)"
    using geom_n_pos[OF assms] by (simp add: AllCnt_eq of_nat_diff)
  then show ?thesis using assms by (simp add: geom_def bd_addr_def)
qed

lemma bd_addr_le_iff:
  assumes "geom R" "i < ring_n R" "j < ring_n R"
  shows "bd_addr R i \<le> bd_addr R j \<longleftrightarrow> i \<le> j"
  using assms by (simp add: word_le_nat_alt unat_bd_addr geom_def)

lemma bd_addr_inj:
  assumes "geom R" "i < ring_n R" "j < ring_n R"
  shows "bd_addr R i = bd_addr R j \<longleftrightarrow> i = j"
  using bd_addr_le_iff[OF assms] bd_addr_le_iff[OF assms(1,3,2)] by (metis antisym order_refl)

text \<open>Distinct descriptors do not share words.\<close>

lemma bd_word_disjoint:
  assumes "geom R" "i < ring_n R" "j < ring_n R" "i \<noteq> j" and that: "unat off < 64"
  shows "\<not> bd_addr R i + off - bd_addr R j < 64"
proof -
  let ?s = "unat (Separation R)" and ?F = "unat (FirstBdAddr R)"
  have s: "64 \<le> ?s" using assms(1) by (simp add: geom_def)
  have "unat (bd_addr R i) + unat off < 2 ^ 32"
    unfolding unat_bd_addr[OF assms(1,2)] using sep_mult_lt[OF assms(1,2)] s that by linarith
  then have ui: "unat (bd_addr R i + off) = ?F + ?s * i + unat off"
    by (simp only: unat_add_no_overflow unat_bd_addr[OF assms(1,2)])
  have uj: "unat (bd_addr R j) = ?F + ?s * j" by (simp add: unat_bd_addr assms)
  show ?thesis
  proof (cases "i < j")
    case True
    then have "?s * Suc i \<le> ?s * j" by (intro mult_le_mono2) simp
    then have lt: "unat (bd_addr R i + off) < unat (bd_addr R j)" using ui uj s that by simp
    have "unat (bd_addr R j) - unat (bd_addr R i + off) \<le> 2 ^ 32 - 64"
      using uj sep_mult_lt[OF assms(1,3)] s by simp
    then have "64 \<le> unat (bd_addr R i + off - bd_addr R j)"
      using lt by (simp add: unat_sub_if_size word_size)
    then show ?thesis by (simp add: word_less_nat_alt)
  next
    case False
    then have "?s * Suc j \<le> ?s * i" using assms(4) by (intro mult_le_mono2) simp
    then have "unat (bd_addr R j) + 64 \<le> unat (bd_addr R i + off)" using ui uj s by simp
    then have "64 \<le> unat (bd_addr R i + off - bd_addr R j)"
      by (simp add: unat_sub_if_size)
    then show ?thesis by (simp add: word_less_nat_alt)
  qed
qed

section \<open>The macros compute modulo the ring size\<close>

lemma ringNext_bd_addr:
  assumes "geom R" "i < ring_n R"
  shows "Dma_mBdRingNext R (bd_addr R i) = bd_addr R (Suc i mod ring_n R)"
proof (cases "Suc i = ring_n R")
  case True
  then have "i = ring_n R - 1" by simp
  then show ?thesis using assms(1) True
    by (simp add: Dma_mBdRingNext_def LastBdAddr_eq)
next
  case False
  then have "\<not> ring_n R - 1 \<le> i" "Suc i < ring_n R" using assms(2) by auto
  then show ?thesis using assms
    by (simp add: Dma_mBdRingNext_def LastBdAddr_eq bd_addr_le_iff) (simp add: bd_addr_def algebra_simps)
qed

lemma ringPrev_bd_addr:
  assumes "geom R" "i < ring_n R"
  shows "Dma_mBdRingPrev R (bd_addr R i) = bd_addr R ((i + (ring_n R - 1)) mod ring_n R)"
proof (cases i)
  case 0
  then show ?thesis using assms
    by (simp add: Dma_mBdRingPrev_def LastBdAddr_eq del: bd_addr_0) (simp add: bd_addr_0)
next
  case (Suc j)
  then have "\<not> bd_addr R i \<le> bd_addr R 0"
    using bd_addr_le_iff[of R i 0] assms geom_n_pos[of R] by simp
  moreover have "(i + (ring_n R - 1)) mod ring_n R = j" using Suc assms by simp
  ultimately show ?thesis using Suc
    by (simp add: Dma_mBdRingPrev_def) (simp add: bd_addr_def algebra_simps)
qed

lemma length_sub:
  assumes "geom R" "ring_n R \<le> k"
  shows "FirstBdAddr R + Separation R * of_nat k - Length R = bd_addr R (k - ring_n R)"
  using assms by (simp add: bd_addr_def geom_def AllCnt_eq of_nat_diff algebra_simps)

lemma seekahead_bd_addr:
  assumes g: "geom R" and i: "i < ring_n R" and k: "k \<le> ring_n R"
  shows "Dma_mRingSeekahead R (bd_addr R i) (of_nat k) = bd_addr R ((i + k) mod ring_n R)"
proof -
  let ?n = "ring_n R" and ?s = "unat (Separation R)" and ?F = "unat (FirstBdAddr R)"
  let ?A = "bd_addr R i + Separation R * of_nat k"
  have A: "?A = FirstBdAddr R + Separation R * of_nat (i + k)"
    by (simp add: bd_addr_def algebra_simps)
  have s: "64 \<le> ?s" using g by (simp add: geom_def)
  have ui: "unat (bd_addr R i) = ?F + ?s * i" by (rule unat_bd_addr[OF g i])
  have uk: "unat (Separation R * of_nat k) = ?s * k" by (rule unat_sep_mult[OF g k])
  have uL: "unat (LastBdAddr R) = ?F + ?s * (?n - 1)"
    using g geom_n_pos[OF g] by (simp add: LastBdAddr_eq unat_bd_addr)
  show ?thesis
  proof (cases "i + k < ?n")
    case True
    then have "?A = bd_addr R (i + k)" using A by (simp add: bd_addr_def)
    moreover from this have "\<not> ?A > LastBdAddr R" "\<not> bd_addr R i > ?A"
      using True g by (simp_all add: LastBdAddr_eq bd_addr_le_iff not_less i)
    ultimately show ?thesis using True by (simp add: Dma_mRingSeekahead_def Let_def)
  next
    case False
    have md: "(i + k) mod ?n = i + k - ?n" using False i k by (simp add: mod_if)
    have "?s * ?n \<le> ?s * (i + k)" using False by (intro mult_le_mono2) simp
    moreover have "?s * (?n - 1) + ?s = ?s * ?n" using geom_n_pos[OF g]
      by (metis Suc_pred' add.commute mult_Suc_right)
    moreover have "?s * (i + k) = ?s * i + ?s * k" by (rule distrib_left)
    ultimately have big: "?F + ?s * (?n - 1) < ?F + ?s * i + ?s * k"
      using s by linarith
    have sk: "?s * k < 2 ^ 32" by (rule mult_less_geom[OF g k])
    have "?A > LastBdAddr R \<or> bd_addr R i > ?A"
    proof (cases "?F + ?s * i + ?s * k < 2 ^ 32")
      case True
      then have "unat (bd_addr R i) + unat (Separation R * of_nat k) < 2 ^ 32"
        by (simp only: ui uk)
      then have "unat ?A = ?F + ?s * i + ?s * k" by (simp only: unat_add_no_overflow ui uk)
      then show ?thesis using big uL by (simp add: word_less_nat_alt)
    next
      case False
      have "unat ?A = (?F + ?s * i + ?s * k) mod 2 ^ 32" by (simp only: unat_add32 ui uk)
      also have "\<dots> = ?F + ?s * i + ?s * k - 2 ^ 32"
        using False sk ui unat_lt32[of "bd_addr R i"] by (simp add: mod_if)
      finally have "unat ?A < unat (bd_addr R i)" using ui sk False by simp
      then show ?thesis by (simp add: word_less_nat_alt)
    qed
    then show ?thesis using length_sub[OF g, of "i + k"] False md
      by (simp add: Dma_mRingSeekahead_def Let_def A)
  qed
qed

lemma seekback_bd_addr:
  assumes g: "geom R" and i: "i < ring_n R" and k: "k \<le> ring_n R"
  shows "Dma_mRingSeekback R (bd_addr R i) (of_nat k) = bd_addr R ((i + (ring_n R - k)) mod ring_n R)"
proof -
  let ?n = "ring_n R" and ?s = "unat (Separation R)" and ?F = "unat (FirstBdAddr R)"
  let ?A = "bd_addr R i - Separation R * of_nat k"
  have ui: "unat (bd_addr R i) = ?F + ?s * i" by (rule unat_bd_addr[OF g i])
  have uk: "unat (Separation R * of_nat k) = ?s * k" by (rule unat_sep_mult[OF g k])
  show ?thesis
  proof (cases "k \<le> i")
    case True
    then have "?A = bd_addr R (i - k)" by (simp add: bd_addr_def of_nat_diff algebra_simps)
    moreover from this have "\<not> ?A < FirstBdAddr R" "\<not> bd_addr R i < ?A"
      using bd_addr_le_iff[of R 0 "i - k"] bd_addr_le_iff[of R "i - k" i] g i geom_n_pos[OF g]
      by (simp_all add: not_less)
    moreover have "(i + (?n - k)) mod ?n = i - k"
    proof -
      have "i + (?n - k) = (i - k) + ?n" using True k by simp
      then show ?thesis using i True by (simp only: mod_add_self2) simp
    qed
    ultimately show ?thesis by (simp add: Dma_mRingSeekback_def Let_def)
  next
    case False
    have md: "(i + (?n - k)) mod ?n = i + (?n - k)" using False i k by simp
    have lt: "?s * i < ?s * k" using False g by (simp add: geom_def)
    have "?A < FirstBdAddr R \<or> bd_addr R i < ?A"
    proof (cases "?s * k \<le> ?F + ?s * i")
      case True
      then have "unat ?A = ?F + ?s * i - ?s * k" using ui uk by (simp add: unat_sub_if_size)
      then have "unat ?A < ?F" using lt True by linarith
      then show ?thesis by (simp add: word_less_nat_alt)
    next
      case False
      then have "unat ?A = ?F + ?s * i + 2 ^ 32 - ?s * k"
        using ui uk by (simp add: unat_sub_if_size word_size)
      then have "unat (bd_addr R i) < unat ?A" using mult_less_geom[OF g k] ui by simp
      then show ?thesis by (simp add: word_less_nat_alt)
    qed
    moreover have "?A + Length R = bd_addr R (i + (?n - k))"
      using g k by (simp add: bd_addr_def geom_def AllCnt_eq of_nat_diff algebra_simps)
    ultimately show ?thesis using md by (simp add: Dma_mRingSeekback_def Let_def)
  qed
qed

end
