(* ===== verification/BdRingOps.thy ===== *)
theory BdRingOps
  imports BdRing
begin

text \<open>
  The operations of \<open>fc1553_dma/xdma/xdma_bdring.c\<close>, one definition per function (loops as
  separate recursive functions). A function that takes \<open>Dma_BdRing *\<close> returns the updated
  control block; an output parameter \<open>Dma_Bd **\<close> is returned as an option (\<open>None\<close>: not
  written); the descriptor memory and the register accesses go through the machine state.
\<close>

section \<open>Creation\<close>

text \<open>The loop that links each descriptor to the physical address of the next one.\<close>

fun create_links :: "nat \<Rightarrow> u32 \<Rightarrow> u32 \<Rightarrow> u32 \<Rightarrow> mach \<Rightarrow> u32 \<times> mach" where
  "create_links 0 sep BdVirtAddr BdPhysAddr m = (BdVirtAddr, m)"
| "create_links (Suc k) sep BdVirtAddr BdPhysAddr m =
     create_links k sep (BdVirtAddr + sep) (BdPhysAddr + sep)
       (Dma_mBdWrite BdVirtAddr DMA_BD_NDESC_OFFSET BdPhysAddr m)"

definition ring_clear_counts :: "Dma_BdRing \<Rightarrow> Dma_BdRing" where
  "ring_clear_counts R = R\<lparr>AllCnt := 0, FreeCnt := 0, HwCnt := 0, PreCnt := 0, PostCnt := 0,
     BDerrs := 0, BDSerrs := 0\<rparr>"

definition Dma_BdRingCreate ::
  "Dma_BdRing \<Rightarrow> u32 \<Rightarrow> u32 \<Rightarrow> u32 \<Rightarrow> u32 \<Rightarrow> mach \<Rightarrow> int \<times> Dma_BdRing \<times> mach" where
  "Dma_BdRingCreate R PhysAddr VirtAddr Alignment BdCount m =
     (let R = ring_clear_counts R in
      if Alignment < DMA_BD_MINIMUM_ALIGNMENT then (XST_INVALID_PARAM, R, m)
      else if (Alignment - 1) AND Alignment \<noteq> 0 then (XST_INVALID_PARAM, R, m)
      else if PhysAddr mod Alignment \<noteq> 0 \<or> VirtAddr mod Alignment \<noteq> 0
      then (XST_INVALID_PARAM, R, m)
      else if BdCount = 0 then (XST_INVALID_PARAM, R, m)
      else
        let R = R\<lparr>Separation := (4 * DMA_BD_SW_NUM_WORDS + (Alignment - 1)) AND NOT (Alignment - 1)\<rparr> in
        if VirtAddr > VirtAddr + Separation R * BdCount - 1 then (XST_DMA_SG_LIST_ERROR, R, m)
        else
          let m = mem_clear VirtAddr (Separation R * BdCount) m;
              (BdVirtAddr, m) =
                create_links (unat BdCount - 1) (Separation R) VirtAddr (PhysAddr + Separation R) m;
              m = Dma_mBdWrite BdVirtAddr DMA_BD_NDESC_OFFSET PhysAddr m;
              R = R\<lparr>RunState := XST_DMA_SG_IS_STOPPED, FirstBdAddr := VirtAddr,
                    FirstBdPhysAddr := PhysAddr, LastBdAddr := BdVirtAddr,
                    Length := BdVirtAddr - VirtAddr + Separation R,
                    AllCnt := BdCount, FreeCnt := BdCount, FreeHead := VirtAddr,
                    PreHead := VirtAddr, HwHead := VirtAddr, HwTail := VirtAddr,
                    PostHead := VirtAddr, BdaRestart := PhysAddr\<rparr>
          in (XST_SUCCESS, R, m))"

section \<open>Starting the channel\<close>

definition Dma_BdRingStart :: "Dma_BdRing \<Rightarrow> mach \<Rightarrow> int \<times> Dma_BdRing \<times> mach" where
  "Dma_BdRingStart R m =
     (if AllCnt R = 0 then (XST_DMA_SG_NO_LIST, R, m)
      else if RunState R = XST_DMA_SG_IS_STARTED then (XST_SUCCESS, R, m)
      else
        let R = R\<lparr>RunState := XST_DMA_SG_IS_STARTED\<rparr>;
            m = Dma_mWriteReg (ChanBase R) REG_DMA_ENG_NEXT_BD (BdaRestart R) m;
            m = Dma_mWriteReg (ChanBase R) REG_SW_NEXT_BD (BdaRestart R) m;
            m = wmb m;
            m = Dma_mEnable (ChanBase R) m;
            m = wmb m;
            m = (if HwCnt R > 0
                 then Dma_mWriteReg (ChanBase R) REG_SW_NEXT_BD (Dma_mVirtToPhys R (HwTail R)) m
                 else m);
            m = (if IsRxChannel R \<noteq> 0 then snd (Dma_mReadReg (ChanBase R) 0x18 m) else m)
        in (XST_SUCCESS, R, m))"

section \<open>Moving descriptors between the groups\<close>

definition Dma_BdRingAlloc :: "Dma_BdRing \<Rightarrow> u32 \<Rightarrow> int \<times> Dma_BdRing \<times> u32 option" where
  "Dma_BdRingAlloc R NumBd =
     (if FreeCnt R < NumBd then (XST_FAILURE, R, None)
      else
        let BdSetPtr = FreeHead R;
            R = R\<lparr>FreeHead := Dma_mRingSeekahead R (FreeHead R) NumBd\<rparr>;
            R = R\<lparr>FreeCnt := FreeCnt R - NumBd, PreCnt := PreCnt R + NumBd\<rparr>
        in (XST_SUCCESS, R, Some BdSetPtr))"

definition Dma_BdRingUnAlloc :: "Dma_BdRing \<Rightarrow> u32 \<Rightarrow> u32 \<Rightarrow> int \<times> Dma_BdRing" where
  "Dma_BdRingUnAlloc R NumBd BdSetPtr =
     (if PreCnt R < NumBd then (XST_FAILURE, R)
      else
        let R = R\<lparr>FreeHead := Dma_mRingSeekback R (FreeHead R) NumBd\<rparr>;
            R = R\<lparr>FreeCnt := FreeCnt R + NumBd, PreCnt := PreCnt R - NumBd\<rparr>
        in (XST_SUCCESS, R))"

text \<open>
  The submission loop: \<open>k\<close> descriptors to go, \<open>i\<close> done. It stops at a descriptor whose length
  field is zero, and hands back the control word read last.
\<close>

fun tohw_loop :: "Dma_BdRing \<Rightarrow> nat \<Rightarrow> nat \<Rightarrow> u32 \<Rightarrow> u32 \<Rightarrow> mach \<Rightarrow> nat \<times> u32 \<times> u32 \<times> mach" where
  "tohw_loop R 0 i CurBdPtr BdStsCr m = (i, CurBdPtr, BdStsCr, m)"
| "tohw_loop R (Suc k) i CurBdPtr BdStsCr m =
     (let BdStsCr = Dma_mBdRead CurBdPtr DMA_BD_BUFL_CTRL_OFFSET m in
      if BdStsCr AND DMA_BD_BUFL_MASK = 0 then (i, CurBdPtr, BdStsCr, m)
      else tohw_loop R k (Suc i) (Dma_mBdRingNext R CurBdPtr) BdStsCr (Dma_mBdSetStatus CurBdPtr 0 m))"

definition Dma_BdRingToHw :: "Dma_BdRing \<Rightarrow> u32 \<Rightarrow> u32 \<Rightarrow> mach \<Rightarrow> int \<times> Dma_BdRing \<times> mach" where
  "Dma_BdRingToHw R NumBd BdSetPtr m =
     (if NumBd = 0 then (XST_SUCCESS, R, m)
      else if PreCnt R < NumBd \<or> PreHead R \<noteq> BdSetPtr then (XST_DMA_SG_LIST_ERROR, R, m)
      else
        let CurBdPtr = BdSetPtr;
            BdStsCr = Dma_mBdRead CurBdPtr DMA_BD_BUFL_CTRL_OFFSET m
        in if IsRxChannel R = 0 \<and> BdStsCr AND DMA_BD_SOP_MASK = 0 then (XST_FAILURE, R, m)
        else
          let (i, CurBdPtr, BdStsCr, m) = tohw_loop R (unat NumBd) 0 CurBdPtr BdStsCr m
          in if i \<noteq> unat NumBd then (XST_FAILURE, R, m)
          else
            let R = R\<lparr>PreHead := Dma_mRingSeekahead R (PreHead R) NumBd\<rparr>;
                R = R\<lparr>PreCnt := PreCnt R - NumBd, HwTail := CurBdPtr, HwCnt := HwCnt R + NumBd\<rparr>;
                m = (if RunState R = XST_DMA_SG_IS_STARTED
                     then Dma_mWriteReg (ChanBase R) REG_SW_NEXT_BD (Dma_mVirtToPhys R (HwTail R)) (wmb m)
                     else m)
            in (XST_SUCCESS, R, m))"

text \<open>
  An RX end-of-packet descriptor whose status promises non-zero user words that have not
  arrived yet is not complete.
\<close>

definition rx_user_pending :: "Dma_BdRing \<Rightarrow> u32 \<Rightarrow> u64 \<Rightarrow> bool" where
  "rx_user_pending R BdStsCr userInfo \<longleftrightarrow>
     IsRxChannel R \<noteq> 0 \<and> BdStsCr AND DMA_BD_EOP_MASK \<noteq> 0 \<and>
     ((BdStsCr AND DMA_BD_USER_HIGH_ZERO_MASK = 0 \<and> userInfo AND 0xFFFFFFFF00000000 = 0) \<or>
      (BdStsCr AND DMA_BD_USER_LOW_ZERO_MASK = 0 \<and> userInfo AND 0xFFFFFFFF = 0))"

text \<open>A completed descriptor that ends a packet, or had an error.\<close>

definition bd_ends_packet :: "Dma_BdRing \<Rightarrow> u32 \<Rightarrow> u32 \<Rightarrow> bool" where
  "bd_ends_packet R BdStsCr BdCtrl \<longleftrightarrow>
     (IsRxChannel R \<noteq> 0 \<and> BdStsCr AND DMA_BD_EOP_MASK \<noteq> 0) \<or>
     (IsRxChannel R = 0 \<and> BdCtrl AND DMA_BD_EOP_MASK \<noteq> 0) \<or>
     BdStsCr AND DMA_BD_ERROR_MASK \<noteq> 0"

definition count_bd_errors :: "Dma_BdRing \<Rightarrow> u32 \<Rightarrow> Dma_BdRing" where
  "count_bd_errors R BdStsCr =
     (let R = (if BdStsCr AND DMA_BD_ERROR_MASK \<noteq> 0 then R\<lparr>BDerrs := BDerrs R + 1\<rparr> else R)
      in if IsRxChannel R = 0 \<and> BdStsCr AND DMA_BD_SHORT_MASK \<noteq> 0
         then R\<lparr>BDSerrs := BDSerrs R + 1\<rparr> else R)"

text \<open>The first argument counts down what is left of \<open>BdLimit - BdCount\<close>.\<close>

fun fromhw_loop :: "nat \<Rightarrow> Dma_BdRing \<Rightarrow> u32 \<Rightarrow> u32 \<Rightarrow> u32 \<Rightarrow> mach \<Rightarrow> Dma_BdRing \<times> u32 \<times> u32" where
  "fromhw_loop 0 R CurBdPtr BdCount BdPartialCount m = (R, BdCount, BdPartialCount)"
| "fromhw_loop (Suc k) R CurBdPtr BdCount BdPartialCount m =
     (let BdStsCr = Dma_mBdGetStatus CurBdPtr m;
          BdCtrl = Dma_mBdGetCtrl CurBdPtr m;
          userInfo = Dma_mBdGetUserData CurBdPtr m;
          R = count_bd_errors R BdStsCr
      in if BdStsCr AND DMA_BD_COMP_MASK = 0 then (R, BdCount, BdPartialCount)
         else if rx_user_pending R BdStsCr userInfo then (R, BdCount, BdPartialCount)
         else
           let BdCount = BdCount + 1;
               BdPartialCount = (if bd_ends_packet R BdStsCr BdCtrl then 0 else BdPartialCount + 1);
               CurBdPtr = Dma_mBdRingNext R CurBdPtr
           in if CurBdPtr = HwTail R then (R, BdCount, BdPartialCount)
              else fromhw_loop k R CurBdPtr BdCount BdPartialCount m)"

text \<open>The result: the count, the ring, and what is stored through \<open>BdSetPtr\<close> (0 is \<open>NULL\<close>).\<close>

definition Dma_BdRingFromHw :: "Dma_BdRing \<Rightarrow> u32 \<Rightarrow> mach \<Rightarrow> u32 \<times> Dma_BdRing \<times> u32" where
  "Dma_BdRingFromHw R BdLimit m =
     (if HwCnt R = 0 then (0, R, 0)
      else
        let (R, BdCount, BdPartialCount) = fromhw_loop (unat BdLimit) R (HwHead R) 0 0 m;
            BdCount = BdCount - BdPartialCount
        in if BdCount \<noteq> 0
           then let BdSetPtr = HwHead R;
                    R = R\<lparr>HwCnt := HwCnt R - BdCount, PostCnt := PostCnt R + BdCount\<rparr>;
                    R = R\<lparr>HwHead := Dma_mRingSeekahead R (HwHead R) BdCount\<rparr>
                in (BdCount, R, BdSetPtr)
           else (0, R, 0))"

fun force_loop :: "nat \<Rightarrow> Dma_BdRing \<Rightarrow> u32 \<Rightarrow> u32 \<Rightarrow> u32" where
  "force_loop 0 R CurBdPtr BdCount = BdCount"
| "force_loop (Suc k) R CurBdPtr BdCount =
     (let BdCount = BdCount + 1;
          CurBdPtr = Dma_mBdRingNext R CurBdPtr
      in if CurBdPtr = HwTail R then BdCount else force_loop k R CurBdPtr BdCount)"

definition Dma_BdRingForceFromHw :: "Dma_BdRing \<Rightarrow> u32 \<Rightarrow> u32 \<times> Dma_BdRing \<times> u32" where
  "Dma_BdRingForceFromHw R BdLimit =
     (if HwCnt R = 0 then (0, R, 0)
      else
        let BdCount = force_loop (unat BdLimit) R (HwHead R) 0
        in if BdCount \<noteq> 0
           then let BdSetPtr = HwHead R;
                    R = R\<lparr>HwCnt := HwCnt R - BdCount, PostCnt := PostCnt R + BdCount\<rparr>;
                    R = R\<lparr>HwHead := Dma_mRingSeekahead R (HwHead R) BdCount\<rparr>
                in (BdCount, R, BdSetPtr)
           else (0, R, 0))"

fun free_loop :: "Dma_BdRing \<Rightarrow> nat \<Rightarrow> u32 \<Rightarrow> mach \<Rightarrow> mach" where
  "free_loop R 0 CurBdPtr m = m"
| "free_loop R (Suc k) CurBdPtr m =
     free_loop R k (Dma_mBdRingNext R CurBdPtr)
       (Dma_mBdWrite CurBdPtr DMA_BD_BUFL_CTRL_OFFSET 0
         (Dma_mBdWrite CurBdPtr DMA_BD_BUFL_STATUS_OFFSET 0 m))"

definition Dma_BdRingFree :: "Dma_BdRing \<Rightarrow> u32 \<Rightarrow> u32 \<Rightarrow> mach \<Rightarrow> int \<times> Dma_BdRing \<times> mach" where
  "Dma_BdRingFree R NumBd BdSetPtr m =
     (if NumBd = 0 then (XST_SUCCESS, R, m)
      else if PostCnt R < NumBd \<or> PostHead R \<noteq> BdSetPtr then (XST_DMA_SG_LIST_ERROR, R, m)
      else
        let m = free_loop R (unat NumBd) BdSetPtr m;
            R = R\<lparr>FreeCnt := FreeCnt R + NumBd, PostCnt := PostCnt R - NumBd\<rparr>;
            R = R\<lparr>PostHead := Dma_mRingSeekahead R (PostHead R) NumBd\<rparr>
        in (XST_SUCCESS, R, m))"

section \<open>Consistency check\<close>

definition outside_ring :: "Dma_BdRing \<Rightarrow> u32 \<Rightarrow> bool" where
  "outside_ring R AddrV \<longleftrightarrow> AddrV < FirstBdAddr R \<or> AddrV > LastBdAddr R"

text \<open>The link walk: \<open>None\<close> at the first wrong link, else the address of the last descriptor.\<close>

fun check_links :: "nat \<Rightarrow> Dma_BdRing \<Rightarrow> u32 \<Rightarrow> u32 \<Rightarrow> mach \<Rightarrow> u32 option" where
  "check_links 0 R AddrV AddrP m = Some AddrV"
| "check_links (Suc k) R AddrV AddrP m =
     (if Dma_mBdRead AddrV DMA_BD_NDESC_OFFSET m \<noteq> AddrP then None
      else check_links k R (AddrV + Separation R) (AddrP + Separation R) m)"

definition Dma_BdRingCheck :: "Dma_BdRing \<Rightarrow> mach \<Rightarrow> int" where
  "Dma_BdRingCheck R m =
     (if AllCnt R = 0 then XST_DMA_SG_NO_LIST
      else if RunState R = XST_DMA_SG_IS_STARTED then XST_IS_STARTED
      else if RunState R \<noteq> XST_DMA_SG_IS_STOPPED then XST_DMA_SG_LIST_ERROR
      else if outside_ring R (FreeHead R) then XST_DMA_SG_LIST_ERROR
      else if outside_ring R (PreHead R) then XST_DMA_SG_LIST_ERROR
      else if outside_ring R (HwHead R) then XST_DMA_SG_LIST_ERROR
      else if outside_ring R (HwTail R) then XST_DMA_SG_LIST_ERROR
      else if outside_ring R (PostHead R) then XST_DMA_SG_LIST_ERROR
      else if HwCnt R + PreCnt R + FreeCnt R + PostCnt R \<noteq> AllCnt R then XST_DMA_SG_LIST_ERROR
      else
        (case check_links (unat (AllCnt R) - 1) R (FirstBdAddr R)
                (FirstBdPhysAddr R + Separation R) m of
           None \<Rightarrow> XST_DMA_SG_LIST_ERROR
         | Some AddrV \<Rightarrow>
             if Dma_mBdRead AddrV DMA_BD_NDESC_OFFSET m \<noteq> FirstBdPhysAddr R
             then XST_DMA_SG_LIST_ERROR else XST_SUCCESS))"

section \<open>Alignment of the allocated space\<close>

text \<open>
  Returns the number of descriptors and the new value of \<open>*Delta\<close>, which keeps its old value
  when no realignment is needed. \<open>bytealign\<close> is a C \<open>int\<close> used in unsigned arithmetic.
\<close>

definition Dma_BdRingAlign :: "u32 \<Rightarrow> u32 \<Rightarrow> u32 \<Rightarrow> u32 \<Rightarrow> u32 \<times> u32" where
  "Dma_BdRingAlign AllocPtr Sz Align Delta =
     (if AllocPtr = 0 \<or> Sz = 0 \<or> Sz < Align then (0, 0)
      else
        let bytealign = 4 * DMA_BD_SW_NUM_WORDS;
            numbds = Sz div bytealign
        in if AllocPtr mod bytealign \<noteq> 0
           then let i = bytealign - (AllocPtr AND 0xFF);
                    Sz = Sz - i;
                    Delta = i;
                    numbds = Sz div bytealign
                in (numbds, Delta)
           else (numbds, Delta))"


section \<open>Evaluation on concrete rings\<close>

lemma loop_numeral [simp]:
  "tohw_loop R (numeral n) = tohw_loop R (Suc (pred_numeral n))"
  "fromhw_loop (numeral n) = fromhw_loop (Suc (pred_numeral n))"
  "force_loop (numeral n) = force_loop (Suc (pred_numeral n))"
  "free_loop R (numeral n) = free_loop R (Suc (pred_numeral n))"
  "create_links (numeral n) = create_links (Suc (pred_numeral n))"
  "check_links (numeral n) = check_links (Suc (pred_numeral n))"
  by (simp_all add: numeral_eq_Suc)

lemmas ring_eval = Dma_BdRingAlloc_def Dma_BdRingUnAlloc_def Dma_BdRingToHw_def Dma_BdRingFromHw_def
  Dma_BdRingForceFromHw_def Dma_BdRingFree_def Dma_mRingSeekahead_def Dma_mRingSeekback_def
  Dma_mBdRingNext_def Dma_mBdRead_def Dma_mBdSetStatus_def bd_get_defs count_bd_errors_def
  rx_user_pending_def bd_ends_packet_def Let_def

end
