(* ===== verification/RingSpec.thy ===== *)
theory RingSpec
  imports Prelude
begin

text \<open>
  The abstract contract of a descriptor ring, independent of addresses: four queues of
  descriptors (free, prepared, owned by the hardware, completed) through which descriptors
  travel in a fixed order. The locale \<open>bd_pipeline\<close> states what a provider promises; its
  lemmas are what a client of the ring may rely on.
\<close>

record 'b groups =
  gpost :: "'b list"
  ghw :: "'b list"
  gpre :: "'b list"
  gfree :: "'b list"

definition all_bds :: "'b groups \<Rightarrow> 'b list" where
  "all_bds g = gpost g @ ghw g @ gpre g @ gfree g"

section \<open>Abstract operations\<close>

definition spec_alloc :: "nat \<Rightarrow> 'b groups \<Rightarrow> 'b groups" where
  "spec_alloc k g = g\<lparr>gpre := gpre g @ take k (gfree g), gfree := drop k (gfree g)\<rparr>"

definition spec_unalloc :: "nat \<Rightarrow> 'b groups \<Rightarrow> 'b groups" where
  "spec_unalloc k g =
     (let r = length (gpre g) - k
      in g\<lparr>gfree := drop r (gpre g) @ gfree g, gpre := take r (gpre g)\<rparr>)"

definition spec_tohw :: "nat \<Rightarrow> 'b groups \<Rightarrow> 'b groups" where
  "spec_tohw k g = g\<lparr>ghw := ghw g @ take k (gpre g), gpre := drop k (gpre g)\<rparr>"

definition spec_fromhw :: "nat \<Rightarrow> 'b groups \<Rightarrow> 'b groups" where
  "spec_fromhw k g = g\<lparr>gpost := gpost g @ take k (ghw g), ghw := drop k (ghw g)\<rparr>"

definition spec_free :: "nat \<Rightarrow> 'b groups \<Rightarrow> 'b groups" where
  "spec_free k g = g\<lparr>gfree := gfree g @ take k (gpost g), gpost := drop k (gpost g)\<rparr>"

lemmas spec_defs = spec_alloc_def spec_unalloc_def spec_tohw_def spec_fromhw_def spec_free_def

text \<open>Alloc, submit and complete do not even reorder the ring; freeing rotates it.\<close>

lemma all_bds_spec:
  "all_bds (spec_alloc k g) = all_bds g"
  "all_bds (spec_unalloc k g) = all_bds g"
  "all_bds (spec_tohw k g) = all_bds g"
  "all_bds (spec_fromhw k g) = all_bds g"
  by (simp_all add: all_bds_def spec_defs Let_def flip: append_assoc append_take_drop_id)
    (simp_all add: append_assoc)

lemma all_bds_free:
  "k \<le> length (gpost g) \<Longrightarrow> all_bds (spec_free k g) = rotate k (all_bds g)"
  using rotate_append[of "take k (gpost g)" "drop k (gpost g) @ ghw g @ gpre g @ gfree g"]
  by (simp add: all_bds_def spec_defs flip: append_assoc)

lemma spec_unalloc_alloc:
  "k \<le> length (gfree g) \<Longrightarrow> spec_unalloc k (spec_alloc k g) = g"
  by (simp add: spec_defs Let_def)

text \<open>
  Submitting \<open>k\<close> descriptors that were just allocated onto an empty prepared queue hands
  exactly the first \<open>k\<close> free ones to the hardware.
\<close>

lemma spec_submit:
  "gpre g = [] \<Longrightarrow> k \<le> length (gfree g) \<Longrightarrow>
     spec_tohw k (spec_alloc k g) = g\<lparr>ghw := ghw g @ take k (gfree g), gfree := drop k (gfree g)\<rparr>"
  by (simp add: spec_defs)

section \<open>The interface\<close>

datatype ring_op = Alloc nat | UnAlloc nat | ToHw nat | FromHw nat | Free nat

fun spec_step :: "ring_op \<Rightarrow> 'b groups \<Rightarrow> 'b groups" where
  "spec_step (Alloc k) g = spec_alloc k g"
| "spec_step (UnAlloc k) g = spec_unalloc k g"
| "spec_step (ToHw k) g = spec_tohw k g"
| "spec_step (FromHw k) g = spec_fromhw k g"
| "spec_step (Free k) g = spec_free k g"

text \<open>When the queue an operation takes from is long enough.\<close>

fun spec_enabled :: "ring_op \<Rightarrow> 'b groups \<Rightarrow> bool" where
  "spec_enabled (Alloc k) g \<longleftrightarrow> k \<le> length (gfree g)"
| "spec_enabled (UnAlloc k) g \<longleftrightarrow> k \<le> length (gpre g)"
| "spec_enabled (ToHw k) g \<longleftrightarrow> k \<le> length (gpre g)"
| "spec_enabled (FromHw k) g \<longleftrightarrow> k \<le> length (ghw g)"
| "spec_enabled (Free k) g \<longleftrightarrow> k \<le> length (gpost g)"

text \<open>A sequence of steps, refused as soon as one of them is.\<close>

fun run_ops :: "('a \<Rightarrow> 's \<Rightarrow> 's option) \<Rightarrow> 'a list \<Rightarrow> 's \<Rightarrow> 's option" where
  "run_ops step [] s = Some s"
| "run_ops step (a # as) s = (case step a s of None \<Rightarrow> None | Some s' \<Rightarrow> run_ops step as s')"

text \<open>
  A provider has states \<open>'s\<close>, an invariant, a view of a state as four queues, and a step that
  may refuse. An accepted step keeps the invariant and is the abstract step on the view.
\<close>

locale bd_pipeline =
  fixes inv :: "'s \<Rightarrow> bool"
    and view :: "'s \<Rightarrow> 'b groups"
    and step :: "ring_op \<Rightarrow> 's \<Rightarrow> 's option"
  assumes distinct_view: "inv s \<Longrightarrow> distinct (all_bds (view s))"
    and step_inv: "inv s \<Longrightarrow> step a s = Some s' \<Longrightarrow> inv s'"
    and step_view: "inv s \<Longrightarrow> step a s = Some s' \<Longrightarrow> view s' = spec_step a (view s)"
    and step_enabled: "inv s \<Longrightarrow> step a s = Some s' \<Longrightarrow> spec_enabled a (view s)"
begin

lemma step_bds: "inv s \<Longrightarrow> step a s = Some s' \<Longrightarrow> \<exists>k. all_bds (view s') = rotate k (all_bds (view s))"
proof -
  assume s: "inv s" "step a s = Some s'"
  note v = step_view[OF s] and e = step_enabled[OF s]
  show ?thesis
  proof (cases a)
    case (Free k)
    then show ?thesis using v e by (auto simp: all_bds_free intro: exI[of _ k])
  qed (use v in \<open>auto simp: all_bds_spec intro: exI[of _ 0]\<close>)
qed

lemma run_inv: "inv s \<Longrightarrow> run_ops step as s = Some s' \<Longrightarrow> inv s'"
  by (induction as arbitrary: s) (auto split: option.splits dest: step_inv)

text \<open>No sequence of operations loses, duplicates or reorders descriptors around the ring.\<close>

lemma run_rotates:
  "inv s \<Longrightarrow> run_ops step as s = Some s' \<Longrightarrow> \<exists>k. all_bds (view s') = rotate k (all_bds (view s))"
proof (induction as arbitrary: s)
  case Nil
  then show ?case by (auto intro: exI[of _ 0])
next
  case (Cons a as)
  then obtain t where t: "step a s = Some t" "run_ops step as t = Some s'" by (auto split: option.splits)
  from step_bds[OF Cons.prems(1) t(1)] obtain j where "all_bds (view t) = rotate j (all_bds (view s))" by blast
  moreover from Cons.IH[OF step_inv[OF Cons.prems(1) t(1)] t(2)]
  obtain k where "all_bds (view s') = rotate k (all_bds (view t))" by blast
  ultimately show ?case by (auto simp: rotate_rotate)
qed

lemma run_same_bds:
  assumes "inv s" "run_ops step as s = Some s'"
  shows "set (all_bds (view s')) = set (all_bds (view s)) \<and>
    length (all_bds (view s')) = length (all_bds (view s)) \<and> distinct (all_bds (view s'))"
proof -
  obtain k where "all_bds (view s') = rotate k (all_bds (view s))"
    using run_rotates[OF assms] by blast
  then show ?thesis using distinct_view[OF assms(1)] by simp
qed

end

end
