(* ===== verification/BdRingInv.thy ===== *)
theory BdRingInv
  imports BdRingOps RingSpec
begin

text \<open>
  The invariant of the descriptor ring, its abstraction to four queues of descriptor indices,
  and the proof that every operation of \<open>BdRingOps\<close> keeps the former and implements the
  corresponding operation of \<open>RingSpec\<close>.
\<close>

section \<open>Frame: group pointers and counts do not affect the geometry\<close>

lemma bd_addr_upd [simp]:
  "bd_addr (R\<lparr>RunState := x\<rparr>) = bd_addr R"
  "bd_addr (R\<lparr>FreeHead := x\<rparr>) = bd_addr R"
  "bd_addr (R\<lparr>PreHead := x\<rparr>) = bd_addr R"
  "bd_addr (R\<lparr>HwHead := x\<rparr>) = bd_addr R"
  "bd_addr (R\<lparr>HwTail := x\<rparr>) = bd_addr R"
  "bd_addr (R\<lparr>PostHead := x\<rparr>) = bd_addr R"
  "bd_addr (R\<lparr>BdaRestart := x\<rparr>) = bd_addr R"
  "bd_addr (R\<lparr>FreeCnt := x\<rparr>) = bd_addr R"
  "bd_addr (R\<lparr>PreCnt := x\<rparr>) = bd_addr R"
  "bd_addr (R\<lparr>HwCnt := x\<rparr>) = bd_addr R"
  "bd_addr (R\<lparr>PostCnt := x\<rparr>) = bd_addr R"
  "bd_addr (R\<lparr>BDerrs := x\<rparr>) = bd_addr R"
  "bd_addr (R\<lparr>BDSerrs := x\<rparr>) = bd_addr R"
  by (simp_all add: fun_eq_iff bd_addr_def)

lemma ring_n_upd [simp]:
  "ring_n (R\<lparr>RunState := x\<rparr>) = ring_n R"
  "ring_n (R\<lparr>FreeHead := x\<rparr>) = ring_n R"
  "ring_n (R\<lparr>PreHead := x\<rparr>) = ring_n R"
  "ring_n (R\<lparr>HwHead := x\<rparr>) = ring_n R"
  "ring_n (R\<lparr>HwTail := x\<rparr>) = ring_n R"
  "ring_n (R\<lparr>PostHead := x\<rparr>) = ring_n R"
  "ring_n (R\<lparr>BdaRestart := x\<rparr>) = ring_n R"
  "ring_n (R\<lparr>FreeCnt := x\<rparr>) = ring_n R"
  "ring_n (R\<lparr>PreCnt := x\<rparr>) = ring_n R"
  "ring_n (R\<lparr>HwCnt := x\<rparr>) = ring_n R"
  "ring_n (R\<lparr>PostCnt := x\<rparr>) = ring_n R"
  "ring_n (R\<lparr>BDerrs := x\<rparr>) = ring_n R"
  "ring_n (R\<lparr>BDSerrs := x\<rparr>) = ring_n R"
  by (simp_all add: fun_eq_iff ring_n_def)

lemma geom_upd [simp]:
  "geom (R\<lparr>RunState := x\<rparr>) = geom R"
  "geom (R\<lparr>FreeHead := x\<rparr>) = geom R"
  "geom (R\<lparr>PreHead := x\<rparr>) = geom R"
  "geom (R\<lparr>HwHead := x\<rparr>) = geom R"
  "geom (R\<lparr>HwTail := x\<rparr>) = geom R"
  "geom (R\<lparr>PostHead := x\<rparr>) = geom R"
  "geom (R\<lparr>BdaRestart := x\<rparr>) = geom R"
  "geom (R\<lparr>FreeCnt := x\<rparr>) = geom R"
  "geom (R\<lparr>PreCnt := x\<rparr>) = geom R"
  "geom (R\<lparr>HwCnt := x\<rparr>) = geom R"
  "geom (R\<lparr>PostCnt := x\<rparr>) = geom R"
  "geom (R\<lparr>BDerrs := x\<rparr>) = geom R"
  "geom (R\<lparr>BDSerrs := x\<rparr>) = geom R"
  by (simp_all add: fun_eq_iff geom_def ring_n_def Let_def)

lemma Dma_mBdRingNext_upd [simp]:
  "Dma_mBdRingNext (R\<lparr>RunState := x\<rparr>) = Dma_mBdRingNext R"
  "Dma_mBdRingNext (R\<lparr>FreeHead := x\<rparr>) = Dma_mBdRingNext R"
  "Dma_mBdRingNext (R\<lparr>PreHead := x\<rparr>) = Dma_mBdRingNext R"
  "Dma_mBdRingNext (R\<lparr>HwHead := x\<rparr>) = Dma_mBdRingNext R"
  "Dma_mBdRingNext (R\<lparr>HwTail := x\<rparr>) = Dma_mBdRingNext R"
  "Dma_mBdRingNext (R\<lparr>PostHead := x\<rparr>) = Dma_mBdRingNext R"
  "Dma_mBdRingNext (R\<lparr>BdaRestart := x\<rparr>) = Dma_mBdRingNext R"
  "Dma_mBdRingNext (R\<lparr>FreeCnt := x\<rparr>) = Dma_mBdRingNext R"
  "Dma_mBdRingNext (R\<lparr>PreCnt := x\<rparr>) = Dma_mBdRingNext R"
  "Dma_mBdRingNext (R\<lparr>HwCnt := x\<rparr>) = Dma_mBdRingNext R"
  "Dma_mBdRingNext (R\<lparr>PostCnt := x\<rparr>) = Dma_mBdRingNext R"
  "Dma_mBdRingNext (R\<lparr>BDerrs := x\<rparr>) = Dma_mBdRingNext R"
  "Dma_mBdRingNext (R\<lparr>BDSerrs := x\<rparr>) = Dma_mBdRingNext R"
  by (simp_all add: fun_eq_iff Dma_mBdRingNext_def)

lemma Dma_mRingSeekahead_upd [simp]:
  "Dma_mRingSeekahead (R\<lparr>RunState := x\<rparr>) = Dma_mRingSeekahead R"
  "Dma_mRingSeekahead (R\<lparr>FreeHead := x\<rparr>) = Dma_mRingSeekahead R"
  "Dma_mRingSeekahead (R\<lparr>PreHead := x\<rparr>) = Dma_mRingSeekahead R"
  "Dma_mRingSeekahead (R\<lparr>HwHead := x\<rparr>) = Dma_mRingSeekahead R"
  "Dma_mRingSeekahead (R\<lparr>HwTail := x\<rparr>) = Dma_mRingSeekahead R"
  "Dma_mRingSeekahead (R\<lparr>PostHead := x\<rparr>) = Dma_mRingSeekahead R"
  "Dma_mRingSeekahead (R\<lparr>BdaRestart := x\<rparr>) = Dma_mRingSeekahead R"
  "Dma_mRingSeekahead (R\<lparr>FreeCnt := x\<rparr>) = Dma_mRingSeekahead R"
  "Dma_mRingSeekahead (R\<lparr>PreCnt := x\<rparr>) = Dma_mRingSeekahead R"
  "Dma_mRingSeekahead (R\<lparr>HwCnt := x\<rparr>) = Dma_mRingSeekahead R"
  "Dma_mRingSeekahead (R\<lparr>PostCnt := x\<rparr>) = Dma_mRingSeekahead R"
  "Dma_mRingSeekahead (R\<lparr>BDerrs := x\<rparr>) = Dma_mRingSeekahead R"
  "Dma_mRingSeekahead (R\<lparr>BDSerrs := x\<rparr>) = Dma_mRingSeekahead R"
  by (simp_all add: fun_eq_iff Dma_mRingSeekahead_def Let_def)

lemma Dma_mRingSeekback_upd [simp]:
  "Dma_mRingSeekback (R\<lparr>RunState := x\<rparr>) = Dma_mRingSeekback R"
  "Dma_mRingSeekback (R\<lparr>FreeHead := x\<rparr>) = Dma_mRingSeekback R"
  "Dma_mRingSeekback (R\<lparr>PreHead := x\<rparr>) = Dma_mRingSeekback R"
  "Dma_mRingSeekback (R\<lparr>HwHead := x\<rparr>) = Dma_mRingSeekback R"
  "Dma_mRingSeekback (R\<lparr>HwTail := x\<rparr>) = Dma_mRingSeekback R"
  "Dma_mRingSeekback (R\<lparr>PostHead := x\<rparr>) = Dma_mRingSeekback R"
  "Dma_mRingSeekback (R\<lparr>BdaRestart := x\<rparr>) = Dma_mRingSeekback R"
  "Dma_mRingSeekback (R\<lparr>FreeCnt := x\<rparr>) = Dma_mRingSeekback R"
  "Dma_mRingSeekback (R\<lparr>PreCnt := x\<rparr>) = Dma_mRingSeekback R"
  "Dma_mRingSeekback (R\<lparr>HwCnt := x\<rparr>) = Dma_mRingSeekback R"
  "Dma_mRingSeekback (R\<lparr>PostCnt := x\<rparr>) = Dma_mRingSeekback R"
  "Dma_mRingSeekback (R\<lparr>BDerrs := x\<rparr>) = Dma_mRingSeekback R"
  "Dma_mRingSeekback (R\<lparr>BDSerrs := x\<rparr>) = Dma_mRingSeekback R"
  by (simp_all add: fun_eq_iff Dma_mRingSeekback_def Let_def)

section \<open>Invariant and abstraction\<close>

definition post_idx :: "Dma_BdRing \<Rightarrow> nat" where
  "post_idx R = unat (PostHead R - FirstBdAddr R) div unat (Separation R)"

text \<open>
  The groups lie behind each other around the ring, in the order completed, hardware,
  prepared, free; each group's head pointer is the first descriptor of the group, the hardware
  tail is the end of the hardware group, and the counts add up to the ring size.
\<close>

definition ring_at :: "Dma_BdRing \<Rightarrow> nat \<Rightarrow> bool" where
  "ring_at R q \<longleftrightarrow> geom R \<and> q < ring_n R
     \<and> PostHead R = bd_addr R q
     \<and> HwHead R = bd_addr R ((q + unat (PostCnt R)) mod ring_n R)
     \<and> PreHead R = bd_addr R ((q + unat (PostCnt R) + unat (HwCnt R)) mod ring_n R)
     \<and> HwTail R = PreHead R
     \<and> FreeHead R = bd_addr R ((q + unat (PostCnt R) + unat (HwCnt R) + unat (PreCnt R)) mod ring_n R)
     \<and> unat (PostCnt R) + unat (HwCnt R) + unat (PreCnt R) + unat (FreeCnt R) = ring_n R"

definition ring_inv :: "Dma_BdRing \<Rightarrow> bool" where
  "ring_inv R \<longleftrightarrow> ring_at R (post_idx R)"

definition ring_groups :: "Dma_BdRing \<Rightarrow> nat groups" where
  "ring_groups R =
     (let n = ring_n R; q = post_idx R; h = q + unat (PostCnt R);
          p = h + unat (HwCnt R); f = p + unat (PreCnt R)
      in \<lparr>gpost = cyc n q (unat (PostCnt R)), ghw = cyc n h (unat (HwCnt R)),
          gpre = cyc n p (unat (PreCnt R)), gfree = cyc n f (unat (FreeCnt R))\<rparr>)"

lemma idx_bd_addr:
  assumes "geom R" "i < ring_n R"
  shows "unat (bd_addr R i - FirstBdAddr R) div unat (Separation R) = i"
proof -
  have "bd_addr R i - FirstBdAddr R = Separation R * of_nat i" by (simp add: bd_addr_def)
  moreover have "0 < unat (Separation R)" using assms(1) by (simp add: geom_def)
  ultimately show ?thesis using unat_sep_mult[of R i] assms by simp
qed

lemma ring_at_post_idx: "ring_at R q \<Longrightarrow> post_idx R = q"
  by (simp add: ring_at_def post_idx_def idx_bd_addr)

lemma ring_at_inv: "ring_at R q \<Longrightarrow> ring_inv R"
  by (simp add: ring_inv_def ring_at_post_idx)

lemma ring_invD:
  assumes "ring_inv R"
  shows "geom R" "post_idx R < ring_n R" "ring_at R (post_idx R)"
    "unat (PostCnt R) + unat (HwCnt R) + unat (PreCnt R) + unat (FreeCnt R) = ring_n R"
    "HwTail R = PreHead R"
  using assms by (auto simp: ring_inv_def ring_at_def)

lemma group_lengths [simp]:
  "length (gpost (ring_groups R)) = unat (PostCnt R)"
  "length (ghw (ring_groups R)) = unat (HwCnt R)"
  "length (gpre (ring_groups R)) = unat (PreCnt R)"
  "length (gfree (ring_groups R)) = unat (FreeCnt R)"
  by (simp_all add: ring_groups_def Let_def)

lemma ring_all_bds:
  assumes "ring_inv R"
  shows "all_bds (ring_groups R) = cyc (ring_n R) (post_idx R) (ring_n R)"
proof -
  have "all_bds (ring_groups R) = cyc (ring_n R) (post_idx R)
      (unat (PostCnt R) + unat (HwCnt R) + unat (PreCnt R) + unat (FreeCnt R))"
    by (simp add: all_bds_def ring_groups_def Let_def cyc_add add.assoc)
  then show ?thesis by (simp only: ring_invD(4)[OF assms])
qed

lemma ring_distinct: "ring_inv R \<Longrightarrow> distinct (all_bds (ring_groups R))"
  by (simp add: ring_all_bds distinct_cyc)

lemma ring_all_bds_set: "ring_inv R \<Longrightarrow> set (all_bds (ring_groups R)) = {0..<ring_n R}"
  by (simp add: ring_all_bds set_cyc_full geom_n_pos ring_invD(1))

definition groups_at :: "Dma_BdRing \<Rightarrow> nat \<Rightarrow> nat groups" where
  "groups_at R q =
     (let n = ring_n R; h = q + unat (PostCnt R); p = h + unat (HwCnt R); f = p + unat (PreCnt R)
      in \<lparr>gpost = cyc n q (unat (PostCnt R)), ghw = cyc n h (unat (HwCnt R)),
          gpre = cyc n p (unat (PreCnt R)), gfree = cyc n f (unat (FreeCnt R))\<rparr>)"

lemma ring_at_groups: "ring_at R q \<Longrightarrow> ring_groups R = groups_at R q"
  by (simp add: ring_groups_def groups_at_def ring_at_post_idx)

text \<open>Moving a group pointer by a count known to fit in the ring.\<close>

lemma seek_mod:
  assumes "geom R" "unat k \<le> ring_n R"
  shows "Dma_mRingSeekahead R (bd_addr R (j mod ring_n R)) k = bd_addr R ((j + unat k) mod ring_n R)"
    "Dma_mRingSeekback R (bd_addr R (j mod ring_n R)) k
       = bd_addr R ((j + (ring_n R - unat k)) mod ring_n R)"
proof -
  have j: "j mod ring_n R < ring_n R" using geom_n_pos[OF assms(1)] by simp
  show "Dma_mRingSeekahead R (bd_addr R (j mod ring_n R)) k = bd_addr R ((j + unat k) mod ring_n R)"
    using seekahead_bd_addr[OF assms(1) j assms(2)] by (simp add: mod_add_left_eq)
  show "Dma_mRingSeekback R (bd_addr R (j mod ring_n R)) k
       = bd_addr R ((j + (ring_n R - unat k)) mod ring_n R)"
    using seekback_bd_addr[OF assms(1) j assms(2)] by (simp add: mod_add_left_eq)
qed

lemma unat_add_sum:
  assumes "unat (a :: u32) + unat b \<le> ring_n R"
  shows "unat (a + b) = unat a + unat b"
  using assms ring_n_lt[of R] by (intro unat_add_no_overflow) linarith

section \<open>Each operation implements its specification\<close>

lemma alloc_refines:
  assumes inv: "ring_inv R" and k: "NumBd \<le> FreeCnt R"
  shows "\<exists>R'. Dma_BdRingAlloc R NumBd = (XST_SUCCESS, R', Some (FreeHead R)) \<and> ring_inv R' \<and>
     ring_groups R' = spec_alloc (unat NumBd) (ring_groups R)"
proof -
  define q where "q = post_idx R"
  have at: "ring_at R q" using inv by (simp add: ring_inv_def q_def)
  define R' where "R' = R\<lparr>FreeHead := Dma_mRingSeekahead R (FreeHead R) NumBd,
     FreeCnt := FreeCnt R - NumBd, PreCnt := PreCnt R + NumBd\<rparr>"
  have k': "unat NumBd \<le> unat (FreeCnt R)" using k by (simp add: word_le_nat_alt)
  have pre: "unat (PreCnt R + NumBd) = unat (PreCnt R) + unat NumBd"
    using at k' by (intro unat_add_sum[of _ _ R]) (simp add: ring_at_def)
  have free: "unat (FreeCnt R - NumBd) = unat (FreeCnt R) - unat NumBd" by (rule unat_sub_le[OF k])
  have le: "unat NumBd \<le> ring_n R" using at k' by (simp add: ring_at_def)
  have at': "ring_at R' q" using at k' le
    by (simp add: ring_at_def R'_def pre free seek_mod add.assoc)
  have "groups_at R' q = spec_alloc (unat NumBd) (groups_at R q)" using k'
    by (simp add: groups_at_def R'_def pre free Let_def spec_alloc_def cyc_add take_cyc drop_cyc add.assoc)
  then show ?thesis using at at' k
    by (simp add: Dma_BdRingAlloc_def Let_def R'_def[symmetric] ring_at_groups ring_at_inv not_less)
qed

lemma alloc_refuses: "FreeCnt R < NumBd \<Longrightarrow> Dma_BdRingAlloc R NumBd = (XST_FAILURE, R, None)"
  by (simp add: Dma_BdRingAlloc_def)

lemma unalloc_refines:
  assumes inv: "ring_inv R" and k: "NumBd \<le> PreCnt R"
  shows "\<exists>R'. Dma_BdRingUnAlloc R NumBd ptr = (XST_SUCCESS, R') \<and> ring_inv R' \<and>
     ring_groups R' = spec_unalloc (unat NumBd) (ring_groups R)"
proof -
  define q where "q = post_idx R"
  have at: "ring_at R q" using inv by (simp add: ring_inv_def q_def)
  define R' where "R' = R\<lparr>FreeHead := Dma_mRingSeekback R (FreeHead R) NumBd,
     FreeCnt := FreeCnt R + NumBd, PreCnt := PreCnt R - NumBd\<rparr>"
  have k': "unat NumBd \<le> unat (PreCnt R)" using k by (simp add: word_le_nat_alt)
  have free: "unat (FreeCnt R + NumBd) = unat (FreeCnt R) + unat NumBd"
    using at k' by (intro unat_add_sum[of _ _ R]) (simp add: ring_at_def)
  have pre: "unat (PreCnt R - NumBd) = unat (PreCnt R) - unat NumBd" by (rule unat_sub_le[OF k])
  have le: "unat NumBd \<le> ring_n R" using at k' by (simp add: ring_at_def)
  have bk: "(j + unat (PreCnt R) + ring_n R - unat NumBd) mod ring_n R
      = (j + unat (PreCnt R) - unat NumBd) mod ring_n R" for j
  proof -
    have "j + unat (PreCnt R) + ring_n R - unat NumBd = j + unat (PreCnt R) - unat NumBd + ring_n R"
      using k' by simp
    then show ?thesis by (metis mod_add_self2)
  qed
  have at': "ring_at R' q" using at k' le
    by (simp add: ring_at_def R'_def pre free seek_mod bk)
  have "groups_at R' q = spec_unalloc (unat NumBd) (groups_at R q)" using k'
    by (simp add: groups_at_def R'_def pre free Let_def spec_unalloc_def take_cyc drop_cyc
        add.assoc cyc_before)
  moreover have "\<not> PreCnt R < NumBd" using k by simp
  ultimately show ?thesis using at at'
    by (simp add: Dma_BdRingUnAlloc_def Let_def R'_def[symmetric] ring_at_groups ring_at_inv)
qed

text \<open>Words of different descriptors, and different words, do not interfere.\<close>

lemma bd_word_neq:
  assumes "geom R" "i < ring_n R" "j < ring_n R" "i \<noteq> j" "unat off < 64" "unat off' < 64"
  shows "bd_addr R i + off \<noteq> bd_addr R j + off'"
proof
  assume "bd_addr R i + off = bd_addr R j + off'"
  then have "bd_addr R i + off - bd_addr R j = off'" by simp
  then show False using bd_word_disjoint[OF assms(1-5)] assms(6) by (simp add: word_less_nat_alt)
qed

definition bd_has_length :: "mach \<Rightarrow> u32 \<Rightarrow> bool" where
  "bd_has_length m a \<longleftrightarrow> Dma_mBdRead a DMA_BD_BUFL_CTRL_OFFSET m AND DMA_BD_BUFL_MASK \<noteq> 0"

lemma mem_set_status_0:
  "mem (Dma_mBdSetStatus a 0 m) = (mem m)(a := mem m a AND DMA_BD_BUFL_MASK)"
  by (simp add: Dma_mBdSetStatus_def Dma_mBdRead_def hwc)

lemma has_length_set_status:
  assumes "geom R" "i < ring_n R" "j < ring_n R"
  shows "bd_has_length (Dma_mBdSetStatus (bd_addr R i) 0 m) (bd_addr R j) = bd_has_length m (bd_addr R j)"
proof -
  have "bd_addr R j + DMA_BD_BUFL_CTRL_OFFSET \<noteq> bd_addr R i"
    using bd_word_neq[OF assms(1,3,2), of "0x10" 0] by (cases "i = j") (simp_all add: hwc)
  then show ?thesis by (simp add: bd_has_length_def Dma_mBdRead_def mem_set_status_0)
qed

lemma tohw_loop_spec:
  assumes g: "geom R" and k: "k \<le> ring_n R"
    and d: "d = length (takeWhile (\<lambda>j. bd_has_length m (bd_addr R j)) (cyc (ring_n R) p k))"
  shows "\<exists>sts' m'. tohw_loop R k i (bd_addr R (p mod ring_n R)) sts m
           = (i + d, bd_addr R ((p + d) mod ring_n R), sts', m')
     \<and> (\<forall>x. mem m' x = (if x \<in> bd_addr R ` set (cyc (ring_n R) p d)
                          then mem m x AND DMA_BD_BUFL_MASK else mem m x))
     \<and> dev m' = dev m \<and> dma_map m' = dma_map m
     \<and> (\<exists>es. evs m' = es @ evs m \<and> (\<forall>e\<in>set es. \<exists>a v. e = WrBd a v))"
  using k d
proof (induction k arbitrary: i p sts m d)
  case 0
  then show ?case by (auto intro: exI[of _ "[]"])
next
  case (Suc k)
  let ?n = "ring_n R" and ?a = "bd_addr R (p mod ring_n R)"
  have p: "p mod ?n < ?n" using geom_n_pos[OF g] by simp
  show ?case
  proof (cases "bd_has_length m ?a")
    case False
    then have "d = 0" using Suc.prems by (simp add: cyc_Suc)
    with False show ?thesis by (auto simp: Let_def bd_has_length_def intro: exI[of _ "[]"])
  next
    case True
    let ?m = "Dma_mBdSetStatus ?a 0 m"
    define d' where "d' = length (takeWhile (\<lambda>j. bd_has_length ?m (bd_addr R j)) (cyc ?n (Suc p) k))"
    have tw: "takeWhile (\<lambda>j. bd_has_length ?m (bd_addr R j)) (cyc ?n (Suc p) k)
        = takeWhile (\<lambda>j. bd_has_length m (bd_addr R j)) (cyc ?n (Suc p) k)"
      by (rule takeWhile_cong) (auto simp: has_length_set_status[OF g p] dest!: set_cyc_less[OF geom_n_pos[OF g]])
    have d: "d = Suc d'" using Suc.prems True tw by (simp add: cyc_Suc d'_def)
    have nxt: "Dma_mBdRingNext R ?a = bd_addr R (Suc p mod ?n)"
      by (simp add: ringNext_bd_addr[OF g p] mod_Suc_eq)
    have step: "tohw_loop R (Suc k) i ?a sts m = tohw_loop R k (Suc i) (bd_addr R (Suc p mod ?n))
        (Dma_mBdRead ?a DMA_BD_BUFL_CTRL_OFFSET m) ?m"
      using True by (simp add: Let_def bd_has_length_def nxt)
    from Suc.IH[OF _ d'_def, of "Suc i" "Dma_mBdRead ?a DMA_BD_BUFL_CTRL_OFFSET m"] Suc.prems(1)
    obtain sts' m' where *:
      "tohw_loop R (Suc k) i ?a sts m = (Suc i + d', bd_addr R ((Suc p + d') mod ?n), sts', m')"
      "\<forall>x. mem m' x = (if x \<in> bd_addr R ` set (cyc ?n (Suc p) d')
                          then mem ?m x AND DMA_BD_BUFL_MASK else mem ?m x)"
      "dev m' = dev ?m" "dma_map m' = dma_map ?m"
      "\<exists>es. evs m' = es @ evs ?m \<and> (\<forall>e\<in>set es. \<exists>a v. e = WrBd a v)"
      unfolding step by auto
    have "?a \<notin> bd_addr R ` set (cyc ?n (Suc p) d')"
    proof
      assume "?a \<in> bd_addr R ` set (cyc ?n (Suc p) d')"
      then obtain j where j: "j \<in> set (cyc ?n (Suc p) d')" "?a = bd_addr R j" by auto
      then have "j = p mod ?n"
        using bd_addr_inj[OF g p set_cyc_less[OF geom_n_pos[OF g] j(1)]] by simp
      then have "\<not> distinct (cyc ?n p (Suc d'))" using j(1) by (simp add: cyc_Suc)
      moreover have "Suc d' \<le> ?n"
        using Suc.prems(1) length_takeWhile_le[of "\<lambda>j. bd_has_length ?m (bd_addr R j)" "cyc ?n (Suc p) k"]
        by (simp add: d'_def)
      ultimately show False using distinct_cyc by blast
    qed
    then have mem': "\<forall>x. mem m' x = (if x \<in> bd_addr R ` set (cyc ?n p d)
        then mem m x AND DMA_BD_BUFL_MASK else mem m x)"
      using *(2) by (auto simp: d cyc_Suc mem_set_status_0)
    obtain es where es: "evs m' = es @ evs ?m" "\<forall>e\<in>set es. \<exists>a v. e = WrBd a v" using *(5) by blast
    have "evs ?m = [WrBd ?a (mem m ?a AND DMA_BD_BUFL_MASK)] @ evs m"
      by (simp add: Dma_mBdSetStatus_def Dma_mBdRead_def hwc)
    then have "\<exists>es. evs m' = es @ evs m \<and> (\<forall>e\<in>set es. \<exists>a v. e = WrBd a v)"
      using es by (intro exI[of _ "es @ [WrBd ?a (mem m ?a AND DMA_BD_BUFL_MASK)]"]) auto
    then show ?thesis using * mem' by (simp add: d Dma_mBdSetStatus_def)
  qed
qed

text \<open>What a submission must satisfy to be accepted.\<close>

definition tohw_accepts :: "Dma_BdRing \<Rightarrow> mach \<Rightarrow> u32 \<Rightarrow> u32 \<Rightarrow> bool" where
  "tohw_accepts R m NumBd ptr \<longleftrightarrow> NumBd \<le> PreCnt R \<and> PreHead R = ptr
     \<and> (IsRxChannel R = 0 \<longrightarrow> Dma_mBdRead ptr DMA_BD_BUFL_CTRL_OFFSET m AND DMA_BD_SOP_MASK \<noteq> 0)
     \<and> list_all (\<lambda>j. bd_has_length m (bd_addr R j)) (take (unat NumBd) (gpre (ring_groups R)))"

lemma takeWhile_full: "length (takeWhile P xs) = length xs \<longleftrightarrow> list_all P xs"
  by (induction xs) auto

lemma pre_segment:
  assumes "ring_inv R" "NumBd \<le> PreCnt R"
  shows "take (unat NumBd) (gpre (ring_groups R))
      = cyc (ring_n R) (post_idx R + unat (PostCnt R) + unat (HwCnt R)) (unat NumBd)"
  using assms(2) by (simp add: ring_groups_def Let_def take_cyc word_le_nat_alt)

lemma tohw_accepted:
  assumes inv: "ring_inv R" and nz: "NumBd \<noteq> 0" and acc: "tohw_accepts R m NumBd ptr"
  shows "\<exists>R' m' es. Dma_BdRingToHw R NumBd ptr m = (XST_SUCCESS, R', m') \<and> ring_inv R'
     \<and> ring_groups R' = spec_tohw (unat NumBd) (ring_groups R)
     \<and> R' = R\<lparr>PreHead := PreHead R', PreCnt := PreCnt R', HwTail := HwTail R', HwCnt := HwCnt R'\<rparr>
     \<and> (\<forall>x. mem m' x = (if x \<in> bd_addr R ` set (take (unat NumBd) (gpre (ring_groups R)))
                          then mem m x AND DMA_BD_BUFL_MASK else mem m x))
     \<and> (\<forall>e\<in>set es. \<exists>a v. e = WrBd a v) \<and> dev m' = dev m \<and> dma_map m' = dma_map m
     \<and> evs m' = (if RunState R = XST_DMA_SG_IS_STARTED
                  then [WrReg (ChanBase R + REG_SW_NEXT_BD) (Dma_mVirtToPhys R' (HwTail R')), Wmb]
                  else []) @ es @ evs m"
proof -
  define q where "q = post_idx R"
  define p where "p = q + unat (PostCnt R) + unat (HwCnt R)"
  let ?n = "ring_n R" and ?k = "unat NumBd"
  let ?sts = "Dma_mBdRead ptr DMA_BD_BUFL_CTRL_OFFSET m"
  have at: "ring_at R q" using inv by (simp add: ring_inv_def q_def)
  have k: "NumBd \<le> PreCnt R" and ptr: "PreHead R = ptr" using acc by (auto simp: tohw_accepts_def)
  have k': "?k \<le> unat (PreCnt R)" using k by (simp add: word_le_nat_alt)
  have le: "?k \<le> ?n" using at k' by (simp add: ring_at_def)
  have pa: "ptr = bd_addr R (p mod ?n)" using at ptr by (simp add: ring_at_def p_def)
  have seg: "take ?k (gpre (ring_groups R)) = cyc ?n p ?k"
    using pre_segment[OF inv k] by (simp add: p_def q_def)
  have full: "?k = length (takeWhile (\<lambda>j. bd_has_length m (bd_addr R j)) (cyc ?n p ?k))"
    using acc takeWhile_full[of "\<lambda>j. bd_has_length m (bd_addr R j)" "cyc ?n p ?k"]
    by (simp add: tohw_accepts_def seg)
  have g: "geom R" using at by (simp add: ring_at_def)
  from tohw_loop_spec[OF g le full, of 0 ?sts]
  obtain sts' m1 es where loop:
    "tohw_loop R ?k 0 ptr ?sts m = (?k, bd_addr R ((p + ?k) mod ?n), sts', m1)"
    and mem1: "\<forall>x. mem m1 x = (if x \<in> bd_addr R ` set (cyc ?n p ?k)
        then mem m x AND DMA_BD_BUFL_MASK else mem m x)"
    and env1: "dev m1 = dev m" "dma_map m1 = dma_map m"
    and es: "evs m1 = es @ evs m" "\<forall>e\<in>set es. \<exists>a v. e = WrBd a v"
    unfolding pa by auto
  define R' where "R' = R\<lparr>PreHead := Dma_mRingSeekahead R (PreHead R) NumBd, PreCnt := PreCnt R - NumBd,
     HwTail := bd_addr R ((p + ?k) mod ?n), HwCnt := HwCnt R + NumBd\<rparr>"
  define m' where "m' = (if RunState R = XST_DMA_SG_IS_STARTED
     then Dma_mWriteReg (ChanBase R) REG_SW_NEXT_BD (Dma_mVirtToPhys R' (HwTail R')) (wmb m1) else m1)"
  have hw: "unat (HwCnt R + NumBd) = unat (HwCnt R) + ?k"
    using at k' by (intro unat_add_sum[of _ _ R]) (simp add: ring_at_def)
  have pre: "unat (PreCnt R - NumBd) = unat (PreCnt R) - ?k" by (rule unat_sub_le[OF k])
  have ph: "Dma_mRingSeekahead R (PreHead R) NumBd = bd_addr R ((p + ?k) mod ?n)"
    unfolding ptr pa by (rule seek_mod(1)[OF g le])
  have at': "ring_at R' q" using at k' le
    by (simp add: ring_at_def R'_def pre hw seek_mod p_def add.assoc)
  have gr: "groups_at R' q = spec_tohw ?k (groups_at R q)" using k'
    by (simp add: groups_at_def R'_def pre hw Let_def spec_tohw_def cyc_add take_cyc drop_cyc add.assoc)
  have run: "Dma_BdRingToHw R NumBd ptr m = (XST_SUCCESS, R', m')"
  proof -
    have "\<not> (PreCnt R < NumBd \<or> PreHead R \<noteq> ptr)" using k ptr by auto
    moreover have "\<not> (IsRxChannel R = 0 \<and> ?sts AND DMA_BD_SOP_MASK = 0)"
      using acc by (auto simp: tohw_accepts_def)
    ultimately show ?thesis using nz loop
      by (simp only: Dma_BdRingToHw_def Let_def if_False split_conv) (simp add: R'_def m'_def)
  qed
  have "evs m' = (if RunState R = XST_DMA_SG_IS_STARTED
      then [WrReg (ChanBase R + REG_SW_NEXT_BD) (Dma_mVirtToPhys R' (HwTail R')), Wmb] else []) @ es @ evs m"
    by (simp add: m'_def Dma_mWriteReg_def es)
  moreover have "mem m' = mem m1" "dev m' = dev m1" "dma_map m' = dma_map m1"
    by (simp_all add: m'_def Dma_mWriteReg_def)
  ultimately show ?thesis using run at at' gr mem1 env1 es(2) seg
    by (intro exI[of _ R'] exI[of _ m'] exI[of _ es])
      (simp add: ring_at_groups ring_at_inv, simp add: R'_def)
qed

lemma tohw_rejected:
  assumes inv: "ring_inv R" and nz: "NumBd \<noteq> 0" and rej: "\<not> tohw_accepts R m NumBd ptr"
  shows "\<exists>c m'. Dma_BdRingToHw R NumBd ptr m = (c, R, m') \<and> c \<noteq> XST_SUCCESS"
proof (cases "PreCnt R < NumBd \<or> PreHead R \<noteq> ptr \<or>
    (IsRxChannel R = 0 \<and> Dma_mBdRead ptr DMA_BD_BUFL_CTRL_OFFSET m AND DMA_BD_SOP_MASK = 0)")
  case True
  then show ?thesis using nz by (auto simp: Dma_BdRingToHw_def Let_def hwc)
next
  case False
  let ?n = "ring_n R" and ?k = "unat NumBd"
  define p where "p = post_idx R + unat (PostCnt R) + unat (HwCnt R)"
  let ?d = "length (takeWhile (\<lambda>j. bd_has_length m (bd_addr R j)) (cyc ?n p ?k))"
  have k: "NumBd \<le> PreCnt R" and ptr: "PreHead R = ptr" using False by auto
  have le: "?k \<le> ?n" using k ring_invD(4)[OF inv] by (simp add: word_le_nat_alt)
  have pa: "ptr = bd_addr R (p mod ?n)"
    using ring_invD(3)[OF inv] ptr by (simp add: ring_at_def p_def)
  have "\<not> list_all (\<lambda>j. bd_has_length m (bd_addr R j)) (cyc ?n p ?k)"
    using rej False pre_segment[OF inv k] by (auto simp: tohw_accepts_def p_def)
  then have "?d \<noteq> ?k" using takeWhile_full[of _ "cyc ?n p ?k"] by simp
  moreover obtain c s m1 where "tohw_loop R ?k 0 ptr (Dma_mBdRead ptr DMA_BD_BUFL_CTRL_OFFSET m) m
      = (?d, c, s, m1)"
    unfolding pa using tohw_loop_spec[OF ring_invD(1)[OF inv] le refl, where m = m and p = p and i = 0]
    by fastforce
  ultimately show ?thesis using nz False by (auto simp: Dma_BdRingToHw_def Let_def XST_SUCCESS_def XST_FAILURE_def)
qed

section \<open>Retrieving completed descriptors\<close>

text \<open>
  The hardware has finished with a descriptor, and a finished descriptor is the last of its
  packet, as functions of the descriptor's address and the memory.
\<close>

definition bd_done :: "Dma_BdRing \<Rightarrow> mach \<Rightarrow> u32 \<Rightarrow> bool" where
  "bd_done R m a \<longleftrightarrow> Dma_mBdGetStatus a m AND DMA_BD_COMP_MASK \<noteq> 0 \<and>
     \<not> rx_user_pending R (Dma_mBdGetStatus a m) (Dma_mBdGetUserData a m)"

definition bd_end :: "Dma_BdRing \<Rightarrow> mach \<Rightarrow> u32 \<Rightarrow> bool" where
  "bd_end R m a \<longleftrightarrow> bd_ends_packet R (Dma_mBdGetStatus a m) (Dma_mBdGetCtrl a m)"

definition bd_error :: "mach \<Rightarrow> u32 \<Rightarrow> bool" where
  "bd_error m a \<longleftrightarrow> Dma_mBdGetStatus a m AND DMA_BD_ERROR_MASK \<noteq> 0"

text \<open>
  The finished descriptors at the front of the hardware group, at most \<open>limit\<close> of them, and
  those of them that belong to completely finished packets.
\<close>

definition hw_ready :: "Dma_BdRing \<Rightarrow> mach \<Rightarrow> nat \<Rightarrow> nat list" where
  "hw_ready R m limit = takeWhile (\<lambda>j. bd_done R m (bd_addr R j)) (take limit (ghw (ring_groups R)))"

definition hw_complete :: "Dma_BdRing \<Rightarrow> mach \<Rightarrow> nat \<Rightarrow> nat list" where
  "hw_complete R m limit = trim (\<lambda>j. bd_end R m (bd_addr R j)) (hw_ready R m limit)"

lemma count_bd_errors_alt:
  "count_bd_errors R sts = R\<lparr>BDerrs := BDerrs R + of_bool (sts AND DMA_BD_ERROR_MASK \<noteq> 0),
     BDSerrs := BDSerrs R + of_bool (IsRxChannel R = 0 \<and> sts AND DMA_BD_SHORT_MASK \<noteq> 0)\<rparr>"
  by (simp add: count_bd_errors_def Let_def)

lemma count_frame [ring_frame]:
  "rx_user_pending (R\<lparr>BDerrs := e, BDSerrs := s\<rparr>) = rx_user_pending R"
  "bd_ends_packet (R\<lparr>BDerrs := e, BDSerrs := s\<rparr>) = bd_ends_packet R"
  "bd_done (R\<lparr>BDerrs := e, BDSerrs := s\<rparr>) = bd_done R"
  "bd_end (R\<lparr>BDerrs := e, BDSerrs := s\<rparr>) = bd_end R"
  by (simp_all add: fun_eq_iff rx_user_pending_def bd_ends_packet_def bd_done_def bd_end_def)

lemma partial_count:
  fixes p :: u32
  shows "(if \<exists>y\<in>set ys. E y then 0 else if E a then 0 else p + 1)
      + of_nat (length (takeWhile (\<lambda>y. \<not> E y) (rev ys)))
    = (if \<exists>y\<in>set (a # ys). E y then 0 else p)
      + of_nat (length (takeWhile (\<lambda>y. \<not> E y) (rev (a # ys))))"
proof (cases "\<exists>y\<in>set ys. E y")
  case True
  then have "takeWhile (\<lambda>y. \<not> E y) (rev (a # ys)) = takeWhile (\<lambda>y. \<not> E y) (rev ys)"
    by (auto intro: takeWhile_append1)
  then show ?thesis using True by simp
next
  case False
  then have "takeWhile (\<lambda>y. \<not> E y) (rev ys) = rev ys" by (auto intro: takeWhile_eq_all_conv[THEN iffD2])
  moreover have "takeWhile (\<lambda>y. \<not> E y) (rev (a # ys)) = rev ys @ (if E a then [] else [a])"
    using False takeWhile_append2[of "rev ys" "\<lambda>y. \<not> E y" "[a]"] by auto
  ultimately show ?thesis using False by (simp only:) simp
qed

text \<open>
  The scan from slot \<open>h\<close> with \<open>w\<close> descriptors up to the tail: it takes the finished ones, counts
  the unfinished packet at the end, and counts an error for every descriptor it looked at.
\<close>

lemma fromhw_loop_spec:
  assumes g: "geom R" and w: "0 < w" "w \<le> ring_n R"
    and tail: "HwTail R = bd_addr R ((h + w) mod ring_n R)"
    and xs: "xs = map (bd_addr R) (cyc (ring_n R) h (min k w))"
    and ys: "ys = takeWhile (bd_done R m) xs"
  shows "\<exists>s. fromhw_loop k R (bd_addr R (h mod ring_n R)) c part m =
      (R\<lparr>BDerrs := BDerrs R + of_nat (length (filter (bd_error m) (take (Suc (length ys)) xs))),
         BDSerrs := s\<rparr>,
       c + of_nat (length ys),
       (if \<exists>y\<in>set ys. bd_end R m y then 0 else part)
         + of_nat (length (takeWhile (\<lambda>y. \<not> bd_end R m y) (rev ys))))"
  using assms
proof (induction k arbitrary: R h w c part xs ys)
  case 0
  then show ?case by (simp add: exI[of _ "BDSerrs R"])
next
  case (Suc k)
  let ?n = "ring_n R" and ?a = "bd_addr R (h mod ring_n R)"
  have hn: "h mod ?n < ?n" using geom_n_pos[OF Suc.prems(1)] by simp
  define s where "s = BDSerrs R +
    of_bool (IsRxChannel R = 0 \<and> Dma_mBdGetStatus ?a m AND DMA_BD_SHORT_MASK \<noteq> 0)"
  define R1 where "R1 = R\<lparr>BDerrs := BDerrs R + of_bool (bd_error m ?a), BDSerrs := s\<rparr>"
  have cnt: "count_bd_errors R (Dma_mBdGetStatus ?a m) = R1"
    by (simp add: count_bd_errors_alt R1_def s_def bd_error_def)
  have same: "bd_done R1 = bd_done R" "bd_end R1 = bd_end R" "geom R1" "ring_n R1 = ?n"
    "bd_addr R1 = bd_addr R" "HwTail R1 = HwTail R" "bd_ends_packet R1 = bd_ends_packet R"
    "rx_user_pending R1 = rx_user_pending R"
    using Suc.prems(1) by (simp_all add: R1_def ring_frame)
  obtain w' where w': "w = Suc w'" using Suc.prems(2) by (cases w) auto
  define xs' where "xs' = map (bd_addr R) (cyc ?n (Suc h) (min k w'))"
  have xs: "xs = ?a # xs'" using Suc.prems(5) by (simp add: w' cyc_Suc xs'_def)
  show ?case
  proof (cases "bd_done R m ?a")
    case False
    then have "ys = []" using Suc.prems(6) xs by simp
    moreover have "fromhw_loop (Suc k) R ?a c part m = (R1, c, part)"
      using False by (auto simp: cnt same bd_done_def Let_def)
    ultimately show ?thesis by (auto simp: xs R1_def)
  next
    case True
    define ys' where "ys' = takeWhile (bd_done R m) xs'"
    have ys: "ys = ?a # ys'" using Suc.prems(6) xs True by (simp add: ys'_def)
    define p1 where "p1 = (if bd_end R m ?a then 0 else part + 1)"
    have nxt: "Dma_mBdRingNext R1 ?a = bd_addr R (Suc h mod ?n)"
      using ringNext_bd_addr[of R1 "h mod ?n"] hn by (simp add: same mod_Suc_eq)
    have step: "fromhw_loop (Suc k) R ?a c part m =
      (if bd_addr R (Suc h mod ?n) = HwTail R then (R1, c + 1, p1)
       else fromhw_loop k R1 (bd_addr R (Suc h mod ?n)) (c + 1) p1 m)"
      using True by (simp add: cnt same bd_done_def nxt p1_def bd_end_def Let_def)
    have tailw: "bd_addr R (Suc h mod ?n) = HwTail R \<longleftrightarrow> w' = 0"
    proof -
      have lt: "Suc h mod ?n < ?n" "(Suc h + w') mod ?n < ?n"
        using geom_n_pos[OF Suc.prems(1)] by simp_all
      have "bd_addr R (Suc h mod ?n) = HwTail R \<longleftrightarrow> (Suc h + 0) mod ?n = (Suc h + w') mod ?n"
        using bd_addr_inj[OF Suc.prems(1) lt] Suc.prems(4) by (simp add: w')
      also have "\<dots> \<longleftrightarrow> w' = 0"
        using mod_add_inj[of "Suc h" 0 ?n w'] Suc.prems(3) w' geom_n_pos[OF Suc.prems(1)] by auto
      finally show ?thesis .
    qed
    show ?thesis
    proof (cases "w' = 0")
      case True
      then have "xs' = []" "ys' = []" by (simp_all add: xs'_def ys'_def)
      then show ?thesis using True unfolding step
        by (auto simp: tailw xs ys p1_def R1_def)
    next
      case False
      have "\<exists>s. fromhw_loop k R1 (bd_addr R1 (Suc h mod ring_n R1)) (c + 1) p1 m =
        (R1\<lparr>BDerrs := BDerrs R1 + of_nat (length (filter (bd_error m) (take (Suc (length ys')) xs'))),
           BDSerrs := s\<rparr>, c + 1 + of_nat (length ys'),
         (if \<exists>y\<in>set ys'. bd_end R1 m y then 0 else p1)
           + of_nat (length (takeWhile (\<lambda>y. \<not> bd_end R1 m y) (rev ys'))))"
        by (rule Suc.IH[where w = w']) (use False Suc.prems w' in \<open>simp_all add: same xs'_def ys'_def\<close>)
      then obtain s' where "fromhw_loop k R1 (bd_addr R (Suc h mod ?n)) (c + 1) p1 m =
        (R1\<lparr>BDerrs := BDerrs R1 + of_nat (length (filter (bd_error m) (take (Suc (length ys')) xs'))),
           BDSerrs := s'\<rparr>, c + 1 + of_nat (length ys'),
         (if \<exists>y\<in>set ys'. bd_end R m y then 0 else p1)
           + of_nat (length (takeWhile (\<lambda>y. \<not> bd_end R m y) (rev ys'))))"
        unfolding same by (elim exE)
      then have "fromhw_loop (Suc k) R ?a c part m =
        (R1\<lparr>BDerrs := BDerrs R1 + of_nat (length (filter (bd_error m) (take (Suc (length ys')) xs'))),
           BDSerrs := s'\<rparr>, c + 1 + of_nat (length ys'),
         (if \<exists>y\<in>set ys'. bd_end R m y then 0 else if bd_end R m ?a then 0 else part + 1)
           + of_nat (length (takeWhile (\<lambda>y. \<not> bd_end R m y) (rev ys'))))"
        using False unfolding step tailw p1_def by (simp only: if_False)
      then have "fromhw_loop (Suc k) R ?a c part m =
        (R\<lparr>BDerrs := BDerrs R + of_nat (length (filter (bd_error m) (take (Suc (length ys)) xs))),
           BDSerrs := s'\<rparr>, c + of_nat (length ys),
         (if \<exists>y\<in>set ys. bd_end R m y then 0 else part)
           + of_nat (length (takeWhile (\<lambda>y. \<not> bd_end R m y) (rev ys))))"
        unfolding partial_count xs ys by (simp add: R1_def del: fromhw_loop.simps)
      then show ?thesis by blast
    qed
  qed
qed

end
