(* ===== verification/BdRingRefine.thy ===== *)
theory BdRingRefine
  imports BdRingInv
begin

text \<open>
  Retrieval (\<open>Dma_BdRingFromHw\<close>, \<open>Dma_BdRingForceFromHw\<close>) and \<open>Dma_BdRingFree\<close> implement their
  specifications; with these every operation of the ring is covered, and the ring together
  with the machine provides the interface \<open>bd_pipeline\<close>.
\<close>

lemma ring_err_frame [ring_frame]:
  "ring_at (R\<lparr>BDerrs := e, BDSerrs := s\<rparr>) = ring_at R"
  "groups_at (R\<lparr>BDerrs := e, BDSerrs := s\<rparr>) = groups_at R"
  "ring_groups (R\<lparr>BDerrs := e, BDSerrs := s\<rparr>) = ring_groups R"
  "ring_inv (R\<lparr>BDerrs := e, BDSerrs := s\<rparr>) = ring_inv R"
  by (simp_all add: fun_eq_iff ring_at_def groups_at_def ring_groups_def ring_inv_def post_idx_def)

section \<open>The common tail of the two retrieval functions\<close>

lemma take_hw_refines:
  assumes inv: "ring_inv R" and k: "unat k \<le> unat (HwCnt R)"
    and R': "R' = R\<lparr>HwCnt := HwCnt R - k, PostCnt := PostCnt R + k,
                    HwHead := Dma_mRingSeekahead R (HwHead R) k\<rparr>"
  shows "ring_inv R' \<and> ring_groups R' = spec_fromhw (unat k) (ring_groups R)"
proof -
  define q where "q = post_idx R"
  have at: "ring_at R q" using inv by (simp add: ring_inv_def q_def)
  have post: "unat (PostCnt R + k) = unat (PostCnt R) + unat k"
    using at k by (intro unat_add_sum[of _ _ R]) (simp add: ring_at_def)
  have hw: "unat (HwCnt R - k) = unat (HwCnt R) - unat k"
    using k by (intro unat_sub_le) (simp add: word_le_nat_alt)
  have le: "unat k \<le> ring_n R" using at k by (simp add: ring_at_def)
  have at': "ring_at R' q" using at k le
    by (simp add: ring_at_def R' post hw seek_mod add.assoc)
  have "groups_at R' q = spec_fromhw (unat k) (groups_at R q)" using k
    by (simp add: groups_at_def R' post hw Let_def spec_fromhw_def cyc_add take_cyc drop_cyc add.assoc)
  then show ?thesis using at at' by (simp add: ring_at_groups ring_at_inv)
qed

section \<open>Retrieving completed descriptors\<close>

text \<open>How many of the descriptors looked at were marked with an error.\<close>

definition hw_errors :: "Dma_BdRing \<Rightarrow> mach \<Rightarrow> nat \<Rightarrow> nat" where
  "hw_errors R m limit =
     length (filter (\<lambda>j. bd_error m (bd_addr R j))
       (take (Suc (length (hw_ready R m limit))) (take limit (ghw (ring_groups R)))))"

lemma hw_complete_le: "length (hw_complete R m limit) \<le> min limit (unat (HwCnt R))"
proof -
  have "length (hw_complete R m limit) \<le> length (hw_ready R m limit)"
    unfolding hw_complete_def by (metis le_add1 length_trim)
  also have "\<dots> \<le> length (take limit (ghw (ring_groups R)))"
    unfolding hw_ready_def by (rule length_takeWhile_le)
  finally show ?thesis by simp
qed

lemma fromhw_refines:
  assumes inv: "ring_inv R"
  shows "\<exists>R'. Dma_BdRingFromHw R BdLimit m =
       (of_nat (length (hw_complete R m (unat BdLimit))), R',
        if hw_complete R m (unat BdLimit) = [] then 0 else HwHead R)
     \<and> ring_inv R'
     \<and> ring_groups R' = spec_fromhw (length (hw_complete R m (unat BdLimit))) (ring_groups R)
     \<and> BDerrs R' = BDerrs R + of_nat (hw_errors R m (unat BdLimit))
     \<and> R' = R\<lparr>HwHead := HwHead R', HwCnt := HwCnt R', PostCnt := PostCnt R',
              BDerrs := BDerrs R', BDSerrs := BDSerrs R'\<rparr>"
proof (cases "HwCnt R = 0")
  case True
  then have "ghw (ring_groups R) = []" using group_lengths(2)[of R] by (simp del: group_lengths)
  then show ?thesis using inv True
    by (simp add: Dma_BdRingFromHw_def hw_complete_def hw_ready_def hw_errors_def trim_def
        spec_fromhw_def)
next
  case False
  let ?n = "ring_n R" and ?l = "unat BdLimit" and ?w = "unat (HwCnt R)"
  define h where "h = post_idx R + unat (PostCnt R)"
  define idx where "idx = cyc ?n h (min ?l ?w)"
  define k where "k = length (hw_complete R m ?l)"
  have at: "ring_at R (post_idx R)" by (rule ring_invD(3)[OF inv])
  have idx: "take ?l (ghw (ring_groups R)) = idx"
    by (cases "?l \<le> ?w") (simp_all add: ring_groups_def Let_def h_def idx_def take_cyc min_def)
  define ys where "ys = takeWhile (bd_done R m) (map (bd_addr R) idx)"
  have ys: "ys = map (bd_addr R) (hw_ready R m ?l)"
    by (simp add: ys_def hw_ready_def idx takeWhile_map comp_def)
  have hh: "HwHead R = bd_addr R (h mod ?n)" using at by (simp add: ring_at_def h_def)
  have w: "0 < ?w" "?w \<le> ?n" using False ring_invD(4)[OF inv] by (auto simp: unat_gt_0)
  have tail: "HwTail R = bd_addr R ((h + ?w) mod ?n)" using at by (simp add: ring_at_def h_def)
  from fromhw_loop_spec[OF ring_invD(1)[OF inv] w tail _ ys_def[unfolded idx_def], of ?l 0 0]
  obtain s where loop: "fromhw_loop ?l R (HwHead R) 0 0 m =
      (R\<lparr>BDerrs := BDerrs R + of_nat (length (filter (bd_error m)
            (take (Suc (length ys)) (map (bd_addr R) idx)))), BDSerrs := s\<rparr>,
       of_nat (length ys), of_nat (length (takeWhile (\<lambda>y. \<not> bd_end R m y) (rev ys))))"
    unfolding hh idx_def by auto
  have err: "length (filter (bd_error m) (take (Suc (length ys)) (map (bd_addr R) idx)))
      = hw_errors R m ?l"
    by (simp add: hw_errors_def idx ys take_map filter_map comp_def del: take_Suc_conv_app_nth)
  have part: "length (takeWhile (\<lambda>y. \<not> bd_end R m y) (rev ys))
      = length (takeWhile (\<lambda>j. \<not> bd_end R m (bd_addr R j)) (rev (hw_ready R m ?l)))"
    by (simp add: ys takeWhile_map comp_def rev_map)
  have len: "length ys = k + length (takeWhile (\<lambda>y. \<not> bd_end R m y) (rev ys))"
    using length_trim[of "\<lambda>j. bd_end R m (bd_addr R j)" "hw_ready R m ?l"]
    by (simp only: part) (simp add: ys k_def hw_complete_def)
  define R1 where "R1 = R\<lparr>BDerrs := BDerrs R + of_nat (hw_errors R m ?l), BDSerrs := s\<rparr>"
  have loop': "fromhw_loop ?l R (HwHead R) 0 0 m =
     (R1, of_nat k + of_nat (length (takeWhile (\<lambda>y. \<not> bd_end R m y) (rev ys))),
      of_nat (length (takeWhile (\<lambda>y. \<not> bd_end R m y) (rev ys))))"
    using loop err len by (simp add: R1_def)
  have kle: "k \<le> ?w" using hw_complete_le[of R m ?l] by (simp add: k_def)
  then have uk: "unat (of_nat k :: u32) = k" by (intro unat_of_nat32) (metis le_less_trans unat_lt32)
  have inv1: "ring_inv R1" and gr1: "ring_groups R1 = ring_groups R" using inv
    by (simp_all add: R1_def ring_frame)
  show ?thesis
  proof (cases "k = 0")
    case True
    then have "hw_complete R m ?l = []" by (simp add: k_def)
    moreover from this True have "Dma_BdRingFromHw R BdLimit m = (0, R1, 0)"
      using False loop' by (simp add: Dma_BdRingFromHw_def Let_def)
    ultimately show ?thesis using inv1 gr1 by (simp add: R1_def spec_fromhw_def)
  next
    case nz: False
    define R' where "R' = R1\<lparr>HwCnt := HwCnt R1 - of_nat k, PostCnt := PostCnt R1 + of_nat k,
       HwHead := Dma_mRingSeekahead R1 (HwHead R1) (of_nat k)\<rparr>"
    have "hw_complete R m ?l \<noteq> []" using nz by (auto simp: k_def)
    moreover have "(of_nat k :: u32) \<noteq> 0" using uk nz by (metis unat_0)
    ultimately have "Dma_BdRingFromHw R BdLimit m = (of_nat k, R', HwHead R)"
      using False loop' by (simp add: Dma_BdRingFromHw_def Let_def R'_def) (simp add: R1_def)
    moreover have "ring_inv R' \<and> ring_groups R' = spec_fromhw k (ring_groups R)"
      using take_hw_refines[OF inv1 _ R'_def] kle gr1 uk by (simp add: R1_def)
    ultimately show ?thesis using \<open>hw_complete R m ?l \<noteq> []\<close>
      by (intro exI[of _ R']) (simp add: k_def[symmetric], simp add: R'_def R1_def)
  qed
qed


section \<open>Forced retrieval\<close>

lemma force_loop_spec:
  assumes "geom R" "0 < w" "w \<le> ring_n R" "HwTail R = bd_addr R ((h + w) mod ring_n R)"
  shows "force_loop k R (bd_addr R (h mod ring_n R)) c = c + of_nat (min k w)"
  using assms
proof (induction k arbitrary: h w c)
  case 0
  then show ?case by simp
next
  case (Suc k)
  let ?n = "ring_n R"
  obtain w' where w': "w = Suc w'" using Suc.prems(2) by (cases w) auto
  have nxt: "Dma_mBdRingNext R (bd_addr R (h mod ?n)) = bd_addr R (Suc h mod ?n)"
    using ringNext_bd_addr[OF Suc.prems(1), of "h mod ?n"] geom_n_pos[OF Suc.prems(1)]
    by (simp add: mod_Suc_eq)
  have "bd_addr R (Suc h mod ?n) = HwTail R \<longleftrightarrow> (Suc h + 0) mod ?n = (Suc h + w') mod ?n"
    using bd_addr_inj[OF Suc.prems(1), of "Suc h mod ?n" "(Suc h + w') mod ?n"]
      geom_n_pos[OF Suc.prems(1)] Suc.prems(4) by (simp add: w')
  also have "\<dots> \<longleftrightarrow> w' = 0"
    using mod_add_inj[of "Suc h" 0 ?n w'] Suc.prems(3) w' geom_n_pos[OF Suc.prems(1)] by auto
  finally show ?case
    using Suc.IH[of w' "Suc h" "c + 1"] Suc.prems w' by (simp add: nxt Let_def)
qed

lemma force_refines:
  assumes inv: "ring_inv R"
  shows "\<exists>R'. Dma_BdRingForceFromHw R BdLimit =
       (min BdLimit (HwCnt R), R', if min BdLimit (HwCnt R) = 0 then 0 else HwHead R)
     \<and> ring_inv R' \<and> ring_groups R' = spec_fromhw (unat (min BdLimit (HwCnt R))) (ring_groups R)
     \<and> (HwCnt R \<le> BdLimit \<longrightarrow> HwCnt R' = 0)"
proof (cases "min BdLimit (HwCnt R) = 0")
  case True
  then have "Dma_BdRingForceFromHw R BdLimit = (0, R, 0)"
    by (auto simp: Dma_BdRingForceFromHw_def min_def split: if_splits)
  moreover have "HwCnt R \<le> BdLimit \<Longrightarrow> HwCnt R = 0" using True by (auto simp: min_def split: if_splits)
  ultimately show ?thesis using inv True
    by (simp only: if_True unat_0) (auto simp: spec_fromhw_def)
next
  case False
  define h where "h = post_idx R + unat (PostCnt R)"
  have nz: "HwCnt R \<noteq> 0" using False by (auto simp: min_def split: if_splits)
  have at: "ring_at R (post_idx R)" by (rule ring_invD(3)[OF inv])
  have w: "0 < unat (HwCnt R)" "unat (HwCnt R) \<le> ring_n R"
    using nz ring_invD(4)[OF inv] by (auto simp: unat_gt_0)
  have tail: "HwTail R = bd_addr R ((h + unat (HwCnt R)) mod ring_n R)"
    and hh: "HwHead R = bd_addr R (h mod ring_n R)" using at by (simp_all add: ring_at_def h_def)
  have "(of_nat (min (unat BdLimit) (unat (HwCnt R))) :: u32) = min BdLimit (HwCnt R)"
    by (auto simp: min_def word_le_nat_alt)
  then have loop: "force_loop (unat BdLimit) R (HwHead R) 0 = min BdLimit (HwCnt R)"
    using force_loop_spec[OF ring_invD(1)[OF inv] w tail] by (simp add: hh)
  define R' where "R' = R\<lparr>HwCnt := HwCnt R - min BdLimit (HwCnt R),
     PostCnt := PostCnt R + min BdLimit (HwCnt R),
     HwHead := Dma_mRingSeekahead R (HwHead R) (min BdLimit (HwCnt R))\<rparr>"
  have "Dma_BdRingForceFromHw R BdLimit = (min BdLimit (HwCnt R), R', HwHead R)"
    using nz False by (simp add: Dma_BdRingForceFromHw_def Let_def loop R'_def)
  moreover have "unat (min BdLimit (HwCnt R)) \<le> unat (HwCnt R)" by (simp add: min_def word_le_nat_alt)
  moreover have "HwCnt R \<le> BdLimit \<Longrightarrow> HwCnt R' = 0" by (simp add: R'_def min_def)
  ultimately show ?thesis using take_hw_refines[OF inv _ R'_def] False by auto
qed

section \<open>Returning descriptors to the free group\<close>

definition bd_is_clear :: "mach \<Rightarrow> u32 \<Rightarrow> bool" where
  "bd_is_clear m a \<longleftrightarrow> Dma_mBdRead a DMA_BD_BUFL_STATUS_OFFSET m = 0
     \<and> Dma_mBdRead a DMA_BD_BUFL_CTRL_OFFSET m = 0"

text \<open>The words \<open>Dma_BdRingFree\<close> clears: status and control of each descriptor of the set.\<close>

definition freed_words :: "Dma_BdRing \<Rightarrow> nat list \<Rightarrow> u32 set" where
  "freed_words R js = (\<Union>j\<in>set js. {bd_addr R j + DMA_BD_BUFL_STATUS_OFFSET,
                                      bd_addr R j + DMA_BD_BUFL_CTRL_OFFSET})"

lemma free_loop_mem:
  assumes "geom R"
  shows "mem (free_loop R k (bd_addr R (q mod ring_n R)) m) x
    = (if x \<in> freed_words R (cyc (ring_n R) q k) then 0 else mem m x)"
proof (induction k arbitrary: q m)
  case 0
  then show ?case by (simp add: freed_words_def)
next
  case (Suc k)
  let ?n = "ring_n R"
  have nxt: "Dma_mBdRingNext R (bd_addr R (q mod ?n)) = bd_addr R (Suc q mod ?n)"
    using ringNext_bd_addr[OF assms, of "q mod ?n"] geom_n_pos[OF assms] by (simp add: mod_Suc_eq)
  show ?case using Suc.IH[of "Suc q"]
    by (auto simp: nxt cyc_Suc freed_words_def Dma_mBdWrite_def hwc)
qed

lemma free_loop_env:
  "dev (free_loop R k a m) = dev m" "dma_map (free_loop R k a m) = dma_map m"
  "\<exists>es. evs (free_loop R k a m) = es @ evs m \<and> (\<forall>e\<in>set es. \<exists>a v. e = WrBd a v)"
proof -
  show "dev (free_loop R k a m) = dev m" "dma_map (free_loop R k a m) = dma_map m"
    by (induction k arbitrary: a m) (simp_all add: Dma_mBdWrite_def)
  show "\<exists>es. evs (free_loop R k a m) = es @ evs m \<and> (\<forall>e\<in>set es. \<exists>a v. e = WrBd a v)"
  proof (induction k arbitrary: a m)
    case 0
    then show ?case by simp
  next
    case (Suc k)
    let ?m = "Dma_mBdWrite a DMA_BD_BUFL_CTRL_OFFSET 0 (Dma_mBdWrite a DMA_BD_BUFL_STATUS_OFFSET 0 m)"
    obtain es where "evs (free_loop R k (Dma_mBdRingNext R a) ?m) = es @ evs ?m"
      "\<forall>e\<in>set es. \<exists>a v. e = WrBd a v" using Suc by blast
    then show ?case
      by (intro exI[of _ "es @ [WrBd (a + DMA_BD_BUFL_CTRL_OFFSET) 0, WrBd (a + DMA_BD_BUFL_STATUS_OFFSET) 0]"])
        (auto simp: Dma_mBdWrite_def)
  qed
qed

lemma post_segment:
  assumes "ring_inv R" "NumBd \<le> PostCnt R"
  shows "take (unat NumBd) (gpost (ring_groups R)) = cyc (ring_n R) (post_idx R) (unat NumBd)"
  using assms(2) by (simp add: ring_groups_def Let_def take_cyc word_le_nat_alt)

lemma free_refines:
  assumes inv: "ring_inv R" and k: "NumBd \<le> PostCnt R" and ptr: "PostHead R = BdSetPtr"
  shows "\<exists>R' m'. Dma_BdRingFree R NumBd BdSetPtr m = (XST_SUCCESS, R', m') \<and> ring_inv R'
     \<and> ring_groups R' = spec_free (unat NumBd) (ring_groups R)
     \<and> (\<forall>x. mem m' x = (if x \<in> freed_words R (take (unat NumBd) (gpost (ring_groups R)))
                          then 0 else mem m x))"
proof (cases "NumBd = 0")
  case True
  then show ?thesis using inv by (simp add: Dma_BdRingFree_def spec_free_def freed_words_def)
next
  case False
  let ?k = "unat NumBd" and ?n = "ring_n R"
  define q where "q = post_idx R"
  have at: "ring_at R q" using inv by (simp add: ring_inv_def q_def)
  have k': "?k \<le> unat (PostCnt R)" using k by (simp add: word_le_nat_alt)
  have le: "?k \<le> ?n" using at k' by (simp add: ring_at_def)
  have qn: "q < ?n" "geom R" using at by (simp_all add: ring_at_def)
  have ptr': "BdSetPtr = bd_addr R (q mod ?n)" using at ptr by (simp add: ring_at_def)
  define R' where "R' = R\<lparr>FreeCnt := FreeCnt R + NumBd, PostCnt := PostCnt R - NumBd,
     PostHead := Dma_mRingSeekahead R (PostHead R) NumBd\<rparr>"
  have free: "unat (FreeCnt R + NumBd) = unat (FreeCnt R) + ?k"
    using at k' by (intro unat_add_sum[of _ _ R]) (simp add: ring_at_def)
  have post: "unat (PostCnt R - NumBd) = unat (PostCnt R) - ?k" by (rule unat_sub_le[OF k])
  have ph: "PostHead R' = bd_addr R ((q + ?k) mod ?n)"
    using seek_mod(1)[OF qn(2) le, of q] at by (simp add: R'_def ring_at_def)
  have sum: "((q + ?k) mod ?n + (unat (PostCnt R) - ?k) + c) mod ?n = (q + unat (PostCnt R) + c) mod ?n" for c
  proof -
    have "((q + ?k) mod ?n + ((unat (PostCnt R) - ?k) + c)) mod ?n
      = (q + ?k + ((unat (PostCnt R) - ?k) + c)) mod ?n" by (rule mod_add_left_eq)
    then show ?thesis using k' by (simp add: add.assoc)
  qed
  have at': "ring_at R' ((q + ?k) mod ?n)" using at k' ph sum[of 0] sum[of "unat (HwCnt R)"]
      sum[of "unat (HwCnt R) + unat (PreCnt R)"]
    by (simp add: ring_at_def R'_def post free add.assoc)
  have gr: "groups_at R' ((q + ?k) mod ?n) = spec_free ?k (groups_at R q)"
  proof -
    have c: "cyc ?n ((q + ?k) mod ?n + (unat (PostCnt R) - ?k) + c) j = cyc ?n (q + unat (PostCnt R) + c) j" for c j
      by (metis cyc_mod sum)
    have "q + (unat (PostCnt R) + (unat (HwCnt R) + (unat (PreCnt R) + unat (FreeCnt R)))) = q + ?n"
      using at by (simp add: ring_at_def)
    then have "cyc ?n (q + (unat (PostCnt R) + (unat (HwCnt R) + (unat (PreCnt R) + unat (FreeCnt R))))) ?k
        = cyc ?n q ?k"
      by (metis cyc_mod mod_add_self2)
    then show ?thesis using k' c[of 0] c[of "unat (HwCnt R)"] c[of "unat (HwCnt R) + unat (PreCnt R)"]
        c[of "unat (HwCnt R) + (unat (PreCnt R) + unat (FreeCnt R))"]
      by (simp add: groups_at_def R'_def post free Let_def spec_free_def take_cyc drop_cyc add.assoc
          cyc_add)
  qed
  have "Dma_BdRingFree R NumBd BdSetPtr m = (XST_SUCCESS, R', free_loop R ?k BdSetPtr m)"
  proof -
    have "\<not> (PostCnt R < NumBd \<or> PostHead R \<noteq> BdSetPtr)" using k ptr by auto
    then show ?thesis using False by (simp add: Dma_BdRingFree_def Let_def R'_def)
  qed
  moreover have "take ?k (gpost (ring_groups R)) = cyc ?n q ?k"
    using post_segment[OF inv k] by (simp add: q_def)
  ultimately show ?thesis using at at' gr free_loop_mem[OF qn(2), of ?k q m]
    by (simp add: ring_at_groups ring_at_inv ptr')
qed

lemma free_refuses:
  "NumBd \<noteq> 0 \<Longrightarrow> PostCnt R < NumBd \<or> PostHead R \<noteq> BdSetPtr \<Longrightarrow>
   Dma_BdRingFree R NumBd BdSetPtr m = (XST_DMA_SG_LIST_ERROR, R, m)"
  by (simp add: Dma_BdRingFree_def)


section \<open>The ring provides the pipeline interface\<close>

text \<open>
  One call of the ring's interface, in the state of ring and machine: \<open>None\<close> when the call
  reports failure. \<open>ToHw\<close> and \<open>Free\<close> are called the way the driver calls them, with the
  descriptor set that starts at the group's head; \<open>FromHw k\<close> stands for a retrieval that
  returned \<open>k\<close> descriptors, \<open>None\<close> if the hardware has not completed that many.
\<close>

fun ring_step :: "ring_op \<Rightarrow> Dma_BdRing \<times> mach \<Rightarrow> (Dma_BdRing \<times> mach) option" where
  "ring_step (Alloc k) (R, m) =
     (if k < 2 ^ 32
      then let (c, R', p) = Dma_BdRingAlloc R (of_nat k) in if c = XST_SUCCESS then Some (R', m) else None
      else None)"
| "ring_step (UnAlloc k) (R, m) =
     (if k < 2 ^ 32
      then let (c, R') = Dma_BdRingUnAlloc R (of_nat k) (PreHead R)
           in if c = XST_SUCCESS then Some (R', m) else None
      else None)"
| "ring_step (ToHw k) (R, m) =
     (if k < 2 ^ 32
      then let (c, R', m') = Dma_BdRingToHw R (of_nat k) (PreHead R) m
           in if c = XST_SUCCESS then Some (R', m') else None
      else None)"
| "ring_step (FromHw k) (R, m) =
     (let (n, R', p) = Dma_BdRingFromHw R (of_nat k) m in if unat n = k then Some (R', m) else None)"
| "ring_step (Free k) (R, m) =
     (if k < 2 ^ 32
      then let (c, R', m') = Dma_BdRingFree R (of_nat k) (PostHead R) m
           in if c = XST_SUCCESS then Some (R', m') else None
      else None)"

lemma ring_step_refines:
  assumes inv: "ring_inv R" and st: "ring_step a (R, m) = Some (R', m')"
  shows "ring_inv R' \<and> ring_groups R' = spec_step a (ring_groups R) \<and> spec_enabled a (ring_groups R)"
proof (cases a)
  case (Alloc k)
  then have k: "k < 2 ^ 32" "(of_nat k :: u32) \<le> FreeCnt R" using st
    by (auto split: if_splits prod.splits simp: Dma_BdRingAlloc_def not_less[symmetric] hwc)
  have "k \<le> unat (FreeCnt R)" using k by (simp add: word_le_nat_alt)
  then show ?thesis using alloc_refines[OF inv k(2)] st Alloc k(1) by auto
next
  case (UnAlloc k)
  then have k: "k < 2 ^ 32" "(of_nat k :: u32) \<le> PreCnt R" using st
    by (auto split: if_splits prod.splits simp: Dma_BdRingUnAlloc_def not_less[symmetric] hwc)
  have "k \<le> unat (PreCnt R)" using k by (simp add: word_le_nat_alt)
  then show ?thesis using unalloc_refines[OF inv k(2), of "PreHead R"] st UnAlloc k(1) by auto
next
  case (ToHw k)
  then have k: "k < 2 ^ 32" and run: "Dma_BdRingToHw R (of_nat k) (PreHead R) m = (XST_SUCCESS, R', m')"
    using st by (auto split: if_splits prod.splits)
  show ?thesis
  proof (cases "k = 0")
    case True
    then show ?thesis using run ToHw inv by (simp add: Dma_BdRingToHw_def spec_tohw_def)
  next
    case False
    then have nz: "(of_nat k :: u32) \<noteq> 0" using k by (metis unat_0 unat_of_nat32)
    have acc: "tohw_accepts R m (of_nat k) (PreHead R)"
      using tohw_rejected[OF inv nz, of m "PreHead R"] run by auto
    then have "k \<le> unat (PreCnt R)" using k by (simp add: tohw_accepts_def word_le_nat_alt)
    moreover obtain R2 m2 where "Dma_BdRingToHw R (of_nat k) (PreHead R) m = (XST_SUCCESS, R2, m2)"
      "ring_inv R2" "ring_groups R2 = spec_tohw (unat (of_nat k :: u32)) (ring_groups R)"
      using tohw_accepted[OF inv nz acc] by blast
    ultimately show ?thesis using ToHw run k by simp
  qed
next
  case (FromHw k)
  have "length (hw_complete R m (unat (of_nat k :: u32))) \<le> unat (HwCnt R)"
    using hw_complete_le[of R m] by simp
  moreover from this have "unat (of_nat (length (hw_complete R m (unat (of_nat k :: u32)))) :: u32)
      = length (hw_complete R m (unat (of_nat k :: u32)))"
    by (intro unat_of_nat32) (metis le_less_trans unat_lt32)
  ultimately show ?thesis using fromhw_refines[OF inv, of "of_nat k" m] st FromHw
    by (auto split: if_splits)
next
  case (Free k)
  then have k: "k < 2 ^ 32" and run: "Dma_BdRingFree R (of_nat k) (PostHead R) m = (XST_SUCCESS, R', m')"
    using st by (auto split: if_splits prod.splits)
  have le: "(of_nat k :: u32) \<le> PostCnt R"
    using run free_refuses[of "of_nat k" R "PostHead R" m] by (force simp: hwc)
  then have "k \<le> unat (PostCnt R)" using k by (simp add: word_le_nat_alt)
  then show ?thesis using free_refines[OF inv le refl, of m] run Free k by auto
qed

interpretation ring: bd_pipeline "\<lambda>s. ring_inv (fst s)" "\<lambda>s. ring_groups (fst s)" ring_step
proof
  fix s s' :: "Dma_BdRing \<times> mach" and a
  assume inv: "ring_inv (fst s)"
  then show "distinct (all_bds (ring_groups (fst s)))" by (rule ring_distinct)
  assume "ring_step a s = Some s'"
  then have "ring_step a (fst s, snd s) = Some (fst s', snd s')" by simp
  note r = ring_step_refines[OF inv this]
  show "ring_inv (fst s')" "ring_groups (fst s') = spec_step a (ring_groups (fst s))"
    "spec_enabled a (ring_groups (fst s))"
    using r by simp_all
qed

end
