(* ===== verification/BdRingInit.thy ===== *)
theory BdRingInit
  imports BdRingRefine
begin

text \<open>
  Creation, start, consistency check and alignment of a descriptor ring: \<open>Dma_BdRingCreate\<close>
  establishes the invariant of \<open>BdRingInv\<close>, \<open>Dma_BdRingCheck\<close> decides the part of it that it
  can see, and \<open>Dma_BdRingStart\<close> publishes the ring to the hardware.
\<close>

section \<open>Powers of two\<close>

lemma nat_and_pred_power:
  "0 < n \<Longrightarrow> n AND (n - 1) = 0 \<Longrightarrow> \<exists>k. n = (2 :: nat) ^ k"
proof (induction n rule: less_induct)
  case (less n)
  show ?case
  proof (cases "even n")
    case True
    then obtain h where h: "n = 2 * h" by blast
    then have "0 < h" using less.prems(1) by simp
    then obtain j where j: "h = Suc j" by (cases h) auto
    have "2 * h - 1 = 2 * j + 1" using j by simp
    then have "(2 * h) AND (2 * h - 1) = 2 * (h AND j)"
      by (simp add: and_nat_rec[of "2 * h"])
    then have "h AND (h - 1) = 0" using less.prems(2) h j by simp
    then obtain k where "h = 2 ^ k" using less.IH[of h] h \<open>0 < h\<close> by auto
    then have "n = 2 ^ Suc k" using h by simp
    then show ?thesis by blast
  next
    case False
    then obtain h where h: "n = 2 * h + 1" by (metis oddE)
    have "Suc (2 * h) AND (2 * h) = 2 * h" by (simp add: and_nat_rec[of "Suc (2 * h)"])
    then have "n = 2 ^ 0" using less.prems(2) h by simp
    then show ?thesis by blast
  qed
qed

lemma unat_pow32: "k < 32 \<Longrightarrow> unat (2 ^ k :: u32) = 2 ^ k"
  using unat_of_nat32[of "2 ^ k"] power_strict_increasing[of k 32 "2 :: nat"] by simp

lemma align_power:
  assumes "64 \<le> A" "(A - 1) AND (A :: u32) = 0"
  shows "\<exists>k. 6 \<le> k \<and> k < 32 \<and> A = 2 ^ k"
proof -
  have A: "64 \<le> unat A" using assms(1) by (simp add: word_le_nat_alt)
  then have "unat (A - 1) = unat A - 1" by (simp add: unat_sub word_le_nat_alt)
  then have "unat A AND (unat A - 1) = 0"
    using assms(2) by (metis and.commute unat_0 unsigned_and_eq)
  then obtain k where k: "unat A = 2 ^ k" using nat_and_pred_power[of "unat A"] A by auto
  have "(2 :: nat) ^ k < 2 ^ 32" using k unat_lt32[of A] by simp
  then have k32: "k < 32" by (rule power_less_imp_less_exp[rotated]) simp
  have "(2 :: nat) ^ 6 \<le> 2 ^ k" using A k by simp
  then have "6 \<le> k" by (rule power_le_imp_le_exp[rotated]) simp
  moreover have "A = 2 ^ k"
    by (rule word_unat_eq_iff[THEN iffD2]) (simp add: k unat_pow32 k32)
  ultimately show ?thesis using k32 by blast
qed

text \<open>The distance between descriptors is the alignment.\<close>

lemma separation_eq:
  assumes "64 \<le> A" "(A - 1) AND (A :: u32) = 0"
  shows "(4 * DMA_BD_SW_NUM_WORDS + (A - 1)) AND NOT (A - 1) = A"
proof -
  obtain k where k: "6 \<le> k" "k < 32" "A = 2 ^ k" using align_power[OF assms] by blast
  have Am: "A - 1 = mask k" by (simp add: k(3) mask_eq_exp_minus_1)
  let ?x = "63 + A"
  have uA: "unat A = 2 ^ k" by (simp add: k unat_pow32)
  have "(2 :: nat) ^ k \<le> 2 ^ 31" using k(2) by (intro power_increasing) auto
  then have ux: "unat ?x = 63 + 2 ^ k" by (subst unat_add_no_overflow) (simp_all add: uA)
  have "(2 :: nat) ^ 6 \<le> 2 ^ k" using k(1) by (intro power_increasing) auto
  then have "(63 + 2 ^ k) div (2 :: nat) ^ k = 1" by (simp add: div_add_self2)
  then have "unat (drop_bit k ?x) = 1" by (metis drop_bit_eq_div unat_drop_bit_eq ux)
  then have "drop_bit k ?x = 1" by (metis unat_1 word_unat_eq_iff)
  moreover have "?x AND NOT (mask k) = push_bit k (drop_bit k ?x)"
    by (rule bit_word_eqI) (auto simp: bit_simps)
  moreover have "4 * DMA_BD_SW_NUM_WORDS + (A - 1) = ?x" by (simp add: hwc)
  ultimately show ?thesis unfolding Am by (simp add: k(3) push_bit_eq_mult)
qed


section \<open>Creation\<close>

lemma create_links_spec:
  assumes "0 < unat sep" "unat sep * k < 2 ^ 32"
  shows "\<exists>m'. create_links k sep va pa m = (va + sep * of_nat k, m')
     \<and> (\<forall>i<k. mem m' (va + sep * of_nat i + DMA_BD_NDESC_OFFSET) = pa + sep * of_nat i)
     \<and> (\<forall>x. (\<forall>i<k. x \<noteq> va + sep * of_nat i + DMA_BD_NDESC_OFFSET) \<longrightarrow> mem m' x = mem m x)"
  using assms(2)
proof (induction k arbitrary: va pa m)
  case 0
  then show ?case by simp
next
  case (Suc k)
  let ?m = "Dma_mBdWrite va DMA_BD_NDESC_OFFSET pa m"
  have "unat sep * k < 2 ^ 32" using Suc.prems by simp
  from Suc.IH[OF this, of "va + sep" "pa + sep" ?m] obtain m' where m':
    "create_links k sep (va + sep) (pa + sep) ?m = (va + sep + sep * of_nat k, m')"
    "\<forall>i<k. mem m' (va + sep + sep * of_nat i + DMA_BD_NDESC_OFFSET) = pa + sep + sep * of_nat i"
    "\<forall>x. (\<forall>i<k. x \<noteq> va + sep + sep * of_nat i + DMA_BD_NDESC_OFFSET) \<longrightarrow> mem m' x = mem ?m x"
    by blast
  have shift: "a + sep + sep * of_nat i = a + sep * of_nat (Suc i)" for a i
    by (simp add: algebra_simps)
  have "sep * of_nat (Suc i) \<noteq> 0" if "i < k" for i
  proof
    assume z: "sep * of_nat (Suc i) = 0"
    have "unat sep * Suc i \<le> unat sep * Suc k" using that by (intro mult_le_mono2) simp
    then have b: "unat sep * Suc i < 2 ^ 32" using Suc.prems by linarith
    have "Suc i \<le> unat sep * Suc i" using assms(1) by (cases "unat sep") auto
    then have "unat (sep * of_nat (Suc i)) = unat sep * Suc i"
      using b by (simp only: unat_mult32 unat_of_nat32 mod_less le_less_trans)
    then show False using z assms(1) by simp
  qed
  then have "mem m' (va + DMA_BD_NDESC_OFFSET) = pa" using m'(3) by (simp add: shift)
  moreover have "mem m' x = mem m x"
    if "\<forall>i<Suc k. x \<noteq> va + sep * of_nat i + DMA_BD_NDESC_OFFSET" for x
  proof -
    have "x \<noteq> va + DMA_BD_NDESC_OFFSET" using that[rule_format, of 0] by simp
    moreover have "\<forall>i<k. x \<noteq> va + sep + sep * of_nat i + DMA_BD_NDESC_OFFSET"
      using that[rule_format, of "Suc _"] by (simp only: shift) blast
    ultimately show ?thesis using m'(3) by simp
  qed
  ultimately show ?case using m'(1,2)
    by (intro exI[of _ m']) (auto simp: shift less_Suc_eq_0_disj simp del: of_nat_Suc)
qed

text \<open>
  Every descriptor's link field holds the physical address of its successor around the ring.
\<close>

definition linked :: "Dma_BdRing \<Rightarrow> mach \<Rightarrow> bool" where
  "linked R m \<longleftrightarrow> (\<forall>i<ring_n R. Dma_mBdRead (bd_addr R i) DMA_BD_NDESC_OFFSET m
     = Dma_mVirtToPhys R (bd_addr R (Suc i mod ring_n R)))"

definition create_params_ok :: "u32 \<Rightarrow> u32 \<Rightarrow> u32 \<Rightarrow> u32 \<Rightarrow> bool" where
  "create_params_ok PhysAddr VirtAddr Alignment BdCount \<longleftrightarrow>
     DMA_BD_MINIMUM_ALIGNMENT \<le> Alignment \<and> (Alignment - 1) AND Alignment = 0
     \<and> PhysAddr mod Alignment = 0 \<and> VirtAddr mod Alignment = 0 \<and> BdCount \<noteq> 0"

text \<open>
  The span check of the code is the right one as long as the product of alignment and count
  does not wrap.
\<close>

lemma span_check:
  fixes V A C :: u32
  assumes "unat A * unat C < 2 ^ 32" "64 \<le> unat A" "C \<noteq> 0"
  shows "V > V + A * C - 1 \<longleftrightarrow> 2 ^ 32 < unat V + unat A * unat C"
proof -
  have AC: "unat (A * C) = unat A * unat C" using assms(1) by (simp only: unat_mult32 mod_less)
  have "0 < unat C" using assms(3) by (simp add: unat_gt_0)
  then have "unat A * 1 \<le> unat A * unat C" by (intro mult_le_mono2) simp
  then have pos: "64 \<le> unat (A * C)" using assms(2) AC by linarith
  then have "unat (A * C - 1) = unat (A * C) - 1" by (simp add: unat_sub word_le_nat_alt)
  moreover have "V + A * C - 1 = V + (A * C - 1)" by simp
  ultimately have "unat (V + A * C - 1) = (unat V + (unat A * unat C - 1)) mod 2 ^ 32"
    by (simp only: unat_add32 AC)
  moreover define p where "p = unat A * unat C"
  ultimately have u: "unat (V + A * C - 1) = (unat V + (p - 1)) mod 2 ^ 32" by simp
  have p: "64 \<le> p" "p < 2 ^ 32" using pos AC assms(1) by (simp_all add: p_def)
  show ?thesis
  proof (cases "unat V + (p - 1) < 2 ^ 32")
    case True
    then have "unat (V + A * C - 1) = unat V + (p - 1)" using u by simp
    then show ?thesis unfolding word_less_nat_alt p_def[symmetric] using True p by linarith
  next
    case False
    then have "unat (V + A * C - 1) = unat V + (p - 1) - 2 ^ 32"
      using u p unat_lt32[of V] by (simp add: mod_if)
    then show ?thesis unfolding word_less_nat_alt p_def[symmetric]
      using p False unat_lt32[of V] by linarith
  qed
qed

text \<open>
  Creation: the ring satisfies the invariant with every descriptor free from index 0 on, is
  stopped, all descriptors are zero but for the links, and the links close the ring.
\<close>

lemma create_succeeds:
  assumes par: "create_params_ok P V A C" and fit: "unat V + unat A * unat C \<le> 2 ^ 32"
    and nw: "unat A * unat C < 2 ^ 32"
  shows "\<exists>R' m'. Dma_BdRingCreate R P V A C m = (XST_SUCCESS, R', m') \<and> ring_inv R'
     \<and> ring_groups R' = \<lparr>gpost = [], ghw = [], gpre = [], gfree = [0..<unat C]\<rparr>
     \<and> RunState R' = XST_DMA_SG_IS_STOPPED \<and> linked R' m'
     \<and> FirstBdAddr R' = V \<and> FirstBdPhysAddr R' = P \<and> Separation R' = A \<and> AllCnt R' = C
     \<and> (\<forall>i<unat C. \<forall>off. off < 64 \<longrightarrow> off \<noteq> DMA_BD_NDESC_OFFSET \<longrightarrow> mem m' (bd_addr R' i + off) = 0)"
proof -
  let ?n = "unat C"
  have A: "64 \<le> A" "(A - 1) AND A = 0" using par by (simp_all add: create_params_ok_def hwc)
  have A64: "64 \<le> unat A" using A(1) by (simp add: word_le_nat_alt)
  have C: "C \<noteq> 0" and n: "0 < ?n" using par by (simp_all add: create_params_ok_def unat_gt_0)
  have "\<not> V > V + A * C - 1" using span_check[OF nw A64 C] fit by simp
  define m0 where "m0 = mem_clear V (A * C) m"
  have pos: "0 < unat A" using A64 by simp
  have "unat A * (?n - 1) \<le> unat A * ?n" by (intro mult_le_mono2) simp
  then have "unat A * (?n - 1) < 2 ^ 32" using nw by linarith
  from create_links_spec[OF pos this, of V "P + A" m0] obtain m1 where m1:
    "create_links (?n - 1) A V (P + A) m0 = (V + A * of_nat (?n - 1), m1)"
    "\<forall>i<?n - 1. mem m1 (V + A * of_nat i + DMA_BD_NDESC_OFFSET) = P + A + A * of_nat i"
    "\<forall>x. (\<forall>i<?n - 1. x \<noteq> V + A * of_nat i + DMA_BD_NDESC_OFFSET) \<longrightarrow> mem m1 x = mem m0 x"
    by blast
  define L where "L = V + A * of_nat (?n - 1)"
  define m' where "m' = Dma_mBdWrite L DMA_BD_NDESC_OFFSET P m1"
  define R' where "R' = (ring_clear_counts R)\<lparr>Separation := A, RunState := XST_DMA_SG_IS_STOPPED,
      FirstBdAddr := V, FirstBdPhysAddr := P, LastBdAddr := L, Length := L - V + A, AllCnt := C,
      FreeCnt := C, FreeHead := V, PreHead := V, HwHead := V, HwTail := V, PostHead := V,
      BdaRestart := P\<rparr>"
  have "\<not> A < DMA_BD_MINIMUM_ALIGNMENT" using par by (simp add: create_params_ok_def not_less)
  then have run: "Dma_BdRingCreate R P V A C m = (XST_SUCCESS, R', m')"
    using par \<open>\<not> V > V + A * C - 1\<close> m1(1) separation_eq[OF A]
    by (simp add: Dma_BdRingCreate_def create_params_ok_def Let_def m0_def L_def m'_def R'_def)
  have geomR: "geom R'" and nR: "ring_n R' = ?n" and fa: "FirstBdAddr R' = V" "Separation R' = A"
    using A64 C n fit nw
    by (simp_all add: geom_def R'_def ring_n_def L_def of_nat_diff algebra_simps)
  have ba: "bd_addr R' i = V + A * of_nat i" for i by (simp add: bd_addr_def R'_def)
  have at: "ring_at R' 0" using geomR n
    by (simp add: ring_at_def nR) (simp add: R'_def ring_clear_counts_def bd_addr_def)
  have gr: "ring_groups R' = \<lparr>gpost = [], ghw = [], gpre = [], gfree = [0..<unat C]\<rparr>"
  proof -
    have "cyc ?n 0 ?n = [0..<?n]" by (rule nth_equalityI) (simp_all add: nth_cyc)
    then show ?thesis by (simp add: ring_at_groups[OF at] groups_at_def nR Let_def)
      (simp add: R'_def ring_clear_counts_def)
  qed
  have link: "mem m' (bd_addr R' i + DMA_BD_NDESC_OFFSET) = Dma_mVirtToPhys R' (bd_addr R' (Suc i mod ?n))"
    if "i < ?n" for i
  proof (cases "i = ?n - 1")
    case True
    then show ?thesis using n by (simp add: m'_def L_def Dma_mVirtToPhys_def ba) (simp add: R'_def)
  next
    case False
    then have i: "i < ?n - 1" "Suc i < ?n" using that by auto
    then have "bd_addr R' i \<noteq> bd_addr R' (?n - 1)" using bd_addr_inj[OF geomR] that nR by simp
    then have "mem m' (bd_addr R' i + DMA_BD_NDESC_OFFSET) = P + A + A * of_nat i"
      using m1(2) i by (simp add: m'_def L_def ba)
    then show ?thesis using i by (simp add: Dma_mVirtToPhys_def ba fa) (simp add: R'_def algebra_simps)
  qed
  have zero: "mem m' (bd_addr R' i + off) = 0" if "i < ?n" "off < 64" "off \<noteq> DMA_BD_NDESC_OFFSET" for i off
  proof -
    have uo: "unat off < 64" using that(2) by (simp add: word_less_nat_alt)
    have ne: "bd_addr R' i + off \<noteq> bd_addr R' j + DMA_BD_NDESC_OFFSET" if "j < ?n" for j
      using bd_word_neq[OF geomR, of i j off DMA_BD_NDESC_OFFSET] that \<open>i < ?n\<close> uo \<open>off \<noteq> _\<close>
      by (cases "i = j") (simp_all add: nR hwc)
    then have "mem m' (bd_addr R' i + off) = mem m0 (bd_addr R' i + off)"
      using m1(3) n ne[of "?n - 1"] by (simp only: m'_def L_def mem_BdWrite fun_upd_apply flip: ba) simp
    moreover have "bd_addr R' i + off - V < A * C"
    proof -
      have "unat (A * of_nat i) = unat A * i" using unat_sep_mult[OF geomR, of i] that(1) by (simp add: nR fa)
      moreover have "unat A * Suc i \<le> unat A * ?n" using that(1) by (intro mult_le_mono2) simp
      ultimately have "unat (A * of_nat i) + unat off < unat A * ?n" using uo A64 by simp
      moreover from this have "unat (A * of_nat i + off) = unat (A * of_nat i) + unat off"
        using nw by (intro unat_add_no_overflow) linarith
      moreover have "unat (A * C) = unat A * ?n" using nw by (simp only: unat_mult32 mod_less)
      moreover have "bd_addr R' i + off - V = A * of_nat i + off" by (simp add: ba)
      ultimately show ?thesis by (simp only: word_less_nat_alt)
    qed
    ultimately show ?thesis by (simp add: m0_def)
  qed
  have "linked R' m'" using link by (simp add: linked_def nR Dma_mBdRead_def)
  moreover have "FirstBdPhysAddr R' = P" "AllCnt R' = C" "RunState R' = XST_DMA_SG_IS_STOPPED"
    by (simp_all add: R'_def)
  ultimately show ?thesis using run ring_at_inv[OF at] gr zero fa
    by (intro exI[of _ R'] exI[of _ m']) simp
qed

text \<open>All other parameters are refused, and leave a ring that nothing can be done with.\<close>

lemma create_refuses:
  assumes "\<not> create_params_ok P V A C \<or> 2 ^ 32 < unat V + unat A * unat C" "unat A * unat C < 2 ^ 32"
  shows "\<exists>c R'. Dma_BdRingCreate R P V A C m = (c, R', m) \<and> AllCnt R' = 0 \<and> FreeCnt R' = 0
    \<and> c = (if create_params_ok P V A C then XST_DMA_SG_LIST_ERROR else XST_INVALID_PARAM)"
proof (cases "create_params_ok P V A C")
  case True
  then have A: "64 \<le> A" "(A - 1) AND A = 0" "C \<noteq> 0" by (simp_all add: create_params_ok_def hwc)
  then have "64 \<le> unat A" by (simp add: word_le_nat_alt)
  then have "V > V + A * C - 1" using span_check[OF assms(2) _ A(3)] assms(1) True by simp
  then show ?thesis using True separation_eq[OF A(1,2)]
    by (auto simp: Dma_BdRingCreate_def create_params_ok_def Let_def not_less ring_clear_counts_def)
next
  case False
  then show ?thesis
    by (auto simp: Dma_BdRingCreate_def create_params_ok_def Let_def not_less ring_clear_counts_def
        split: if_splits)
qed


section \<open>The consistency check\<close>

lemma check_links_spec:
  "check_links k R va pa m =
     (if \<forall>i<k. Dma_mBdRead (va + Separation R * of_nat i) DMA_BD_NDESC_OFFSET m = pa + Separation R * of_nat i
      then Some (va + Separation R * of_nat k) else None)"
proof (induction k arbitrary: va pa)
  case 0
  then show ?case by simp
next
  case (Suc k)
  have shift: "a + Separation R + Separation R * of_nat i = a + Separation R * of_nat (Suc i)" for a i
    by (simp add: algebra_simps)
  show ?case
  proof (cases "Dma_mBdRead va DMA_BD_NDESC_OFFSET m = pa")
    case True
    then have "check_links (Suc k) R va pa m = check_links k R (va + Separation R) (pa + Separation R) m"
      by simp
    then show ?thesis unfolding Suc.IH shift using True
      by (simp only: All_less_Suc2 of_nat_0 mult_zero_right add_0_right) simp
  next
    case False
    then show ?thesis by (auto intro!: exI[of _ 0])
  qed
qed

definition heads_inside :: "Dma_BdRing \<Rightarrow> bool" where
  "heads_inside R \<longleftrightarrow> \<not> outside_ring R (FreeHead R) \<and> \<not> outside_ring R (PreHead R)
     \<and> \<not> outside_ring R (HwHead R) \<and> \<not> outside_ring R (HwTail R) \<and> \<not> outside_ring R (PostHead R)"

lemma check_decides:
  assumes g: "geom R"
  shows "Dma_BdRingCheck R m = XST_SUCCESS \<longleftrightarrow> RunState R = XST_DMA_SG_IS_STOPPED \<and> heads_inside R
     \<and> HwCnt R + PreCnt R + FreeCnt R + PostCnt R = AllCnt R \<and> linked R m"
proof -
  let ?n = "ring_n R" and ?rd = "\<lambda>i. Dma_mBdRead (bd_addr R i) DMA_BD_NDESC_OFFSET m"
  obtain k where k: "?n = Suc k" using geom_n_pos[OF g] by (cases ?n) auto
  have uk: "unat (AllCnt R) - 1 = k" using k by (simp add: ring_n_def)
  have "linked R m \<longleftrightarrow> (\<forall>i<k. ?rd i = Dma_mVirtToPhys R (bd_addr R (Suc i))) \<and> ?rd k = FirstBdPhysAddr R"
    unfolding linked_def k All_less_Suc
    by (auto simp: Dma_mVirtToPhys_def bd_addr_def)
  also have "(\<forall>i<k. ?rd i = Dma_mVirtToPhys R (bd_addr R (Suc i)))
      \<longleftrightarrow> (\<forall>i<k. ?rd i = FirstBdPhysAddr R + Separation R + Separation R * of_nat i)"
    by (simp add: Dma_mVirtToPhys_def bd_addr_def algebra_simps)
  finally have L: "linked R m \<longleftrightarrow> (\<forall>i<k. ?rd i = FirstBdPhysAddr R + Separation R + Separation R * of_nat i)
      \<and> ?rd k = FirstBdPhysAddr R" .
  have walk: "(case check_links (unat (AllCnt R) - 1) R (FirstBdAddr R) (FirstBdPhysAddr R + Separation R) m of
       None \<Rightarrow> XST_DMA_SG_LIST_ERROR
     | Some AddrV \<Rightarrow> if Dma_mBdRead AddrV DMA_BD_NDESC_OFFSET m \<noteq> FirstBdPhysAddr R
                     then XST_DMA_SG_LIST_ERROR else XST_SUCCESS) = XST_SUCCESS \<longleftrightarrow> linked R m"
    unfolding L check_links_spec uk by (auto simp: bd_addr_def hwc)
  have "AllCnt R \<noteq> 0" using k by (auto simp: ring_n_def)
  moreover have "XST_DMA_SG_IS_STOPPED \<noteq> XST_DMA_SG_IS_STARTED" by (simp add: hwc)
  moreover have "XST_IS_STARTED \<noteq> XST_SUCCESS" "XST_DMA_SG_LIST_ERROR \<noteq> XST_SUCCESS" by (simp_all add: hwc)
  ultimately show ?thesis unfolding Dma_BdRingCheck_def heads_inside_def walk[symmetric] by auto
qed

lemma ring_inv_heads: assumes "ring_inv R" shows "heads_inside R"
proof -
  note at = ring_invD(3)[OF assms] and g = ring_invD(1)[OF assms]
  have "\<not> outside_ring R (bd_addr R (j mod ring_n R))" for j
  proof -
    have j: "j mod ring_n R < ring_n R" "ring_n R - 1 < ring_n R" using geom_n_pos[OF g] by auto
    have "FirstBdAddr R \<le> bd_addr R (j mod ring_n R)"
      using bd_addr_le_iff[OF g geom_n_pos[OF g] j(1)] by simp
    moreover have "bd_addr R (j mod ring_n R) \<le> LastBdAddr R"
      unfolding LastBdAddr_eq[OF g] bd_addr_le_iff[OF g j] using j(1) by linarith
    ultimately show ?thesis by (simp add: outside_ring_def not_less)
  qed
  moreover have "post_idx R = post_idx R mod ring_n R" using ring_invD(2)[OF assms] by simp
  ultimately show ?thesis using at unfolding heads_inside_def ring_at_def by metis
qed

lemma ring_inv_counts: "ring_inv R \<Longrightarrow> HwCnt R + PreCnt R + FreeCnt R + PostCnt R = AllCnt R"
proof -
  assume inv: "ring_inv R"
  have "(of_nat (unat (PostCnt R) + unat (HwCnt R) + unat (PreCnt R) + unat (FreeCnt R)) :: u32)
      = of_nat (ring_n R)" by (simp only: ring_invD(4)[OF inv])
  then show ?thesis by (simp add: ring_n_def add.commute add.left_commute)
qed

lemma check_inv:
  "ring_inv R \<Longrightarrow> RunState R = XST_DMA_SG_IS_STOPPED \<Longrightarrow> linked R m \<Longrightarrow> Dma_BdRingCheck R m = XST_SUCCESS"
  by (simp add: check_decides ring_invD(1) ring_inv_heads ring_inv_counts)

section \<open>Start\<close>

lemma ring_run_frame [ring_frame]:
  "ring_inv (R\<lparr>RunState := s\<rparr>) = ring_inv R" "ring_groups (R\<lparr>RunState := s\<rparr>) = ring_groups R"
  by (simp_all add: ring_inv_def ring_at_def ring_groups_def post_idx_def)

lemma start_refuses: "AllCnt R = 0 \<Longrightarrow> Dma_BdRingStart R m = (XST_DMA_SG_NO_LIST, R, m)"
  by (simp add: Dma_BdRingStart_def)

lemma start_idempotent:
  "AllCnt R \<noteq> 0 \<Longrightarrow> RunState R = XST_DMA_SG_IS_STARTED \<Longrightarrow> Dma_BdRingStart R m = (XST_SUCCESS, R, m)"
  by (simp add: Dma_BdRingStart_def)

text \<open>
  The register accesses of a start, oldest first: both descriptor pointers at the restart
  address, a barrier, the enable bit set, a barrier, and then the work already queued.
\<close>

lemma start_publishes:
  assumes "AllCnt R \<noteq> 0" "RunState R \<noteq> XST_DMA_SG_IS_STARTED"
  shows "\<exists>v w m'. Dma_BdRingStart R m = (XST_SUCCESS, R\<lparr>RunState := XST_DMA_SG_IS_STARTED\<rparr>, m')
    \<and> mem m' = mem m
    \<and> rev (evs m') = rev (evs m) @
        [WrReg (ChanBase R + REG_DMA_ENG_NEXT_BD) (BdaRestart R),
         WrReg (ChanBase R + REG_SW_NEXT_BD) (BdaRestart R), Wmb,
         RdReg (ChanBase R + REG_DMA_ENG_CTRL_STATUS) v,
         WrReg (ChanBase R + REG_DMA_ENG_CTRL_STATUS) (v OR DMA_ENG_ENABLE), Wmb]
        @ (if HwCnt R > 0
           then [WrReg (ChanBase R + REG_SW_NEXT_BD) (Dma_mVirtToPhys R (HwTail R))] else [])
        @ (if IsRxChannel R \<noteq> 0 then [RdReg (ChanBase R + 0x18) w] else [])"
  using assms
  by (simp add: Dma_BdRingStart_def Let_def Dma_mWriteReg_def Dma_mEnable_def Dma_mReadReg_def
      XIo_In32_def Dma_mVirtToPhys_def split: prod.split)

section \<open>Alignment\<close>

lemma align_aligned:
  assumes "p \<noteq> 0" "s \<noteq> 0" "al \<le> s" "p mod 64 = 0"
  shows "Dma_BdRingAlign p s al d = (s div 64, d)"
proof -
  have "\<not> s < al" using assms(3) by simp
  then show ?thesis using assms by (simp add: Dma_BdRingAlign_def hwc)
qed

lemma align_moves:
  assumes "p \<noteq> 0" "s \<noteq> 0" "al \<le> s" "p mod 64 \<noteq> 0"
  shows "Dma_BdRingAlign p s al d = ((s - (64 - (p AND 0xFF))) div 64, 64 - (p AND 0xFF))"
proof -
  have "\<not> s < al" using assms(3) by simp
  then show ?thesis using assms by (simp add: Dma_BdRingAlign_def hwc Let_def)
qed

end
