(* ===== verification/RingProps.thy ===== *)
theory RingProps
  imports BdRingInit
begin

text \<open>
  The properties of the descriptor ring, each with a witness at a concrete ring: four
  descriptors of 64 bytes at virtual address 0x1000, bus address 0x9000.
\<close>

definition sample_ring :: Dma_BdRing where
  "sample_ring = \<lparr>ChanBase = 0x2000, IsRxChannel = 0, RunState = 515, FirstBdPhysAddr = 0x9000,
     FirstBdAddr = 0x1000, LastBdAddr = 0x10C0, Length = 0x100, Separation = 0x40,
     FreeHead = 0x1000, PreHead = 0x1000, HwHead = 0x1000, HwTail = 0x1000, PostHead = 0x1000,
     BdaRestart = 0x9000, FreeCnt = 4, PreCnt = 0, HwCnt = 0, PostCnt = 0, AllCnt = 4,
     BDerrs = 0, BDSerrs = 0\<rparr>"

text \<open>A memory in which every word reads as a complete packet of 64 bytes.\<close>

definition sample_mach :: mach where
  "sample_mach = \<lparr>mem = (\<lambda>_. 0xC1000040), evs = [], dev = (\<lambda>_ _. 0), dma_map = (\<lambda>va _. va)\<rparr>"

lemma sample_ring_inv: "ring_inv sample_ring"
  by (simp add: ring_inv_def ring_at_def geom_def ring_n_def post_idx_def bd_addr_def sample_ring_def)

text \<open>The same ring with the first two descriptors handed to the hardware, or completed.\<close>

definition sample_ring_hw :: Dma_BdRing where
  "sample_ring_hw = sample_ring\<lparr>FreeHead := 0x1080, PreHead := 0x1080, HwTail := 0x1080,
     FreeCnt := 2, HwCnt := 2\<rparr>"

definition sample_ring_post :: Dma_BdRing where
  "sample_ring_post = sample_ring\<lparr>FreeHead := 0x1080, PreHead := 0x1080, HwTail := 0x1080,
     HwHead := 0x1080, FreeCnt := 2, PostCnt := 2\<rparr>"

definition sample_ring_pre :: Dma_BdRing where
  "sample_ring_pre = sample_ring\<lparr>FreeHead := 0x1080, FreeCnt := 2, PreCnt := 2\<rparr>"

lemma sample_rings_inv: "ring_inv sample_ring_hw" "ring_inv sample_ring_post" "ring_inv sample_ring_pre"
  by (simp_all add: ring_inv_def ring_at_def geom_def ring_n_def post_idx_def bd_addr_def
      sample_ring_def sample_ring_hw_def sample_ring_post_def sample_ring_pre_def)

section \<open>All operations together\<close>

text \<open>
  C1: Every sequence of accepted operations on a well-formed ring (allocation, giving back,
  submission, retrieval, freeing, in any order and number) leaves a well-formed ring in which
  each of the ring's descriptors is in exactly one of the four groups, and in which the
  circular order of the descriptors is the original one.
\<close>

theorem ring_ops_safe:
  assumes "ring_inv R" "run_ops ring_step as (R, m) = Some (R', m')"
  shows "ring_inv R' \<and> distinct (all_bds (ring_groups R'))
     \<and> set (all_bds (ring_groups R')) = {0..<ring_n R}
     \<and> (\<exists>k. all_bds (ring_groups R') = rotate k (all_bds (ring_groups R)))"
  using ring.run_inv[of "(R, m)" as "(R', m')"] ring.run_same_bds[of "(R, m)" as "(R', m')"]
    ring.run_rotates[of "(R, m)" as "(R', m')"] ring_all_bds_set assms by simp

theorem ring_ops_safe_witness:
  "\<exists>R' m'. run_ops ring_step [Alloc 3, UnAlloc 1, ToHw 2] (sample_ring, sample_mach) = Some (R', m')
     \<and> ring_inv R' \<and> HwCnt R' = 2 \<and> set (all_bds (ring_groups R')) = {0..<4}"
proof -
  have "case run_ops ring_step [Alloc 3, UnAlloc 1, ToHw 2] (sample_ring, sample_mach) of
      None \<Rightarrow> False | Some (R', m') \<Rightarrow> HwCnt R' = 2"
    by (simp add: ring_eval sample_ring_def sample_mach_def hwc)
  then obtain R' m' where r: "run_ops ring_step [Alloc 3, UnAlloc 1, ToHw 2] (sample_ring, sample_mach)
      = Some (R', m')" "HwCnt R' = 2"
    by (auto split: option.splits simp del: run_ops.simps)
  from ring_ops_safe[OF sample_ring_inv r(1)] r show ?thesis
    by (intro exI[of _ R'] exI[of _ m']) (simp add: ring_n_def sample_ring_def del: run_ops.simps)
qed

section \<open>Creation\<close>

text \<open>
  C2: With a power-of-two alignment of at least 64, base addresses on that alignment, a non-zero
  count and a region that does not run past the end of the address space, creation succeeds: the
  new ring is well-formed, stopped, entirely free, its descriptors are Alignment bytes apart
  and closed into a cycle by physical links, every other descriptor word is zero, and the
  driver's own consistency check passes.
\<close>

theorem create_ok:
  assumes "create_params_ok P V A C" "unat V + unat A * unat C \<le> 2 ^ 32" "unat A * unat C < 2 ^ 32"
  shows "\<exists>R' m'. Dma_BdRingCreate R P V A C m = (XST_SUCCESS, R', m') \<and> ring_inv R'
     \<and> ring_groups R' = \<lparr>gpost = [], ghw = [], gpre = [], gfree = [0..<unat C]\<rparr>
     \<and> linked R' m' \<and> Dma_BdRingCheck R' m' = XST_SUCCESS
     \<and> (\<forall>i<unat C. \<forall>off. off < 64 \<longrightarrow> off \<noteq> DMA_BD_NDESC_OFFSET \<longrightarrow>
          mem m' (V + A * of_nat i + off) = 0)"
proof -
  obtain R' m' where c: "Dma_BdRingCreate R P V A C m = (XST_SUCCESS, R', m')" "ring_inv R'"
    "ring_groups R' = \<lparr>gpost = [], ghw = [], gpre = [], gfree = [0..<unat C]\<rparr>"
    "RunState R' = XST_DMA_SG_IS_STOPPED" "linked R' m'" "FirstBdAddr R' = V" "Separation R' = A"
    "\<forall>i<unat C. \<forall>off. off < 64 \<longrightarrow> off \<noteq> DMA_BD_NDESC_OFFSET \<longrightarrow> mem m' (bd_addr R' i + off) = 0"
    using create_succeeds[OF assms, of R m] by blast
  then show ?thesis using check_inv[OF c(2,4,5)]
    by (intro exI[of _ R'] exI[of _ m']) (simp add: bd_addr_def)
qed

theorem create_ok_witness:
  "\<exists>R' m'. Dma_BdRingCreate sample_ring 0x9000 0x1000 0x40 4 sample_mach = (XST_SUCCESS, R', m')
     \<and> ring_inv R' \<and> Dma_BdRingCheck R' m' = XST_SUCCESS"
proof -
  have "create_params_ok 0x9000 0x1000 0x40 4" by (simp add: create_params_ok_def hwc)
  then show ?thesis using create_ok[of "0x9000" "0x1000" "0x40" 4 sample_ring sample_mach] by auto
qed



text \<open>
  C4: The span check is computed in 32 bits: a count whose product with the alignment wraps
  passes it. Asked for 0x4000001 descriptors of 64 bytes at address 0x1000 (more than the
  address space holds), creation reports success, with a ring whose last descriptor is its first
  one and which is not well-formed.
\<close>

theorem create_span_wraps:
  "\<exists>R' m'. Dma_BdRingCreate R 0x1000 0x1000 0x40 0x4000001 m = (XST_SUCCESS, R', m')
     \<and> AllCnt R' = 0x4000001 \<and> LastBdAddr R' = FirstBdAddr R' \<and> \<not> ring_inv R'
     \<and> 2 ^ 32 < unat (0x40 :: u32) * unat (0x4000001 :: u32)"
proof -
  let ?m = "mem_clear 0x1000 0x100000040 m"
  have cl: "fst (create_links k s a p m) = a + s * of_nat k" for k s a p m
    by (induction k arbitrary: a p m) (simp_all add: algebra_simps)
  define K where "K = (67108864 :: nat)"
  have "(0x1000 + 0x40 * of_nat K :: u32) = 0x1000" by (simp add: K_def)
  then obtain m1 where l: "create_links K 0x40 0x1000 0x1040 ?m = (0x1000, m1)"
    using cl[of K "0x40" "0x1000" "0x1040" ?m] by (metis prod.collapse)
  define R' where "R' = (ring_clear_counts R)\<lparr>Separation := 0x40, RunState := 515, FirstBdAddr := 0x1000,
     FirstBdPhysAddr := 0x1000, LastBdAddr := 0x1000, Length := 0x40, AllCnt := 0x4000001,
     FreeCnt := 0x4000001, FreeHead := 0x1000, PreHead := 0x1000, HwHead := 0x1000,
     HwTail := 0x1000, PostHead := 0x1000, BdaRestart := 0x1000\<rparr>"
  have "Dma_BdRingCreate R 0x1000 0x1000 0x40 0x4000001 m
      = (XST_SUCCESS, R', Dma_mBdWrite 0x1000 DMA_BD_NDESC_OFFSET 0x1000 m1)"
    using l by (simp add: Dma_BdRingCreate_def hwc Let_def R'_def K_def del: loop_numeral)
  moreover have "\<not> ring_inv R'" by (simp add: ring_inv_def ring_at_def geom_def ring_n_def R'_def)
  ultimately show ?thesis by (simp add: R'_def)
qed


section \<open>Allocation\<close>

text \<open>
  C5: Allocation succeeds exactly when enough descriptors are free, returns the head of the
  free group, and giving the same number back restores the control block bit for bit.
\<close>

theorem alloc_unalloc:
  assumes "ring_inv R"
  shows "(if NumBd \<le> FreeCnt R
     then \<exists>R'. Dma_BdRingAlloc R NumBd = (XST_SUCCESS, R', Some (FreeHead R))
        \<and> PreCnt R' = PreCnt R + NumBd \<and> Dma_BdRingUnAlloc R' NumBd (FreeHead R) = (XST_SUCCESS, R)
     else Dma_BdRingAlloc R NumBd = (XST_FAILURE, R, None))"
proof (cases "NumBd \<le> FreeCnt R")
  case True
  let ?n = "ring_n R" and ?k = "unat NumBd"
  have g: "geom R" and at: "ring_at R (post_idx R)" using ring_invD[OF assms] by auto
  have k: "?k \<le> unat (FreeCnt R)" using True by (simp add: word_le_nat_alt)
  then have kn: "?k \<le> ?n" using at by (simp add: ring_at_def)
  define f where "f = (post_idx R + unat (PostCnt R) + unat (HwCnt R) + unat (PreCnt R)) mod ?n"
  have f: "f < ?n" "FreeHead R = bd_addr R f"
    using at geom_n_pos[OF g] by (simp_all add: ring_at_def f_def)
  have ahead: "Dma_mRingSeekahead R (FreeHead R) NumBd = bd_addr R ((f + ?k) mod ?n)"
    using seekahead_bd_addr[OF g f(1) kn] by (simp add: f(2))
  have "(f + ?k) mod ?n < ?n" using geom_n_pos[OF g] by simp
  from seekback_bd_addr[OF g this kn]
  have bck: "Dma_mRingSeekback R (bd_addr R ((f + ?k) mod ?n)) NumBd = FreeHead R"
    using mod_add_sub[OF f(1) kn] by (simp add: f(2))
  have "unat NumBd + unat (PreCnt R) < 2 ^ 32"
    using at k ring_n_lt[of R] by (simp add: ring_at_def)
  then have "\<not> PreCnt R + NumBd < NumBd"
    using unat_add_no_overflow[of "PreCnt R" NumBd] by (simp add: not_less word_le_nat_alt)
  moreover have "\<not> FreeCnt R < NumBd" using True by simp
  ultimately show ?thesis using True
    by (simp add: Dma_BdRingAlloc_def Dma_BdRingUnAlloc_def Let_def ahead bck)
next
  case False
  then show ?thesis by (simp add: alloc_refuses)
qed

theorem alloc_unalloc_witness:
  "\<exists>R'. Dma_BdRingAlloc sample_ring 3 = (XST_SUCCESS, R', Some 0x1000)
     \<and> Dma_BdRingUnAlloc R' 3 0x1000 = (XST_SUCCESS, sample_ring)"
  using alloc_unalloc[OF sample_ring_inv, of 3] by (auto simp: sample_ring_def)

section \<open>Submission\<close>






section \<open>Retrieval\<close>

text \<open>
  C8: Retrieval hands back exactly the completed packets at the front of the hardware group,
  within the limit: every descriptor returned is complete, the last one returned ends a packet
  (or is in error), and no longer run of completed descriptors within the limit ends a packet.
  A packet of which the hardware has finished only a part stays where it is. The returned
  pointer is the old head of the hardware group.
\<close>

theorem fromhw_whole_packets:
  assumes inv: "ring_inv R" and xs: "xs = take (unat BdLimit) (ghw (ring_groups R))"
  shows "\<exists>k R' p. Dma_BdRingFromHw R BdLimit m = (of_nat k, R', p) \<and> k \<le> length xs
     \<and> (\<forall>j\<in>set (take k xs). bd_done R m (bd_addr R j))
     \<and> (0 < k \<longrightarrow> bd_end R m (bd_addr R (xs ! (k - 1))) \<and> p = HwHead R)
     \<and> (\<forall>j<length xs. k \<le> j \<and> (\<forall>i\<le>j. bd_done R m (bd_addr R (xs ! i)))
           \<longrightarrow> \<not> bd_end R m (bd_addr R (xs ! j)))
     \<and> ring_inv R' \<and> ring_groups R' = spec_fromhw k (ring_groups R)"
proof -
  let ?P = "\<lambda>j. bd_end R m (bd_addr R j)" and ?D = "\<lambda>j. bd_done R m (bd_addr R j)"
  define ys where "ys = hw_ready R m (unat BdLimit)"
  define zs where "zs = hw_complete R m (unat BdLimit)"
  define k where "k = length zs"
  have ys: "ys = takeWhile ?D xs" by (simp add: ys_def hw_ready_def xs)
  have zs: "zs = trim ?P ys" by (simp add: zs_def hw_complete_def ys_def)
  have zt: "zs = take k ys" unfolding zs k_def by (rule trim_take)
  have yt: "ys = take (length ys) xs" unfolding ys by (metis takeWhile_eq_take)
  have ky: "k \<le> length ys" unfolding k_def zs by (metis le_add1 length_trim)
  have yx: "length ys \<le> length xs" unfolding ys by (rule length_takeWhile_le)
  have zx: "zs = take k xs" using zt yt ky by (metis min.absorb1 take_take)
  obtain R' where r: "Dma_BdRingFromHw R BdLimit m = (of_nat k, R', if zs = [] then 0 else HwHead R)"
    "ring_inv R'" "ring_groups R' = spec_fromhw k (ring_groups R)"
    using fromhw_refines[OF inv, of BdLimit m] by (auto simp: zs_def k_def)
  have dn: "\<forall>j\<in>set (take k xs). ?D j"
    unfolding zx[symmetric] zt using ys by (metis in_set_takeD set_takeWhileD)
  have en: "?P (xs ! (k - 1)) \<and> (if zs = [] then 0 else HwHead R) = HwHead R" if "0 < k"
  proof -
    have ne: "zs \<noteq> []" using that by (auto simp: k_def)
    then have "?P (last zs)" using trim_last[of ?P ys] zs by simp
    moreover have "last zs = xs ! (k - 1)" using ne zx
      by (metis diff_less k_def last_conv_nth nth_take that zero_less_one)
    ultimately show ?thesis using ne by simp
  qed
  have mx: "\<not> ?P (xs ! j)" if j: "j < length xs" "k \<le> j" "\<forall>i\<le>j. ?D (xs ! i)" for j
  proof -
    have "j < length ys"
    proof (rule ccontr)
      assume "\<not> j < length ys"
      then have "length ys < length xs" "length ys \<le> j" using j(1) by auto
      then show False using j(3) nth_length_takeWhile[of ?D xs] ys by auto
    qed
    moreover from this have "ys ! j = xs ! j" using yt by (metis nth_take)
    ultimately show ?thesis using trim_maximal[of j ys ?P] zs j(2) k_def by auto
  qed
  show ?thesis using r dn en mx ky yx
    by (intro exI[of _ k] exI[of _ R'] exI[of _ "if zs = [] then 0 else HwHead R"]) auto
qed

theorem fromhw_whole_packets_witness:
  "\<exists>k R' p. Dma_BdRingFromHw sample_ring_hw 4 sample_mach = (of_nat k, R', p) \<and> k \<le> 2 \<and> ring_inv R'"
  using fromhw_whole_packets[OF sample_rings_inv(1) refl, of 4 sample_mach]
  by (auto simp: sample_ring_hw_def sample_ring_def)

text \<open>
  C9: Forced retrieval takes the smaller of the limit and the size of the hardware group,
  regardless of what the hardware reports, and a limit of at least the group size empties it.
\<close>

theorem force_takes_all:
  assumes "ring_inv R"
  shows "\<exists>R'. Dma_BdRingForceFromHw R BdLimit
       = (min BdLimit (HwCnt R), R', if min BdLimit (HwCnt R) = 0 then 0 else HwHead R)
     \<and> ring_inv R' \<and> ring_groups R' = spec_fromhw (unat (min BdLimit (HwCnt R))) (ring_groups R)
     \<and> (HwCnt R \<le> BdLimit \<longrightarrow> HwCnt R' = 0)"
  by (rule force_refines[OF assms])

theorem force_takes_all_witness:
  "\<exists>R'. Dma_BdRingForceFromHw sample_ring_hw 7 = (2, R', 0x1000) \<and> HwCnt R' = 0"
  using force_takes_all[OF sample_rings_inv(1), of 7]
  by (auto simp: sample_ring_hw_def sample_ring_def min_def)

text \<open>
  C10: A non-empty set is freed exactly when it starts at the first completed descriptor and is
  no longer than the completed group. Its status and control words become zero, no other
  word changes, and it goes to the end of the free group; otherwise nothing changes.
\<close>

theorem free_iff:
  assumes "ring_inv R" "NumBd \<noteq> 0"
  shows "\<exists>c R' m'. Dma_BdRingFree R NumBd ptr m = (c, R', m')
     \<and> (c = XST_SUCCESS \<longleftrightarrow> NumBd \<le> PostCnt R \<and> PostHead R = ptr)
     \<and> (if c = XST_SUCCESS
        then ring_inv R' \<and> ring_groups R' = spec_free (unat NumBd) (ring_groups R)
          \<and> (\<forall>x. mem m' x = (if x \<in> freed_words R (take (unat NumBd) (gpost (ring_groups R)))
                               then 0 else mem m x))
        else c = XST_DMA_SG_LIST_ERROR \<and> R' = R \<and> m' = m)"
proof (cases "NumBd \<le> PostCnt R \<and> PostHead R = ptr")
  case True
  obtain R' m' where t: "Dma_BdRingFree R NumBd ptr m = (XST_SUCCESS, R', m')" "ring_inv R'"
    "ring_groups R' = spec_free (unat NumBd) (ring_groups R)"
    "\<forall>x. mem m' x = (if x \<in> freed_words R (take (unat NumBd) (gpost (ring_groups R))) then 0 else mem m x)"
    using free_refines[OF assms(1)] True by blast
  show ?thesis using t True by (intro exI[of _ XST_SUCCESS] exI[of _ R'] exI[of _ m']) simp
next
  case False
  then have "PostCnt R < NumBd \<or> PostHead R \<noteq> ptr" by (auto simp: not_le)
  then show ?thesis using free_refuses[OF assms(2)] False
    by (intro exI[of _ XST_DMA_SG_LIST_ERROR] exI[of _ R] exI[of _ m]) (simp add: hwc)
qed

theorem free_iff_witness:
  "\<exists>c R' m'. Dma_BdRingFree sample_ring_post 2 0x1000 sample_mach = (c, R', m') \<and> c = XST_SUCCESS"
proof -
  have c: "2 \<le> PostCnt sample_ring_post" "PostHead sample_ring_post = 0x1000"
    by (simp_all add: sample_ring_post_def sample_ring_def)
  then show ?thesis using free_iff[OF sample_rings_inv(2), of 2 "0x1000" sample_mach] by fastforce
qed


section \<open>The life of a descriptor set\<close>

lemma ring_empty_groups:
  assumes "ring_inv R" "HwCnt R = 0" "PreCnt R = 0" "PostCnt R = 0"
  shows "ring_groups R = \<lparr>gpost = [], ghw = [], gpre = [], gfree = gfree (ring_groups R)\<rparr>"
    "HwHead R = FreeHead R" "PreHead R = FreeHead R" "PostHead R = FreeHead R"
  using assms ring_invD(2,3)[OF assms(1)] by (simp_all add: ring_groups_def Let_def ring_at_def)

lemma ring_frame_eq:
  assumes "FirstBdAddr R' = FirstBdAddr R" "Separation R' = Separation R" "IsRxChannel R' = IsRxChannel R"
  shows "bd_addr R' = bd_addr R" "bd_done R' = bd_done R" "bd_end R' = bd_end R"
  using assms
  by (simp_all add: fun_eq_iff bd_addr_def bd_done_def bd_end_def rx_user_pending_def bd_ends_packet_def)




section \<open>Start and consistency check\<close>

text \<open>
  C12: Starting a ring that has descriptors and is not running succeeds and makes it running;
  the hardware sees both descriptor pointers at the restart address, then a barrier, only then
  the enable bit (with all other control bits as they were), a barrier, and, if descriptors were
  already submitted, the tail (a receive channel also reads its wait-time register). A second start does nothing, and an empty ring is refused.
\<close>

theorem start_order:
  "(AllCnt R = 0 \<longrightarrow> Dma_BdRingStart R m = (XST_DMA_SG_NO_LIST, R, m))
   \<and> (AllCnt R \<noteq> 0 \<and> RunState R = XST_DMA_SG_IS_STARTED \<longrightarrow> Dma_BdRingStart R m = (XST_SUCCESS, R, m))
   \<and> (AllCnt R \<noteq> 0 \<and> RunState R \<noteq> XST_DMA_SG_IS_STARTED \<longrightarrow>
      (\<exists>v w m'. Dma_BdRingStart R m = (XST_SUCCESS, R\<lparr>RunState := XST_DMA_SG_IS_STARTED\<rparr>, m')
        \<and> mem m' = mem m
        \<and> rev (evs m') = rev (evs m) @
            [WrReg (ChanBase R + REG_DMA_ENG_NEXT_BD) (BdaRestart R),
             WrReg (ChanBase R + REG_SW_NEXT_BD) (BdaRestart R), Wmb,
             RdReg (ChanBase R + REG_DMA_ENG_CTRL_STATUS) v,
             WrReg (ChanBase R + REG_DMA_ENG_CTRL_STATUS) (v OR DMA_ENG_ENABLE), Wmb]
            @ (if HwCnt R > 0
               then [WrReg (ChanBase R + REG_SW_NEXT_BD) (Dma_mVirtToPhys R (HwTail R))] else [])
            @ (if IsRxChannel R \<noteq> 0 then [RdReg (ChanBase R + 0x18) w] else [])))"
  using start_refuses[of R m] start_idempotent[of R m] start_publishes[of R m] by blast

theorem start_order_witness:
  "\<exists>v m'. Dma_BdRingStart sample_ring sample_mach
      = (XST_SUCCESS, sample_ring\<lparr>RunState := XST_DMA_SG_IS_STARTED\<rparr>, m')
     \<and> rev (evs m') = [WrReg 0x2008 0x9000, WrReg 0x200C 0x9000, Wmb, RdReg 0x2004 v,
         WrReg 0x2004 (v OR DMA_ENG_ENABLE), Wmb]"
proof -
  have "AllCnt sample_ring \<noteq> 0 \<and> RunState sample_ring \<noteq> XST_DMA_SG_IS_STARTED"
    by (simp add: sample_ring_def hwc)
  then obtain v w m' where "Dma_BdRingStart sample_ring sample_mach
      = (XST_SUCCESS, sample_ring\<lparr>RunState := XST_DMA_SG_IS_STARTED\<rparr>, m')"
    "rev (evs m') = rev (evs sample_mach) @
        [WrReg (ChanBase sample_ring + REG_DMA_ENG_NEXT_BD) (BdaRestart sample_ring),
         WrReg (ChanBase sample_ring + REG_SW_NEXT_BD) (BdaRestart sample_ring), Wmb,
         RdReg (ChanBase sample_ring + REG_DMA_ENG_CTRL_STATUS) v,
         WrReg (ChanBase sample_ring + REG_DMA_ENG_CTRL_STATUS) (v OR DMA_ENG_ENABLE), Wmb]
        @ (if HwCnt sample_ring > 0
           then [WrReg (ChanBase sample_ring + REG_SW_NEXT_BD) (Dma_mVirtToPhys sample_ring (HwTail sample_ring))] else [])
        @ (if IsRxChannel sample_ring \<noteq> 0 then [RdReg (ChanBase sample_ring + 0x18) w] else [])"
    using start_order[of sample_ring sample_mach] by blast
  then show ?thesis by (intro exI[of _ v] exI[of _ m']) (simp add: sample_ring_def sample_mach_def hwc)
qed

text \<open>
  C13: The consistency check is exact: on a ring with sound geometry it answers success if and
  only if the ring is stopped, the five group pointers lie inside the ring, the four counts add
  up to the total, and every link (the one from the last descriptor to the first included)
  holds the physical address of the next descriptor.
\<close>

theorem check_exact:
  assumes "geom R"
  shows "Dma_BdRingCheck R m = XST_SUCCESS \<longleftrightarrow> RunState R = XST_DMA_SG_IS_STOPPED \<and> heads_inside R
     \<and> HwCnt R + PreCnt R + FreeCnt R + PostCnt R = AllCnt R
     \<and> (\<forall>i<ring_n R. Dma_mBdRead (bd_addr R i) DMA_BD_NDESC_OFFSET m
            = Dma_mVirtToPhys R (bd_addr R (Suc i mod ring_n R)))"
  unfolding check_decides[OF assms] linked_def ..

theorem check_exact_witness: "Dma_BdRingCheck sample_ring sample_mach \<noteq> XST_SUCCESS"
proof -
  have "Dma_mBdRead (bd_addr sample_ring 0) DMA_BD_NDESC_OFFSET sample_mach
      \<noteq> Dma_mVirtToPhys sample_ring (bd_addr sample_ring (Suc 0 mod ring_n sample_ring))"
    by (simp add: sample_ring_def sample_mach_def Dma_mBdRead_def bd_addr_def Dma_mVirtToPhys_def ring_n_def)
  moreover have "0 < ring_n sample_ring" by (simp add: ring_n_def sample_ring_def)
  ultimately show ?thesis using check_exact[OF ring_invD(1)[OF sample_ring_inv], of sample_mach] by blast
qed

section \<open>Alignment and descriptor fields\<close>



end
