(* ===== verification/Xdma.thy ===== *)
theory Xdma
  imports BdRingInit
begin

text \<open>
  A DMA engine (\<open>fc1553_dma/xdma/xdma.h\<close>, \<open>xdma.c\<close>, the engine macros of \<open>xdma_hw.h\<close>) and the data
  it exchanges with the application driver (\<open>fc1553_dma/include/xdma_user.h\<close>).
\<close>

section \<open>Data shared with the application driver\<close>

definition UNINITIALIZED :: u32 where [hwc]: "UNINITIALIZED = 0"
definition INITIALIZED :: u32 where [hwc]: "INITIALIZED = 1"
definition USER_ASSIGNED :: u32 where [hwc]: "USER_ASSIGNED = 2"
definition UNREGISTERING :: u32 where [hwc]: "UNREGISTERING = 3"

definition PKT_SOP :: u32 where [hwc]: "PKT_SOP = 0x80000000"
definition PKT_EOP :: u32 where [hwc]: "PKT_EOP = 0x40000000"
definition PKT_ERROR :: u32 where [hwc]: "PKT_ERROR = 0x10000000"
definition PKT_UNUSED :: u32 where [hwc]: "PKT_UNUSED = 0x00004000"
definition PKT_ALL :: u32 where [hwc]: "PKT_ALL = 0x00800000"

record PktBuf =
  pktBuf :: u32
  bufInfo :: u32
  pkt_size :: u32
  pkt_flags :: u32
  userInfo :: u64

definition PktBuf_zero :: PktBuf where
  "PktBuf_zero = \<lparr>pktBuf = 0, bufInfo = 0, pkt_size = 0, pkt_flags = 0, userInfo = 0\<rparr>"

record UserState =
  LinkState :: int
  Errors :: int
  Buffers :: int
  MinPktSize :: int
  MaxPktSize :: int
  TestMode :: u32

text \<open>
  The callbacks of an application driver. They act on its own state \<open>'u\<close> and on the machine; a
  handle is the index of the engine; arrays they fill are returned. A pointer that may be
  \<open>NULL\<close> is an option. \<open>UserRemove\<close> and \<open>UserIntr\<close> are never called by the program.
\<close>

record 'u UserPtrs =
  privData :: u32
  UserInit :: "(u32 \<Rightarrow> u32 \<Rightarrow> 'u \<times> mach \<Rightarrow> int \<times> 'u \<times> mach) option"
  UserGetPkt :: "(nat \<Rightarrow> PktBuf list \<Rightarrow> u32 \<Rightarrow> int \<Rightarrow> u32 \<Rightarrow> 'u \<times> mach \<Rightarrow> int \<times> PktBuf list \<times> 'u \<times> mach) option"
  UserPutPkt :: "(nat \<Rightarrow> PktBuf list \<Rightarrow> int \<Rightarrow> u32 \<Rightarrow> 'u \<times> mach \<Rightarrow> int \<times> 'u \<times> mach) option"
  UserSetState :: "(nat \<Rightarrow> UserState \<Rightarrow> u32 \<Rightarrow> 'u \<times> mach \<Rightarrow> int \<times> 'u \<times> mach) option"
  UserGetState :: "(nat \<Rightarrow> UserState \<Rightarrow> u32 \<Rightarrow> 'u \<times> mach \<Rightarrow> int \<times> UserState \<times> 'u \<times> mach) option"

definition UserPtrs_zero :: "'u UserPtrs" where
  "UserPtrs_zero = \<lparr>privData = 0, UserInit = None, UserGetPkt = None, UserPutPkt = None,
     UserSetState = None, UserGetState = None\<rparr>"

section \<open>The engine\<close>

record 'u Dma_Engine =
  RegBase :: u32
  EngineState :: u32
  BdRing :: Dma_BdRing
  EngType :: u32
  user :: "'u UserPtrs"
  pktSize :: int
  intrCount :: int
  descSpacePA :: u32
  descSpaceSize :: u32
  descSpaceVA :: u32
  delta :: u32

definition Dma_BdRing_zero :: Dma_BdRing where
  "Dma_BdRing_zero = \<lparr>ChanBase = 0, IsRxChannel = 0, RunState = 0, FirstBdPhysAddr = 0,
     FirstBdAddr = 0, LastBdAddr = 0, Length = 0, Separation = 0, FreeHead = 0, PreHead = 0,
     HwHead = 0, HwTail = 0, PostHead = 0, BdaRestart = 0, FreeCnt = 0, PreCnt = 0, HwCnt = 0,
     PostCnt = 0, AllCnt = 0, BDerrs = 0, BDSerrs = 0\<rparr>"

definition Dma_Engine_zero :: "'u Dma_Engine" where
  "Dma_Engine_zero = \<lparr>RegBase = 0, EngineState = 0, BdRing = Dma_BdRing_zero, EngType = 0,
     user = UserPtrs_zero, pktSize = 0, intrCount = 0, descSpacePA = 0, descSpaceSize = 0,
     descSpaceVA = 0, delta = 0\<rparr>"

section \<open>Engine control register\<close>

definition Dma_mGetCrSr :: "'u Dma_Engine \<Rightarrow> mach \<Rightarrow> u32 \<times> mach" where
  "Dma_mGetCrSr E m = Dma_mReadReg (RegBase E) REG_DMA_ENG_CTRL_STATUS m"

definition Dma_mSetCrSr :: "'u Dma_Engine \<Rightarrow> u32 \<Rightarrow> mach \<Rightarrow> mach" where
  "Dma_mSetCrSr E Data m = Dma_mWriteReg (RegBase E) REG_DMA_ENG_CTRL_STATUS Data m"

definition Dma_mBdRingBusy :: "'u Dma_Engine \<Rightarrow> mach \<Rightarrow> bool \<times> mach" where
  "Dma_mBdRingBusy E m = (let (v, m) = Dma_mGetCrSr E m in (v AND DMA_ENG_RUNNING \<noteq> 0, m))"

definition Dma_mEngIntEnable :: "'u Dma_Engine \<Rightarrow> mach \<Rightarrow> mach" where
  "Dma_mEngIntEnable E m =
     (if RunState (BdRing E) = XST_DMA_SG_IS_STARTED
      then let (Reg, m) = Dma_mGetCrSr E m in Dma_mSetCrSr E (Reg OR DMA_ENG_INT_ENABLE) m
      else m)"

definition Dma_mEngIntDisable :: "'u Dma_Engine \<Rightarrow> mach \<Rightarrow> mach" where
  "Dma_mEngIntDisable E m =
     (let (Reg, m) = Dma_mGetCrSr E m in Dma_mSetCrSr E (Reg AND NOT DMA_ENG_INT_ENABLE) m)"

definition Dma_mEngIntAck :: "'u Dma_Engine \<Rightarrow> u32 \<Rightarrow> mach \<Rightarrow> mach" where
  "Dma_mEngIntAck E Mask m =
     (let (Reg, m) = Dma_mGetCrSr E m in Dma_mSetCrSr E (Reg OR Mask) m)"

section \<open>Initialisation and reset\<close>

text \<open>
  The polling loops of \<open>Dma_Reset\<close>: read the register until the bits are clear, but at most
  \<open>k\<close> times; after the last failing read there is one more, for the message.
\<close>

fun wait_clear :: "nat \<Rightarrow> 'u Dma_Engine \<Rightarrow> u32 \<Rightarrow> mach \<Rightarrow> mach" where
  "wait_clear 0 E bits m = m"
| "wait_clear (Suc k) E bits m =
     (let (v, m) = Dma_mGetCrSr E m
      in if v AND bits = 0 then m
         else if k = 0 then snd (Dma_mGetCrSr E m)
         else wait_clear k E bits m)"

definition RESET_LIMIT :: nat where
  "RESET_LIMIT = 100000"

definition Dma_Reset :: "'u Dma_Engine \<Rightarrow> mach \<Rightarrow> 'u Dma_Engine \<times> mach" where
  "Dma_Reset E m =
     (let m = Dma_mEngIntDisable E m;
          m = Dma_mSetCrSr E (DMA_ENG_DISABLE OR DMA_ENG_USER_RESET) m;
          m = wait_clear RESET_LIMIT E (DMA_ENG_STATE_MASK OR DMA_ENG_USER_RESET) m;
          m = Dma_mSetCrSr E DMA_ENG_RESET m;
          m = wait_clear RESET_LIMIT E DMA_ENG_RESET m;
          (dirqval, m) = Dma_mGetCrSr E m;
          m = (if dirqval AND DMA_ENG_INT_ACTIVE_MASK \<noteq> 0
               then Dma_mEngIntAck E (dirqval AND DMA_ENG_ALLINT_MASK) m else m)
      in (E\<lparr>BdRing := (BdRing E)\<lparr>RunState := XST_DMA_SG_IS_STOPPED\<rparr>\<rparr>, m))"

definition Dma_Initialize :: "u32 \<Rightarrow> u32 \<Rightarrow> mach \<Rightarrow> 'u Dma_Engine \<times> mach" where
  "Dma_Initialize BaseAddress Ty m =
     (let E = Dma_Engine_zero\<lparr>RegBase := BaseAddress, EngType := Ty\<rparr>;
          E = E\<lparr>BdRing := (BdRing E)\<lparr>RunState := XST_DMA_SG_IS_STOPPED\<rparr>, EngineState := INITIALIZED\<rparr>;
          E = E\<lparr>BdRing := (BdRing E)\<lparr>ChanBase := BaseAddress,
                IsRxChannel := (if Ty = DMA_ENG_C2S then 1 else 0)\<rparr>\<rparr>
      in Dma_Reset E m)"

section \<open>What a reset does\<close>

lemma reg_env [simp]:
  "evs (snd (Dma_mReadReg b r m)) = RdReg (b + r) (fst (Dma_mReadReg b r m)) # evs m"
  "evs (Dma_mWriteReg b r d m) = WrReg (b + r) d # evs m"
  by (simp_all add: Dma_mReadReg_def Dma_mWriteReg_def XIo_In32_def Let_def)

lemma crsr_mem [simp]:
  "mem (snd (Dma_mGetCrSr E m)) = mem m" "mem (Dma_mSetCrSr E d m) = mem m"
  "mem (Dma_mEngIntEnable E m) = mem m" "mem (Dma_mEngIntDisable E m) = mem m"
  "mem (Dma_mEngIntAck E d m) = mem m" "mem (snd (Dma_mBdRingBusy E m)) = mem m"
  by (simp_all add: Dma_mGetCrSr_def Dma_mSetCrSr_def Dma_mEngIntEnable_def Dma_mEngIntDisable_def
      Dma_mEngIntAck_def Dma_mBdRingBusy_def split_beta Let_def)

lemma wait_clear_mem [simp]: "mem (wait_clear k E bits m) = mem m"
  by (induction k arbitrary: m) (simp_all add: split_beta Let_def)

lemma Dma_Reset_mem [simp]: "mem (snd (Dma_Reset E m)) = mem m"
  by (simp add: Dma_Reset_def split_beta Let_def)

text \<open>The log of a poll: reads of the control register, at most one more than the limit.\<close>

definition polls :: "'u Dma_Engine \<Rightarrow> io_event list \<Rightarrow> bool" where
  "polls E es \<longleftrightarrow> (\<forall>e\<in>set es. \<exists>v. e = RdReg (RegBase E + REG_DMA_ENG_CTRL_STATUS) v)"

lemma wait_clear_evs:
  "\<exists>es. evs (wait_clear k E bits m) = es @ evs m \<and> polls E es \<and> length es \<le> k + 1"
proof (induction k arbitrary: m)
  case 0
  then show ?case by (simp add: polls_def)
next
  case (Suc k)
  let ?v = "fst (Dma_mGetCrSr E m)" and ?m = "snd (Dma_mGetCrSr E m)"
  let ?r = "\<lambda>v. RdReg (RegBase E + REG_DMA_ENG_CTRL_STATUS) v"
  have e: "evs ?m = [?r ?v] @ evs m" by (simp add: Dma_mGetCrSr_def)
  obtain es where es: "evs (wait_clear k E bits ?m) = es @ evs ?m" "polls E es" "length es \<le> k + 1"
    using Suc by blast
  show ?case
  proof (cases "?v AND bits = 0")
    case True
    then show ?thesis using e by (intro exI[of _ "[?r ?v]"]) (simp add: polls_def split_beta Let_def)
  next
    case nz: False
    show ?thesis
    proof (cases "k = 0")
      case True
      then show ?thesis using nz
        by (intro exI[of _ "[?r (fst (Dma_mGetCrSr E ?m)), ?r ?v]"])
          (simp add: polls_def split_beta Let_def Dma_mGetCrSr_def)
    next
      case False
      then show ?thesis using nz es e
        by (intro exI[of _ "es @ [?r ?v]"]) (auto simp: polls_def split_beta Let_def)
    qed
  qed
qed

text \<open>A hardware that has cleared the bits is noticed at the first read.\<close>

lemma wait_clear_ready:
  "fst (Dma_mGetCrSr E m) AND bits = 0 \<Longrightarrow> wait_clear (Suc k) E bits m = snd (Dma_mGetCrSr E m)"
  by (simp add: split_beta Let_def)

end
