(* ===== verification/BufPool.thy ===== *)
theory BufPool
  imports Xdma
begin

text \<open>
  The buffer pools of the raw data driver (\<open>Buffer\<close>, \<open>InitBuffers\<close>, \<open>AllocBuf\<close>, \<open>FreeUsedBuf\<close>,
  \<open>FreeUnusedBuf\<close> of \<open>fc1553_dma/xrawdata0/sguser.c\<close>): a fixed array of pages through which a window
  of allocated buffers moves. Buffers are taken at its front; used ones are given back at its
  rear, unused ones at its front. The locale \<open>buffer_window\<close> states this without indices.
\<close>

section \<open>The interface\<close>

datatype window_op = Alloc | FreeUsed nat | FreeUnused nat

locale buffer_window =
  fixes inv :: "'b \<Rightarrow> bool"
    and used :: "'b \<Rightarrow> 'v list"
    and spare :: "'b \<Rightarrow> 'v list"
    and alloc :: "'b \<Rightarrow> 'v option \<times> 'b"
    and free_used :: "nat \<Rightarrow> 'b \<Rightarrow> 'b"
    and free_unused :: "nat \<Rightarrow> 'b \<Rightarrow> 'b"
  assumes alloc_none: "inv b \<Longrightarrow> spare b = [] \<Longrightarrow> alloc b = (None, b)"
    and alloc_some: "inv b \<Longrightarrow> spare b = v # vs \<Longrightarrow>
          \<exists>b'. alloc b = (Some v, b') \<and> inv b' \<and> used b' = used b @ [v] \<and> spare b' = vs"
    and free_used_law: "inv b \<Longrightarrow> inv (free_used k b) \<and> used (free_used k b) = drop k (used b)
          \<and> spare (free_used k b) = spare b @ take k (used b)"
    and free_unused_law: "inv b \<Longrightarrow> inv (free_unused k b)
          \<and> used (free_unused k b) = take (length (used b) - k) (used b)
          \<and> spare (free_unused k b) = drop (length (used b) - k) (used b) @ spare b"
begin

fun run :: "window_op \<Rightarrow> 'b \<Rightarrow> 'b" where
  "run Alloc b = snd (alloc b)"
| "run (FreeUsed k) b = free_used k b"
| "run (FreeUnused k) b = free_unused k b"

text \<open>No sequence of operations loses or duplicates a buffer, or changes their circular order.\<close>

lemma run_conserves:
  assumes "inv b"
  shows "inv (run p b) \<and> (\<exists>i. used (run p b) @ spare (run p b) = rotate i (used b @ spare b))"
proof (cases p)
  case Alloc
  show ?thesis
  proof (cases "spare b")
    case Nil
    then show ?thesis using Alloc assms alloc_none by (auto intro: exI[of _ 0])
  next
    case (Cons v vs)
    then show ?thesis using Alloc alloc_some[OF assms Cons] by (auto intro: exI[of _ 0])
  qed
next
  case (FreeUsed k)
  have "drop k (used b) @ spare b @ take k (used b) = rotate (length (take k (used b))) (take k (used b) @ drop k (used b) @ spare b)"
    by (simp only: rotate_append append_assoc)
  also have "take k (used b) @ drop k (used b) @ spare b = used b @ spare b" by simp
  finally show ?thesis using FreeUsed free_used_law[OF assms, of k] by (metis append_assoc run.simps(2))
next
  case (FreeUnused k)
  have "take (length (used b) - k) (used b) @ drop (length (used b) - k) (used b) @ spare b = rotate 0 (used b @ spare b)"
    by (metis append_assoc append_take_drop_id rotate0 id_apply)
  then show ?thesis using FreeUnused free_unused_law[OF assms, of k] by (metis run.simps(3))
qed

lemma runs_conserve:
  assumes "inv b"
  shows "inv (fold run ps b) \<and> (\<exists>i. used (fold run ps b) @ spare (fold run ps b) = rotate i (used b @ spare b))"
  using assms
proof (induction ps arbitrary: b)
  case Nil
  then show ?case by (auto intro: exI[of _ 0])
next
  case (Cons p ps)
  obtain i where i: "inv (run p b)" "used (run p b) @ spare (run p b) = rotate i (used b @ spare b)"
    using run_conserves[OF Cons.prems] by blast
  then show ?case using Cons.IH[OF i(1)] by (auto simp: rotate_rotate)
qed

text \<open>Taking several buffers, and returning them unused.\<close>

fun alloc_many :: "nat \<Rightarrow> 'b \<Rightarrow> 'v list \<times> 'b" where
  "alloc_many 0 b = ([], b)"
| "alloc_many (Suc k) b = (case alloc b of (None, b) \<Rightarrow> ([], b)
     | (Some v, b) \<Rightarrow> let (vs, b) = alloc_many k b in (v # vs, b))"

lemma alloc_many:
  assumes "inv b"
  shows "\<exists>b'. alloc_many k b = (take k (spare b), b') \<and> inv b' \<and> used b' = used b @ take k (spare b)
    \<and> spare b' = drop k (spare b)"
  using assms
proof (induction k arbitrary: b)
  case (Suc k)
  show ?case
  proof (cases "spare b")
    case Nil
    then show ?thesis using Suc.prems alloc_none by simp
  next
    case (Cons v vs)
    from alloc_some[OF Suc.prems Cons] obtain b1 where b1: "alloc b = (Some v, b1)" "inv b1" "used b1 = used b @ [v]" "spare b1 = vs"
      by blast
    show ?thesis using Suc.IH[OF b1(2)] b1 Cons by auto
  qed
qed simp

lemma alloc_then_unused:
  assumes "inv b" "alloc_many k b = (vs, b')"
  shows "used (free_unused (length vs) b') = used b \<and> spare (free_unused (length vs) b') = spare b"
  using alloc_many[OF assms(1), of k] free_unused_law[of b' "length vs"] assms(2) by auto

end

section \<open>The model\<close>

definition NUM_BUFS :: nat where [hwc]: "NUM_BUFS = 4000"

record Buffer =
  TotalNum :: int
  AllocNum :: int
  FirstBuf :: int
  LastBuf :: int
  FreePtr :: int
  AllocPtr :: int
  origVA :: "u32 list"

definition Buffer_zero :: Buffer where
  "Buffer_zero = \<lparr>TotalNum = 0, AllocNum = 0, FirstBuf = 0, LastBuf = 0, FreePtr = 0, AllocPtr = 0,
     origVA = replicate NUM_BUFS 0\<rparr>"

text \<open>
  The allocation loop stops at the first \<open>NULL\<close> of \<open>__get_free_pages\<close>; \<open>page i\<close> is what its call
  number \<open>i\<close> returns.
\<close>

fun init_loop :: "nat \<Rightarrow> (nat \<Rightarrow> u32) \<Rightarrow> nat \<Rightarrow> u32 list \<Rightarrow> nat \<times> u32 list" where
  "init_loop 0 page i va = (i, va)"
| "init_loop (Suc k) page i va = (if page i = 0 then (i, va) else init_loop k page (Suc i) (va[i := page i]))"

definition InitBuffers :: "(nat \<Rightarrow> u32) \<Rightarrow> Buffer \<Rightarrow> Buffer" where
  "InitBuffers page bptr =
     (let bptr = bptr\<lparr>TotalNum := 0, AllocNum := 0, FirstBuf := 0, LastBuf := 0, FreePtr := 0, AllocPtr := 0\<rparr>;
          (i, va) = init_loop NUM_BUFS page 0 (origVA bptr);
          bptr = bptr\<lparr>origVA := va\<rparr>
      in if i \<noteq> 0
         then bptr\<lparr>FirstBuf := 0, LastBuf := int i, FreePtr := 0, AllocPtr := 0, TotalNum := int i, AllocNum := 0\<rparr>
         else bptr)"

definition AllocBuf :: "Buffer \<Rightarrow> u32 \<times> Buffer" where
  "AllocBuf bptr =
     (if AllocNum bptr = TotalNum bptr then (0, bptr)
      else let freeptr = FreePtr bptr;
               cptr = origVA bptr ! nat freeptr;
               bptr = bptr\<lparr>FreePtr := FreePtr bptr + 1\<rparr>;
               bptr = (if FreePtr bptr = LastBuf bptr then bptr\<lparr>FreePtr := 0\<rparr> else bptr);
               bptr = bptr\<lparr>AllocNum := AllocNum bptr + 1\<rparr>
           in (cptr, bptr))"

fun free_used_loop :: "nat \<Rightarrow> Buffer \<Rightarrow> Buffer" where
  "free_used_loop 0 bptr = bptr"
| "free_used_loop (Suc k) bptr =
     (if AllocNum bptr = 0 then bptr
      else let bptr = bptr\<lparr>AllocPtr := AllocPtr bptr + 1\<rparr>;
               bptr = (if AllocPtr bptr = LastBuf bptr then bptr\<lparr>AllocPtr := 0\<rparr> else bptr);
               bptr = bptr\<lparr>AllocNum := AllocNum bptr - 1\<rparr>
           in free_used_loop k bptr)"

definition FreeUsedBuf :: "int \<Rightarrow> Buffer \<Rightarrow> Buffer" where
  "FreeUsedBuf num bptr = free_used_loop (nat num) bptr"

fun free_unused_loop :: "nat \<Rightarrow> Buffer \<Rightarrow> Buffer" where
  "free_unused_loop 0 bptr = bptr"
| "free_unused_loop (Suc k) bptr =
     (if AllocNum bptr = 0 then bptr
      else let bptr = (if FreePtr bptr = 0 then bptr\<lparr>FreePtr := LastBuf bptr\<rparr> else bptr);
               bptr = bptr\<lparr>FreePtr := FreePtr bptr - 1\<rparr>;
               bptr = bptr\<lparr>AllocNum := AllocNum bptr - 1\<rparr>
           in free_unused_loop k bptr)"

definition FreeUnusedBuf :: "int \<Rightarrow> Buffer \<Rightarrow> Buffer" where
  "FreeUnusedBuf num bptr = free_unused_loop (nat num) bptr"

section \<open>Invariant and abstraction\<close>

definition buf_inv :: "Buffer \<Rightarrow> bool" where
  "buf_inv b \<longleftrightarrow> 0 \<le> AllocNum b \<and> AllocNum b \<le> TotalNum b \<and> TotalNum b \<le> int NUM_BUFS \<and> LastBuf b = TotalNum b
     \<and> 0 \<le> AllocPtr b \<and> (AllocPtr b = 0 \<or> AllocPtr b < TotalNum b)
     \<and> FreePtr b = (AllocPtr b + AllocNum b) mod TotalNum b
     \<and> length (origVA b) = NUM_BUFS \<and> (\<forall>v\<in>set (take (nat (TotalNum b)) (origVA b)). v \<noteq> 0)"

definition buf_used :: "Buffer \<Rightarrow> u32 list" where
  "buf_used b = map ((!) (origVA b)) (cyc (nat (TotalNum b)) (nat (AllocPtr b)) (nat (AllocNum b)))"

definition buf_spare :: "Buffer \<Rightarrow> u32 list" where
  "buf_spare b = map ((!) (origVA b))
     (cyc (nat (TotalNum b)) (nat (AllocPtr b) + nat (AllocNum b)) (nat (TotalNum b) - nat (AllocNum b)))"

text \<open>The same, with natural numbers for the fields.\<close>

definition buf_at :: "nat \<Rightarrow> nat \<Rightarrow> nat \<Rightarrow> int \<Rightarrow> u32 list \<Rightarrow> Buffer" where
  "buf_at t a n f va = \<lparr>TotalNum = int t, AllocNum = int n, FirstBuf = f, LastBuf = int t,
     FreePtr = int ((a + n) mod t), AllocPtr = int a, origVA = va\<rparr>"

definition at_inv :: "nat \<Rightarrow> nat \<Rightarrow> nat \<Rightarrow> u32 list \<Rightarrow> bool" where
  "at_inv t a n va \<longleftrightarrow> n \<le> t \<and> t \<le> NUM_BUFS \<and> (a = 0 \<or> a < t) \<and> length va = NUM_BUFS \<and> 0 \<notin> set (take t va)"

lemma buf_inv_at: "buf_inv (buf_at t a n f va) \<longleftrightarrow> at_inv t a n va"
  by (auto simp: buf_inv_def at_inv_def buf_at_def zmod_int)

lemma buf_inv_cases:
  assumes "buf_inv b"
  obtains t a n f va where "b = buf_at t a n f va" "at_inv t a n va"
proof -
  let ?c = "buf_at (nat (TotalNum b)) (nat (AllocPtr b)) (nat (AllocNum b)) (FirstBuf b) (origVA b)"
  have "b = ?c" using assms by (cases b) (simp add: buf_at_def buf_inv_def zmod_int)
  then show ?thesis using that assms buf_inv_at by metis
qed

lemma buf_used_at: "buf_used (buf_at t a n f va) = map ((!) va) (cyc t a n)"
  "buf_spare (buf_at t a n f va) = map ((!) va) (cyc t (a + n) (t - n))"
  by (simp_all add: buf_used_def buf_spare_def buf_at_def)

lemma AllocBuf_at:
  assumes "at_inv t a n va"
  shows "AllocBuf (buf_at t a n f va)
    = (if n = t then (0, buf_at t a n f va) else (va ! ((a + n) mod t), buf_at t a (Suc n) f va))"
proof (cases "n = t")
  case False
  then have "(a + n) mod t < t" using assms by (simp add: at_inv_def)
  from wrap_Suc[OF this] have "(if int ((a + n) mod t) + 1 = int t then 0 else int ((a + n) mod t) + 1) = int (Suc (a + n) mod t)"
    using \<open>(a + n) mod t < t\<close> by (auto simp: mod_Suc_eq split: if_splits)
  then show ?thesis using False by (auto simp: AllocBuf_def buf_at_def Let_def split: if_splits)
qed (simp add: AllocBuf_def buf_at_def)

lemma free_used_at:
  assumes "at_inv t a n va" "0 < n"
  shows "free_used_loop (Suc k) (buf_at t a n f va) = free_used_loop k (buf_at t (Suc a mod t) (n - 1) f va)"
    "at_inv t (Suc a mod t) (n - 1) va"
proof -
  have a: "a < t" using assms by (auto simp: at_inv_def)
  have "(if int a + 1 = int t then 0 else int a + 1) = int (Suc a mod t)"
    using wrap_Suc[OF a] a by (auto split: if_splits)
  moreover have "(Suc a mod t + (n - 1)) mod t = (a + n) mod t"
    using assms(2) by (metis Suc_pred' add_Suc_right add_Suc mod_add_left_eq)
  ultimately show "free_used_loop (Suc k) (buf_at t a n f va) = free_used_loop k (buf_at t (Suc a mod t) (n - 1) f va)"
    using assms(2) by (auto simp: buf_at_def Let_def of_nat_diff split: if_splits)
  show "at_inv t (Suc a mod t) (n - 1) va" using assms a by (auto simp: at_inv_def)
qed

lemma free_unused_at:
  assumes "at_inv t a n va" "0 < n"
  shows "free_unused_loop (Suc k) (buf_at t a n f va) = free_unused_loop k (buf_at t a (n - 1) f va)"
    "at_inv t a (n - 1) va"
proof -
  have t: "0 < t" using assms by (auto simp: at_inv_def)
  define x where "x = (a + (n - 1)) mod t"
  have x: "x < t" using t by (simp add: x_def)
  have e: "(a + n) mod t = (if Suc x = t then 0 else Suc x)"
    using assms(2) mod_Suc[of "a + (n - 1)" t] by (simp add: x_def)
  show "free_unused_loop (Suc k) (buf_at t a n f va) = free_unused_loop k (buf_at t a (n - 1) f va)"
  proof -
    let ?F = "int ((a + n) mod t)"
    have "(if ?F = 0 then int t else ?F) - 1 = int x" using e x by (auto split: if_splits)
    then show ?thesis using assms(2) x_def by (auto simp: buf_at_def Let_def of_nat_diff split: if_splits)
  qed
  show "at_inv t a (n - 1) va" using assms by (auto simp: at_inv_def)
qed


section \<open>The model keeps the contract\<close>

lemma cyc_mod_add: "cyc t (x mod t + y) k = cyc t (x + y) k"
  by (metis cyc_mod mod_add_left_eq)

lemma cyc_full_turn: "cyc t (a + t) k = cyc t a k"
  by (metis cyc_mod mod_add_self2)

lemma free_used_loop_at:
  assumes "at_inv t a n va"
  shows "free_used_loop k (buf_at t a n f va) = buf_at t ((a + min k n) mod t) (n - k) f va
    \<and> at_inv t ((a + min k n) mod t) (n - k) va"
  using assms
proof (induction k arbitrary: a n)
  case 0
  have "a mod t = a" using 0 by (auto simp: at_inv_def)
  then show ?case using 0 by simp
next
  case (Suc k)
  show ?case
  proof (cases "n = 0")
    case True
    have "a mod t = a" using Suc.prems by (auto simp: at_inv_def)
    then show ?thesis using True Suc.prems by (simp add: buf_at_def)
  next
    case False
    then have "0 < n" by simp
    note st = free_used_at(1)[OF Suc.prems this, of k f] free_used_at(2)[OF Suc.prems this]
    have e: "Suc a mod t + min k (n - 1) = Suc a mod t + min k (n - 1)" "n - 1 - k = n - Suc k" by simp_all
    have "(Suc a mod t + min k (n - 1)) mod t = (a + min (Suc k) n) mod t"
      using \<open>0 < n\<close> by (metis Suc_pred' add_Suc_right add_Suc min_Suc_Suc mod_add_left_eq)
    then show ?thesis using Suc.IH[OF st(2)] st(1) by (simp only: e(2))
  qed
qed

lemma free_unused_loop_at:
  assumes "at_inv t a n va"
  shows "free_unused_loop k (buf_at t a n f va) = buf_at t a (n - k) f va \<and> at_inv t a (n - k) va"
  using assms
proof (induction k arbitrary: n)
  case (Suc k)
  show ?case
  proof (cases "n = 0")
    case True
    then show ?thesis using Suc.prems by (simp add: buf_at_def)
  next
    case False
    then have "0 < n" by simp
    note st = free_unused_at(1)[OF Suc.prems this, of k f] free_unused_at(2)[OF Suc.prems this]
    show ?thesis using Suc.IH[OF st(2)] st(1) by (simp add: diff_diff_left)
  qed
qed simp

definition alloc_opt :: "Buffer \<Rightarrow> u32 option \<times> Buffer" where
  "alloc_opt b = (let (v, b) = AllocBuf b in (if v = 0 then None else Some v, b))"

lemma at_entry: "at_inv t a n va \<Longrightarrow> n < t \<Longrightarrow> va ! ((a + n) mod t) \<noteq> 0"
proof -
  assume a: "at_inv t a n va" "n < t"
  then have "(a + n) mod t < t" by simp
  moreover from this have "va ! ((a + n) mod t) = take t va ! ((a + n) mod t)" by simp
  moreover have "length (take t va) = t" using a by (simp add: at_inv_def)
  ultimately have "va ! ((a + n) mod t) \<in> set (take t va)" by (metis nth_mem)
  then show ?thesis using a by (auto simp: at_inv_def)
qed

interpretation bufs: buffer_window buf_inv buf_used buf_spare alloc_opt free_used_loop free_unused_loop
proof (unfold_locales, goal_cases)
  case (1 b)
  from 1(1) obtain t a n f va where b: "b = buf_at t a n f va" "at_inv t a n va" by (rule buf_inv_cases)
  have "t - n = 0" using 1(2) unfolding b(1) buf_used_at by (cases "t - n") (auto simp: cyc_Suc)
  then show ?case using b AllocBuf_at[OF b(2), of f] by (simp add: alloc_opt_def at_inv_def)
next
  case (2 b v vs)
  from 2(1) obtain t a n f va where b: "b = buf_at t a n f va" "at_inv t a n va" by (rule buf_inv_cases)
  have n: "n < t" using 2(2) unfolding b(1) buf_used_at by (cases "n < t") auto
  then obtain d where d: "t - n = Suc d" "t - Suc n = d" by (metis Suc_diff_Suc)
  have v: "v = va ! ((a + n) mod t)" "vs = map ((!) va) (cyc t (a + Suc n) d)"
    using 2(2) unfolding b(1) buf_used_at d by (auto simp: cyc_Suc)
  have "at_inv t a (Suc n) va" using b(2) n by (simp add: at_inv_def)
  then show ?case using AllocBuf_at[OF b(2), of f] at_entry[OF b(2) n] n v
    by (simp add: b(1) alloc_opt_def buf_inv_at buf_used_at d cyc_snoc)
next
  case (3 b k)
  from 3(1) obtain t a n f va where b: "b = buf_at t a n f va" "at_inv t a n va" by (rule buf_inv_cases)
  have n: "n \<le> t" using b(2) by (simp add: at_inv_def)
  have "cyc t (a + min k n + (n - k)) (t - (n - k)) = cyc t (a + n) ((t - n) + min k n)"
    using n by (auto simp: min_def)
  also have "\<dots> = cyc t (a + n) (t - n) @ cyc t (a + t) (min k n)"
    using n by (simp only: cyc_add) simp
  also have "cyc t (a + t) (min k n) = cyc t a (min k n)" by (rule cyc_full_turn)
  finally have s: "cyc t (a + min k n + (n - k)) (t - (n - k)) = cyc t (a + n) (t - n) @ cyc t a (min k n)" .
  have u: "cyc t (a + min k n) (n - k) = drop k (cyc t a n)" "cyc t a (min k n) = take k (cyc t a n)"
    using take_cyc[of k n t a] drop_cyc[of k n t a] by (auto simp: min_def)
  show ?case using free_used_loop_at[OF b(2), of k f]
    by (simp add: b(1) buf_inv_at buf_used_at cyc_mod_add s u(1) drop_map take_map) (simp add: u(2))
next
  case (4 b k)
  from 4(1) obtain t a n f va where b: "b = buf_at t a n f va" "at_inv t a n va" by (rule buf_inv_cases)
  have n: "n \<le> t" using b(2) by (simp add: at_inv_def)
  have "cyc t (a + (n - k)) (t - (n - k)) = cyc t (a + (n - k)) ((n - (n - k)) + (t - n))" using n by simp
  also have "\<dots> = cyc t (a + (n - k)) (n - (n - k)) @ cyc t (a + (n - k) + (n - (n - k))) (t - n)" by (rule cyc_add)
  also have "a + (n - k) + (n - (n - k)) = a + n" by simp
  also have "cyc t (a + (n - k)) (n - (n - k)) = drop (n - k) (cyc t a n)" by (simp add: drop_cyc)
  finally have s: "cyc t (a + (n - k)) (t - (n - k)) = drop (n - k) (cyc t a n) @ cyc t (a + n) (t - n)" .
  show ?case using free_unused_loop_at[OF b(2), of k f]
    by (simp add: b(1) buf_inv_at buf_used_at s drop_map take_map take_cyc)
qed

lemma init_loop_spec:
  assumes "init_loop k page i va = (j, va')" "i + k \<le> length va" "0 \<notin> set (take i va)"
  shows "i \<le> j \<and> j \<le> i + k \<and> length va' = length va \<and> 0 \<notin> set (take j va') \<and> take i va' = take i va
    \<and> (\<forall>l. i \<le> l \<and> l < j \<longrightarrow> va' ! l = page l \<and> page l \<noteq> 0) \<and> (j < i + k \<longrightarrow> page j = 0)"
  using assms
proof (induction k arbitrary: i va)
  case (Suc k)
  show ?case
  proof (cases "page i = 0")
    case True
    then show ?thesis using Suc.prems by auto
  next
    case False
    have i: "i < length va" using Suc.prems(2) by simp
    have "take (Suc i) (va[i := page i]) = take i va @ [page i]" using i by (simp add: take_Suc_conv_app_nth)
    then have pre: "0 \<notin> set (take (Suc i) (va[i := page i]))" using False Suc.prems(3) by auto
    have run: "init_loop k page (Suc i) (va[i := page i]) = (j, va')" using Suc.prems(1) False by simp
    have "Suc i + k \<le> length (va[i := page i])" using Suc.prems(2) by simp
    note IH = Suc.IH[OF run this pre]
    have t: "take (Suc i) va' = take i va @ [page i]" using IH i by (simp add: take_Suc_conv_app_nth)
    have "take i (take (Suc i) va') = take i va" unfolding t using i by simp
    then have "take i va' = take i va" by simp
    moreover have "va' ! i = page i"
    proof -
      have "va' ! i = take (Suc i) va' ! i" by simp
      then show ?thesis unfolding t using i by (simp add: nth_append)
    qed
    ultimately show ?thesis using IH False by (auto simp: le_Suc_eq) (metis Suc_leI le_neq_implies_less)+
  qed
qed auto

lemma InitBuffers_spec:
  assumes "length (origVA b) = NUM_BUFS"
  shows "\<exists>t\<le>NUM_BUFS. buf_inv (InitBuffers page b) \<and> buf_used (InitBuffers page b) = []
    \<and> buf_spare (InitBuffers page b) = map page [0..<t] \<and> (\<forall>i<t. page i \<noteq> 0) \<and> (t < NUM_BUFS \<longrightarrow> page t = 0)
    \<and> TotalNum (InitBuffers page b) = int t"
proof -
  obtain t va where r: "init_loop NUM_BUFS page 0 (origVA b) = (t, va)" by fastforce
  have s: "t \<le> NUM_BUFS" "length va = NUM_BUFS" "0 \<notin> set (take t va)" "\<forall>l<t. va ! l = page l \<and> page l \<noteq> 0"
    "t < NUM_BUFS \<longrightarrow> page t = 0"
    using init_loop_spec[OF r] assms by auto
  have e: "InitBuffers page b = buf_at t 0 0 0 va"
    using r by (cases b) (auto simp: InitBuffers_def buf_at_def Let_def)
  have "buf_spare (InitBuffers page b) = map page [0..<t]"
    unfolding e buf_used_at by (rule nth_equalityI) (auto simp: nth_cyc s)
  then show ?thesis using s e buf_inv_at[of t 0 0 0 va] 
    by (intro exI[of _ t]) (simp add: at_inv_def buf_used_at, simp add: buf_at_def)
qed

end
