(* ===== verification/PktPool.thy ===== *)
theory PktPool
  imports Xdma
begin

text \<open>
  The pool of packet arrays of \<open>fc1553_dma/xdma/xdma_base.c\<close> (\<open>DQPool\<close>, \<open>EQPool\<close>): a singly linked
  list of \<open>MAX_POOL\<close> nodes, each with an array of \<open>DMA_BD_CNT\<close> packet descriptions. The locale
  \<open>fifo_pool\<close> is what its users rely on.
\<close>

section \<open>The interface of a pool\<close>

datatype 'a pool_op = Borrow | Return 'a

locale fifo_pool =
  fixes rep :: "'s \<Rightarrow> 'a list \<Rightarrow> bool"
    and deq :: "'s \<Rightarrow> 'a option \<times> 's"
    and enq :: "'a \<Rightarrow> 's \<Rightarrow> 's"
  assumes deq_law: "rep s (x # y # ys) \<Longrightarrow> \<exists>s'. deq s = (Some x, s') \<and> rep s' (y # ys)"
    and enq_law: "rep s xs \<Longrightarrow> xs \<noteq> [] \<Longrightarrow> a \<notin> set xs \<Longrightarrow> rep (enq a s) (xs @ [a])"
    and rep_distinct: "rep s xs \<Longrightarrow> distinct xs"
begin

text \<open>A user of the pool: \<open>None\<close> when a borrow finds no node or a node is returned twice.\<close>

fun use :: "'a pool_op list \<Rightarrow> 's \<times> 'a list \<Rightarrow> ('s \<times> 'a list) option" where
  "use [] st = Some st"
| "use (Borrow # os) (s, out) =
     (case deq s of (None, s') \<Rightarrow> None | (Some x, s') \<Rightarrow> use os (s', x # out))"
| "use (Return a # os) (s, out) =
     (if a \<in> set out then use os (enq a s, remove1 a out) else None)"

text \<open>At most \<open>n\<close> nodes are out at any time, and only nodes that are out are returned.\<close>

fun bracketed :: "nat \<Rightarrow> 'a pool_op list \<Rightarrow> 's \<times> 'a list \<Rightarrow> bool" where
  "bracketed n [] st \<longleftrightarrow> True"
| "bracketed n (Borrow # os) (s, out) \<longleftrightarrow> length out < n \<and>
     (case deq s of (None, s') \<Rightarrow> True | (Some x, s') \<Rightarrow> bracketed n os (s', x # out))"
| "bracketed n (Return a # os) (s, out) \<longleftrightarrow>
     a \<in> set out \<and> bracketed n os (enq a s, remove1 a out)"

lemma borrow_return:
  assumes "rep s (x # y # ys)"
  shows "\<exists>s'. deq s = (Some x, s') \<and> rep s' (y # ys) \<and> rep (enq x s') (y # ys @ [x])"
  using deq_law[OF assms] enq_law[of _ "y # ys" x] rep_distinct[OF assms] by fastforce

lemma use_never_fails:
  assumes "rep s xs" "distinct (xs @ out)" "length (xs @ out) = Suc n" "bracketed n os (s, out)" "xs \<noteq> []"
  shows "\<exists>s' out' xs'. use os (s, out) = Some (s', out') \<and> rep s' xs' \<and> xs' \<noteq> []
    \<and> distinct (xs' @ out') \<and> set (xs' @ out') = set (xs @ out) \<and> length (xs' @ out') = Suc n"
  using assms
proof (induction os arbitrary: s out xs)
  case Nil
  then show ?case by auto
next
  case (Cons o1 os)
  show ?case
  proof (cases o1)
    case Borrow
    then have "2 \<le> length xs" using Cons.prems by simp
    then obtain x y ys where xs: "xs = x # y # ys" by (auto simp: numeral_2_eq_2 Suc_le_length_iff)
    from deq_law[OF Cons.prems(1)[unfolded xs]] obtain s' where
      s': "deq s = (Some x, s')" "rep s' (y # ys)" by blast
    have "bracketed n os (s', x # out)" using Cons.prems(4) Borrow s' by simp
    from Cons.IH[OF s'(2) _ _ this] Cons.prems(2,3) xs
    obtain s2 out2 xs2 where r: "use os (s', x # out) = Some (s2, out2)" "rep s2 xs2" "xs2 \<noteq> []"
      "distinct (xs2 @ out2)" "set (xs2 @ out2) = set ((y # ys) @ x # out)" "length (xs2 @ out2) = Suc n"
      by auto
    have "set (xs2 @ out2) = set (xs @ out)" using r(5) xs by auto
    then show ?thesis using Borrow s' r by (intro exI[of _ s2] exI[of _ out2] exI[of _ xs2]) simp
  next
    case (Return a)
    then have a: "a \<in> set out" "bracketed n os (enq a s, remove1 a out)" using Cons.prems(4) by auto
    have "a \<notin> set xs" using a(1) Cons.prems(2) by auto
    from enq_law[OF Cons.prems(1,5) this] have rp: "rep (enq a s) (xs @ [a])" .
    have d: "distinct out" using Cons.prems(2) by simp
    have "distinct ((xs @ [a]) @ remove1 a out)"
      using Cons.prems(2) \<open>a \<notin> set xs\<close> d set_remove1_subset[of a out] by auto
    moreover have "length ((xs @ [a]) @ remove1 a out) = Suc n"
    proof -
      have "0 < length out" using a(1) by auto
      moreover have "length (remove1 a out) = length out - 1" using a(1) by (simp add: length_remove1)
      ultimately show ?thesis using Cons.prems(3) by simp
    qed
    ultimately obtain s2 out2 xs2 where r: "use os (enq a s, remove1 a out) = Some (s2, out2)"
      "rep s2 xs2" "xs2 \<noteq> []" "distinct (xs2 @ out2)"
      "set (xs2 @ out2) = set ((xs @ [a]) @ remove1 a out)" "length (xs2 @ out2) = Suc n"
      using Cons.IH[OF rp _ _ a(2)] by auto
    have "set (xs2 @ out2) = set (xs @ out)" using r(5) a(1) d by auto
    then show ?thesis using Return a r by (intro exI[of _ s2] exI[of _ out2] exI[of _ xs2]) simp
  qed
qed

end

section \<open>The pool\<close>

definition DMA_BD_CNT :: nat where [hwc]: "DMA_BD_CNT = 3999"
definition MAX_POOL :: nat where [hwc]: "MAX_POOL = 10"

text \<open>
  Node \<open>i\<close> is \<open>pktPool[i]\<close>: its \<open>next\<close> pointer and the packet array \<open>pktArray[i]\<close> it owns.
\<close>

record pkt_pool =
  pool_next :: "nat \<Rightarrow> nat option"
  pktPoolHead :: "nat option"
  pktPoolTail :: "nat option"
  pktArray :: "nat \<Rightarrow> PktBuf list"

definition init_pools :: "pkt_pool \<Rightarrow> pkt_pool" where
  "init_pools P = P\<lparr>pool_next := (\<lambda>i. if i < MAX_POOL then (if i = MAX_POOL - 1 then None else Some (i + 1))
                                  else pool_next P i),
     pktPoolTail := Some (MAX_POOL - 1), pktPoolHead := Some 0\<rparr>"

definition DQPool :: "pkt_pool \<times> mach \<Rightarrow> nat option \<times> pkt_pool \<times> mach" where
  "DQPool = (\<lambda>(P, m).
     let m = spin_lock PktPoolLock m;
         ppool = pktPoolHead P
     in case ppool of
          None \<Rightarrow> (None, P, null_deref m)
        | Some i \<Rightarrow> (ppool, P\<lparr>pktPoolHead := pool_next P i\<rparr>, spin_unlock PktPoolLock m))"

definition EQPool :: "nat \<Rightarrow> pkt_pool \<times> mach \<Rightarrow> pkt_pool \<times> mach" where
  "EQPool pp = (\<lambda>(P, m).
     let m = spin_lock PktPoolLock m
     in case pktPoolTail P of
          None \<Rightarrow> (P, null_deref m)
        | Some t \<Rightarrow>
            let P = P\<lparr>pool_next := (pool_next P)(t := Some pp)\<rparr>;
                P = P\<lparr>pool_next := (pool_next P)(pp := None)\<rparr>;
                P = P\<lparr>pktPoolTail := Some pp\<rparr>
            in (P, spin_unlock PktPoolLock m))"

text \<open>The nodes reachable from a pointer.\<close>

fun chain :: "(nat \<Rightarrow> nat option) \<Rightarrow> nat option \<Rightarrow> nat list \<Rightarrow> bool" where
  "chain nx h [] \<longleftrightarrow> h = None"
| "chain nx h (x # xs) \<longleftrightarrow> h = Some x \<and> chain nx (nx x) xs"

definition pool_rep :: "pkt_pool \<times> mach \<Rightarrow> nat list \<Rightarrow> bool" where
  "pool_rep s xs \<longleftrightarrow> chain (pool_next (fst s)) (pktPoolHead (fst s)) xs \<and> distinct xs
     \<and> (xs \<noteq> [] \<longrightarrow> pktPoolTail (fst s) = Some (last xs))"

lemma chain_upd: "t \<notin> set xs \<Longrightarrow> chain (nx(t := v)) h xs = chain nx h xs"
  by (induction xs arbitrary: h) auto

lemma chain_append:
  "chain nx h xs \<Longrightarrow> distinct xs \<Longrightarrow> xs \<noteq> [] \<Longrightarrow> a \<notin> set xs \<Longrightarrow>
     chain (nx(last xs := Some a, a := None)) h (xs @ [a])"
proof (induction xs arbitrary: h)
  case (Cons x xs)
  show ?case
  proof (cases "xs = []")
    case False
    then have "x \<noteq> last xs" using Cons.prems(2) by auto
    then show ?thesis using Cons False by simp
  qed (use Cons.prems in auto)
qed simp

lemma chain_upto:
  "i + k = MAX_POOL \<Longrightarrow>
     chain (pool_next (init_pools P)) (if k = 0 then None else Some i) [i..<MAX_POOL]"
proof (induction k arbitrary: i)
  case (Suc k)
  then have i: "i < MAX_POOL" by simp
  have "chain (pool_next (init_pools P)) (if k = 0 then None else Some (Suc i)) [Suc i..<MAX_POOL]"
    using Suc.IH[of "Suc i"] Suc.prems by simp
  moreover have "pool_next (init_pools P) i = (if k = 0 then None else Some (Suc i))"
    using Suc.prems i by (auto simp: init_pools_def)
  ultimately show ?case using i by (simp add: upt_conv_Cons)
qed simp

lemma init_pools_rep: "pool_rep (init_pools P, m) [0..<MAX_POOL]"
proof -
  have "pktPoolHead (init_pools P) = Some 0" "pktPoolTail (init_pools P) = Some (MAX_POOL - 1)"
    by (simp_all add: init_pools_def)
  then show ?thesis using chain_upto[of 0 MAX_POOL P] by (auto simp: pool_rep_def MAX_POOL_def)
qed

interpretation pools: fifo_pool pool_rep DQPool EQPool
proof
  fix s x y ys assume "pool_rep s (x # y # ys)"
  then show "\<exists>s'. DQPool s = (Some x, s') \<and> pool_rep s' (y # ys)"
    by (cases s) (auto simp: pool_rep_def DQPool_def Let_def)
next
  fix s xs a assume "pool_rep s xs" "xs \<noteq> []" "a \<notin> set xs"
  then show "pool_rep (EQPool a s) (xs @ [a])"
    by (cases s) (auto simp: pool_rep_def EQPool_def Let_def chain_append)
qed (simp add: pool_rep_def)

text \<open>
  Taking the last node empties the list; giving it back afterwards does not restore the head, so
  the pool stays empty and the next caller follows a \<open>NULL\<close> pointer.
\<close>

lemma drained_pool_is_lost:
  assumes "pool_rep (P, m) [x]"
  shows "\<exists>P' m'. DQPool (P, m) = (Some x, P', m') \<and> pktPoolHead (fst (EQPool x (P', m'))) = None
     \<and> fst (DQPool (EQPool x (P', m'))) = None"
  using assms by (auto simp: pool_rep_def DQPool_def EQPool_def Let_def)

end
