(* ===== verification/Stats.thy ===== *)
theory Stats
  imports Prelude
begin

text \<open>
  The statistics buffers of \<open>fc1553_dma/xdma/xdma_base.c\<close>: for every engine, and for the PCIe
  transaction layer, the latest \<open>MAX_STATS\<close> samples in a circular array with a read index, a write
  index and a count (\<open>DStats\<close>/\<open>dstatsRead\<close>/\<open>dstatsWrite\<close>/\<open>dstatsNum\<close> and the \<open>SStats\<close>, \<open>TStats\<close>
  variants). The three copies of the code are one definition here, over the type of the sample.
\<close>

section \<open>The interface: a log that keeps the latest samples\<close>

locale latest_log =
  fixes inv :: "'q \<Rightarrow> bool"
    and contents :: "'q \<Rightarrow> 'a list"
    and put :: "'a \<Rightarrow> 'q \<Rightarrow> 'q"
    and get :: "'q \<Rightarrow> 'a \<times> 'q"
    and cap :: nat
  assumes put_inv: "inv q \<Longrightarrow> inv (put v q)"
    and put_contents: "inv q \<Longrightarrow> contents (put v q)
          = drop (length (contents q) + 1 - cap) (contents q @ [v])"
    and get_law: "inv q \<Longrightarrow> contents q = x # xs \<Longrightarrow>
          \<exists>q'. get q = (x, q') \<and> inv q' \<and> contents q' = xs"
    and cap_bound: "inv q \<Longrightarrow> length (contents q) \<le> cap"
begin

text \<open>However many samples are taken, what can be read is the newest \<open>cap\<close> of them, in order.\<close>

lemma put_many: "inv q \<Longrightarrow> inv (fold put vs q) \<and>
    contents (fold put vs q) = drop (length (contents q) + length vs - cap) (contents q @ vs)"
proof (induction vs arbitrary: q)
  case Nil
  then show ?case using cap_bound[of q] by simp
next
  case (Cons v vs)
  let ?c = "contents q" and ?d = "length (contents q) + 1 - cap"
  have c: "contents (put v q) = drop ?d (?c @ [v])" by (rule put_contents[OF Cons.prems])
  have "contents (fold put (v # vs) q)
      = drop (length (contents (put v q)) + length vs - cap) (drop ?d (?c @ [v]) @ vs)"
    using Cons.IH[OF put_inv[OF Cons.prems]] c by simp
  also have "drop ?d (?c @ [v]) @ vs = drop ?d (?c @ v # vs)"
    using drop_append[of ?d "?c @ [v]" vs] by (simp del: drop_append)
  also have "length (contents (put v q)) = length ?c + 1 - ?d" using c by simp
  also have "drop (length ?c + 1 - ?d + length vs - cap) (drop ?d (?c @ v # vs))
      = drop (length ?c + length (v # vs) - cap) (?c @ v # vs)"
  proof -
    have "length ?c + 1 - ?d + length vs - cap + ?d = length ?c + length (v # vs) - cap"
      using cap_bound[OF Cons.prems] by simp
    then show ?thesis by (simp only: drop_drop)
  qed
  finally show ?case using Cons.IH[OF put_inv[OF Cons.prems]] by simp
qed

fun get_many :: "nat \<Rightarrow> 'q \<Rightarrow> 'a list \<times> 'q" where
  "get_many 0 q = ([], q)"
| "get_many (Suc k) q = (let (x, q) = get q; (xs, q) = get_many k q in (x # xs, q))"

lemma get_many: "inv q \<Longrightarrow> k \<le> length (contents q) \<Longrightarrow>
    \<exists>q'. get_many k q = (take k (contents q), q') \<and> inv q' \<and> contents q' = drop k (contents q)"
proof (induction k arbitrary: q)
  case (Suc k)
  then obtain x xs where c: "contents q = x # xs" by (cases "contents q") auto
  obtain q1 where q1: "get q = (x, q1)" "inv q1" "contents q1 = xs" using get_law[OF Suc.prems(1) c] by blast
  then show ?case using Suc.IH[OF q1(2)] Suc.prems(2) c by auto
qed simp

end

section \<open>The circular arrays\<close>

definition MAX_STATS :: nat where [hwc]: "MAX_STATS = 100"

record DMAStatistics =
  D_Engine :: int
  D_LBR :: u32
  D_LAT :: u32
  D_LWT :: u32

record TRNStatistics =
  T_LTX :: u32
  T_LRX :: u32

record SWStatistics =
  S_Engine :: int
  S_LBR :: u32

record 'a stat_ring =
  statsArr :: "'a list"
  statsRead :: nat
  statsWrite :: nat
  statsNum :: nat

text \<open>Storing a sample: the read index is pushed along when the buffer is full.\<close>

definition stats_put :: "'a \<Rightarrow> 'a stat_ring \<Rightarrow> 'a stat_ring" where
  "stats_put v q =
     (let q = q\<lparr>statsArr := (statsArr q)[statsWrite q := v]\<rparr>;
          q = q\<lparr>statsWrite := statsWrite q + 1\<rparr>;
          q = (if statsWrite q \<ge> MAX_STATS then q\<lparr>statsWrite := 0\<rparr> else q)
      in if statsNum q < MAX_STATS then q\<lparr>statsNum := statsNum q + 1\<rparr>
         else let q = q\<lparr>statsRead := statsRead q + 1\<rparr>
              in if statsRead q \<ge> MAX_STATS then q\<lparr>statsRead := 0\<rparr> else q)"

text \<open>Fetching one; the code does this only when the count is not zero.\<close>

definition stats_get :: "'a stat_ring \<Rightarrow> 'a \<times> 'a stat_ring" where
  "stats_get q =
     (let frm = statsArr q ! statsRead q;
          q = q\<lparr>statsNum := statsNum q - 1\<rparr>;
          q = q\<lparr>statsRead := statsRead q + 1\<rparr>;
          q = (if statsRead q = MAX_STATS then q\<lparr>statsRead := 0\<rparr> else q)
      in (frm, q))"

definition stats_reset :: "'a stat_ring \<Rightarrow> 'a stat_ring" where
  "stats_reset q = q\<lparr>statsRead := 0, statsWrite := 0, statsNum := 0\<rparr>"

definition stats_inv :: "'a stat_ring \<Rightarrow> bool" where
  "stats_inv q \<longleftrightarrow> length (statsArr q) = MAX_STATS \<and> statsRead q < MAX_STATS \<and> statsNum q \<le> MAX_STATS
     \<and> statsWrite q = (statsRead q + statsNum q) mod MAX_STATS"

definition stats_contents :: "'a stat_ring \<Rightarrow> 'a list" where
  "stats_contents q = map ((!) (statsArr q)) (cyc MAX_STATS (statsRead q) (statsNum q))"

lemma stats_reset_inv: "length (statsArr q) = MAX_STATS \<Longrightarrow> stats_inv (stats_reset q)"
  by (simp add: stats_inv_def stats_reset_def MAX_STATS_def)

lemma map_cyc_upd:
  assumes "k < n" "length xs = n"
  shows "map ((!) (xs[(i + k) mod n := v])) (cyc n i k) = map ((!) xs) (cyc n i k)"
proof (rule map_cong[OF refl])
  fix j assume "j \<in> set (cyc n i k)"
  then obtain l where l: "l < k" "j = (i + l) mod n" by (auto simp: cyc_def)
  then have "j \<noteq> (i + k) mod n" using assms mod_add_inj[of i l n k] by auto
  then show "xs[(i + k) mod n := v] ! j = xs ! j" by simp
qed

lemma stats_put_eq:
  assumes "stats_inv q"
  shows "stats_put v q = q\<lparr>statsArr := (statsArr q)[statsWrite q := v],
     statsWrite := Suc (statsWrite q) mod MAX_STATS,
     statsNum := min MAX_STATS (Suc (statsNum q)),
     statsRead := (if statsNum q < MAX_STATS then statsRead q else Suc (statsRead q) mod MAX_STATS)\<rparr>"
proof -
  have w: "statsWrite q < MAX_STATS" and r: "statsRead q < MAX_STATS" and n: "statsNum q \<le> MAX_STATS"
    using assms by (auto simp: stats_inv_def MAX_STATS_def)
  show ?thesis using wrap_Suc[OF w] wrap_Suc[OF r] n
    by (cases "statsNum q < MAX_STATS") (auto simp: stats_put_def Let_def min_def split: if_splits)
qed

lemma stats_put_law:
  assumes "stats_inv q"
  shows "stats_inv (stats_put v q) \<and> stats_contents (stats_put v q)
    = drop (length (stats_contents q) + 1 - MAX_STATS) (stats_contents q @ [v])"
proof (cases "statsNum q < MAX_STATS")
  case True
  let ?w = "(statsRead q + statsNum q) mod MAX_STATS"
  have w: "statsWrite q = ?w" "length (statsArr q) = MAX_STATS" using assms by (auto simp: stats_inv_def)
  have inv: "stats_inv (stats_put v q)"
    using assms True by (simp add: stats_put_eq[OF assms] stats_inv_def mod_Suc_eq)
  have "?w < MAX_STATS" by (simp add: MAX_STATS_def)
  then have "stats_contents (stats_put v q) = stats_contents q @ [v]"
    using True w map_cyc_upd[OF True w(2)]
    by (simp add: stats_put_eq[OF assms] stats_contents_def cyc_snoc)
  then show ?thesis using inv True by (simp add: stats_contents_def)
next
  case False
  then have n: "statsNum q = MAX_STATS" using assms by (simp add: stats_inv_def)
  have r: "statsRead q < MAX_STATS" "length (statsArr q) = MAX_STATS" "statsWrite q = statsRead q"
    using assms n by (auto simp: stats_inv_def)
  have inv: "stats_inv (stats_put v q)"
    using r n by (simp add: stats_put_eq[OF assms] stats_inv_def MAX_STATS_def)
  obtain k where k: "MAX_STATS = Suc k" by (cases MAX_STATS) (auto simp: MAX_STATS_def)
  have e: "(Suc (statsRead q) + k) mod MAX_STATS = statsRead q"
  proof -
    have "Suc (statsRead q) + k = statsRead q + MAX_STATS" using k by simp
    then show ?thesis using r(1) by (simp only: mod_add_self2 mod_less)
  qed
  have "map ((!) ((statsArr q)[statsRead q := v])) (cyc MAX_STATS (Suc (statsRead q)) k)
      = map ((!) (statsArr q)) (cyc MAX_STATS (Suc (statsRead q)) k)"
    using map_cyc_upd[of k MAX_STATS "statsArr q" "Suc (statsRead q)" v] r(2) k e by simp
  moreover have "cyc MAX_STATS (Suc (statsRead q)) MAX_STATS
      = cyc MAX_STATS (Suc (statsRead q)) k @ [statsRead q]"
    using cyc_snoc[of MAX_STATS "Suc (statsRead q)" k] e k by simp
  moreover have "cyc MAX_STATS (statsRead q) MAX_STATS
      = statsRead q # cyc MAX_STATS (Suc (statsRead q)) k"
    using cyc_Suc[of MAX_STATS "statsRead q" k] r(1) k by simp
  ultimately have "stats_contents (stats_put v q) = tl (stats_contents q) @ [v]"
    using r n by (simp add: stats_put_eq[OF assms] stats_contents_def cyc_Suc_mod)
  then show ?thesis using inv n k by (simp add: stats_contents_def drop_Suc)
qed

lemma stats_get_law:
  assumes "stats_inv q" "stats_contents q = x # xs"
  shows "\<exists>q'. stats_get q = (x, q') \<and> stats_inv q' \<and> stats_contents q' = xs"
proof -
  obtain k where k: "statsNum q = Suc k"
    using assms(2) by (cases "statsNum q") (auto simp: stats_contents_def)
  have r: "statsRead q < MAX_STATS" using assms(1) by (simp add: stats_inv_def)
  have g: "snd (stats_get q) = q\<lparr>statsNum := k, statsRead := Suc (statsRead q) mod MAX_STATS\<rparr>"
    using r k by (auto simp: stats_get_def Let_def mod_Suc)
  have x: "x = statsArr q ! statsRead q" "xs = map ((!) (statsArr q)) (cyc MAX_STATS (Suc (statsRead q)) k)"
    using assms(2) r k by (auto simp: stats_contents_def cyc_Suc)
  have "stats_inv (snd (stats_get q))" using assms(1) k r unfolding g
    by (simp add: stats_inv_def mod_add_left_eq)
  moreover have "stats_contents (snd (stats_get q)) = xs" unfolding g x by (simp add: stats_contents_def)
  moreover have "fst (stats_get q) = x" by (simp add: stats_get_def x Let_def)
  ultimately show ?thesis by (metis prod.collapse)
qed

interpretation stats: latest_log stats_inv stats_contents stats_put stats_get MAX_STATS
proof
  fix q :: "'a stat_ring" and v
  assume i: "stats_inv q"
  show "stats_inv (stats_put v q)" "stats_contents (stats_put v q)
      = drop (length (stats_contents q) + 1 - MAX_STATS) (stats_contents q @ [v])"
    using stats_put_law[OF i] by simp_all
  show "length (stats_contents q) \<le> MAX_STATS" using i by (simp add: stats_contents_def stats_inv_def)
qed (rule stats_get_law)

end
