(* ===== verification/DmaState.thy ===== *)
theory DmaState
  imports PktPool Stats
begin

text \<open>
  The global state of the base driver: the private data of the board (\<open>struct privData\<close> of
  \<open>fc1553_dma/xdma/xdma.h\<close>) and the module variables of \<open>xdma_base.c\<close>, next to the machine and the
  state of the application drivers, which only the callbacks touch.
\<close>

section \<open>State\<close>

text \<open>
  \<open>pci_alloc\<close> is the kernel's \<open>pci_alloc_consistent\<close>: the virtual and the bus address of a new area
  of the given size, or nothing, which depends on all that happened before; \<open>TH_BH_ISR\<close> is the build option that enables interrupt mode;
  \<open>HZ\<close> is the kernel's timer frequency. The driver changes none of them. Kernel time is 32 bits wide, as
  on the 32-bit machine the casts of pointers to \<open>u32\<close> presuppose; a timer is the time at which it
  expires, if it is armed.
\<close>

record 'u drv =
  hw :: mach
  usr :: 'u
  TH_BH_ISR :: bool
  pci_alloc :: "io_event list \<Rightarrow> u32 \<Rightarrow> (u32 \<times> u32) option"
  jiffies :: u32
  HZ :: u32
  DriverState :: u32
  barMask :: u32
  baseVAddr :: "nat \<Rightarrow> u32"
  engineMask :: u64
  Dma :: "nat \<Rightarrow> 'u Dma_Engine"
  userCount :: int
  pool :: pkt_pool
  DStats :: "nat \<Rightarrow> DMAStatistics stat_ring"
  SStats :: "nat \<Rightarrow> SWStatistics stat_ring"
  TStats :: "TRNStatistics stat_ring"
  SWrate :: "nat \<Rightarrow> u32"
  UserOpen :: int
  PendingMask :: u64
  LastIntr :: "nat \<Rightarrow> u32"
  DmaBH :: bool
  poll_timer :: "u32 option"
  stats_timer :: "u32 option"

definition MAX_DMA_ENGINES :: nat where [hwc]: "MAX_DMA_ENGINES = 64"
definition MAX_BARS :: nat where [hwc]: "MAX_BARS = 6"
definition INT_COAL_CNT :: int where [hwc]: "INT_COAL_CNT = 16"

definition on_hw :: "(mach \<Rightarrow> mach) \<Rightarrow> 'u drv \<Rightarrow> 'u drv" where
  "on_hw f s = s\<lparr>hw := f (hw s)\<rparr>"

definition set_eng :: "nat \<Rightarrow> 'u Dma_Engine \<Rightarrow> 'u drv \<Rightarrow> 'u drv" where
  "set_eng i E s = s\<lparr>Dma := (Dma s)(i := E)\<rparr>"

definition set_ring :: "nat \<Rightarrow> Dma_BdRing \<Rightarrow> 'u drv \<Rightarrow> 'u drv" where
  "set_ring i R s = set_eng i ((Dma s i)\<lparr>BdRing := R\<rparr>) s"

definition ring_of :: "'u drv \<Rightarrow> nat \<Rightarrow> Dma_BdRing" where
  "ring_of s i = BdRing (Dma s i)"

text \<open>\<open>engineMask & (1LL << i)\<close>, for the engine numbers the shift is defined on.\<close>

definition engine_present :: "'u drv \<Rightarrow> nat \<Rightarrow> bool" where
  "engine_present s i \<longleftrightarrow> engineMask s AND push_bit i 1 \<noteq> 0"

lemma engine_present_bit: "i < 64 \<Longrightarrow> engine_present s i \<longleftrightarrow> bit (engineMask s) i"
proof -
  assume i: "i < 64"
  have "engineMask s AND push_bit i 1 = (if bit (engineMask s) i then push_bit i 1 else 0)"
    by (rule bit_word_eqI) (auto simp: bit_simps)
  moreover have "push_bit i (1 :: u64) \<noteq> 0"
  proof
    assume "push_bit i (1 :: u64) = 0"
    then have "bit (push_bit i (1 :: u64)) i = bit (0 :: u64) i" by (rule arg_cong)
    then show False using i by (simp add: bit_simps)
  qed
  ultimately show ?thesis by (simp add: engine_present_def)
qed

section \<open>Calls of the application driver\<close>

definition call_UserInit :: "nat \<Rightarrow> u32 \<Rightarrow> 'u drv \<Rightarrow> 'u drv" where
  "call_UserInit i barbase s =
     (case UserInit (user (Dma s i)) of
        None \<Rightarrow> on_hw null_deref s
      | Some f \<Rightarrow> let (r, u, m) = f barbase (privData (user (Dma s i))) (usr s, hw s)
                  in s\<lparr>usr := u, hw := m\<rparr>)"

definition call_UserPutPkt :: "nat \<Rightarrow> PktBuf list \<Rightarrow> int \<Rightarrow> 'u drv \<Rightarrow> 'u drv" where
  "call_UserPutPkt i pkts n s =
     (case UserPutPkt (user (Dma s i)) of
        None \<Rightarrow> on_hw null_deref s
      | Some f \<Rightarrow> let (r, u, m) = f i pkts n (privData (user (Dma s i))) (usr s, hw s)
                  in s\<lparr>usr := u, hw := m\<rparr>)"

definition call_UserGetPkt :: "nat \<Rightarrow> PktBuf list \<Rightarrow> int \<Rightarrow> 'u drv \<Rightarrow> int \<times> PktBuf list \<times> 'u drv" where
  "call_UserGetPkt i pkts n s =
     (case UserGetPkt (user (Dma s i)) of
        None \<Rightarrow> (0, pkts, on_hw null_deref s)
      | Some f \<Rightarrow>
          let (r, pkts, u, m) = f i pkts (word_of_int (pktSize (Dma s i))) n
                (privData (user (Dma s i))) (usr s, hw s)
          in (r, pkts, s\<lparr>usr := u, hw := m\<rparr>))"

definition call_UserSetState :: "nat \<Rightarrow> UserState \<Rightarrow> 'u drv \<Rightarrow> int \<times> 'u drv" where
  "call_UserSetState i us s =
     (case UserSetState (user (Dma s i)) of
        None \<Rightarrow> (0, on_hw null_deref s)
      | Some f \<Rightarrow> let (r, u, m) = f i us (privData (user (Dma s i))) (usr s, hw s)
                  in (r, s\<lparr>usr := u, hw := m\<rparr>))"

definition call_UserGetState :: "nat \<Rightarrow> UserState \<Rightarrow> 'u drv \<Rightarrow> int \<times> UserState \<times> 'u drv" where
  "call_UserGetState i us s =
     (case UserGetState (user (Dma s i)) of
        None \<Rightarrow> (0, us, on_hw null_deref s)
      | Some f \<Rightarrow> let (r, us, u, m) = f i us (privData (user (Dma s i))) (usr s, hw s)
                  in (r, us, s\<lparr>usr := u, hw := m\<rparr>))"

section \<open>Pool operations on the global state\<close>

definition dq_pool :: "'u drv \<Rightarrow> nat option \<times> 'u drv" where
  "dq_pool s = (let (pp, P, m) = DQPool (pool s, hw s) in (pp, s\<lparr>pool := P, hw := m\<rparr>))"

definition eq_pool :: "nat \<Rightarrow> 'u drv \<Rightarrow> 'u drv" where
  "eq_pool pp s = (let (P, m) = EQPool pp (pool s, hw s) in s\<lparr>pool := P, hw := m\<rparr>)"

definition pool_arr :: "'u drv \<Rightarrow> nat \<Rightarrow> PktBuf list" where
  "pool_arr s pp = pktArray (pool s) pp"

definition set_pool_arr :: "nat \<Rightarrow> PktBuf list \<Rightarrow> 'u drv \<Rightarrow> 'u drv" where
  "set_pool_arr pp xs s = s\<lparr>pool := (pool s)\<lparr>pktArray := (pktArray (pool s))(pp := xs)\<rparr>\<rparr>"

section \<open>Lock discipline\<close>

text \<open>
  How many DMA mappings are in force after the events of a log, and the effect of a step on locks
  and mappings: every lock is as it was, and \<open>k\<close> more mappings are in force.
\<close>

fun map_count :: "io_event list \<Rightarrow> int" where
  "map_count [] = 0"
| "map_count (MapBuf a l # es) = map_count es + 1"
| "map_count (UnmapBuf a l # es) = map_count es - 1"
| "map_count (_ # es) = map_count es"

definition moves :: "int \<Rightarrow> mach \<Rightarrow> mach \<Rightarrow> bool" where
  "moves k m m' \<longleftrightarrow> (\<forall>l. lock_depth l (evs m') = lock_depth l (evs m))
     \<and> map_count (evs m') = map_count (evs m) + k"

lemma moves_refl [simp]: "moves 0 m m"
  by (simp add: moves_def)

lemma moves_trans: "moves j m1 m2 \<Longrightarrow> moves k m2 m3 \<Longrightarrow> moves (j + k) m1 m3"
  by (simp add: moves_def)

lemma moves_trans0: "moves 0 m1 m2 \<Longrightarrow> moves k m2 m3 \<Longrightarrow> moves k m1 m3"
  using moves_trans[of 0 m1 m2 k m3] by simp

lemma moves_write [simp, intro]:
  "moves 0 m (Dma_mBdWrite b off d m)"
  "moves 0 m (Dma_mBdSetCtrl b d m)" "moves 0 m (Dma_mBdSetStatus b d m)"
  "moves 0 m (Dma_mBdSetCtrlLength b d m)" "moves 0 m (Dma_mBdSetStatLength b d m)"
  "moves 0 m (Dma_mBdSetId b d m)" "moves 0 m (Dma_mBdSetBufAddr b d m)"
  "moves 0 m (Dma_mBdSetUserData b u m)"
  "moves 0 m (Dma_mWriteReg a r d m)" "moves 0 m (snd (Dma_mReadReg a r m))"
  "moves 0 m (wmb m)" "moves 0 m (mem_clear a d m)" "moves 0 m (XIo_Out32 a d m)"
  "moves 0 m (snd (XIo_In32 a m))"
  "moves 1 m (snd (pci_map_single a d m))" "moves (-1) m (pci_unmap_single a d m)"
  by (simp_all add: moves_def bd_set_defs Let_def pci_map_single_def XIo_In32_def)

text \<open>A critical section around a step.\<close>

lemma moves_locked:
  "moves k (spin_lock l m) m' \<Longrightarrow> moves k m (spin_unlock l m')"
  by (auto simp: moves_def)

lemma lock_depth_unlock:
  "lock_depth l (evs (spin_unlock k m)) = (if k = l then lock_depth l (evs m) - 1 else lock_depth l (evs m))"
  "lock_depth l (evs (spin_lock k m)) = (if k = l then lock_depth l (evs m) + 1 else lock_depth l (evs m))"
  by simp_all

lemma drv_frame [simp]:
  "hw (on_hw f s) = f (hw s)" "hw (set_eng i E s) = hw s" "hw (set_ring i R s) = hw s"
  "Dma (on_hw f s) = Dma s" "Dma (set_eng i E s) = (Dma s)(i := E)"
  "Dma (set_ring i R s) = (Dma s)(i := (Dma s i)\<lparr>BdRing := R\<rparr>)"
  "pool (on_hw f s) = pool s" "pool (set_eng i E s) = pool s" "pool (set_ring i R s) = pool s"
  "DriverState (on_hw f s) = DriverState s" "DriverState (set_eng i E s) = DriverState s"
  "DriverState (set_ring i R s) = DriverState s"
  "usr (on_hw f s) = usr s" "usr (set_eng i E s) = usr s" "usr (set_ring i R s) = usr s"
  by (simp_all add: on_hw_def set_eng_def set_ring_def)


text \<open>
  What is fixed while the driver is in use: its state word, the engines present, the register
  windows, and the parameters of the environment.
\<close>

definition static :: "'u drv \<Rightarrow> u32 \<times> u64 \<times> (nat \<Rightarrow> u32) \<times> bool \<times> (io_event list \<Rightarrow> u32 \<Rightarrow> (u32 \<times> u32) option)" where
  "static s = (DriverState s, engineMask s, baseVAddr s, TH_BH_ISR s, pci_alloc s)"

lemma static_frame [simp]:
  "static (s\<lparr>hw := m\<rparr>) = static s" "static (s\<lparr>usr := u\<rparr>) = static s" "static (s\<lparr>pool := P\<rparr>) = static s"
  "static (s\<lparr>SWrate := r\<rparr>) = static s" "static (s\<lparr>userCount := c\<rparr>) = static s" "static (s\<lparr>Dma := d\<rparr>) = static s"
  "static (on_hw f s) = static s" "static (set_eng i E s) = static s" "static (set_ring i R s) = static s"
  "static (set_pool_arr pp xs s) = static s"
  by (simp_all add: static_def on_hw_def set_eng_def set_ring_def set_pool_arr_def)

lemma staticD:
  "static s' = static s \<Longrightarrow> DriverState s' = DriverState s" "static s' = static s \<Longrightarrow> engine_present s' i = engine_present s i"
  by (simp_all add: static_def engine_present_def)


text \<open>What only the interrupt, timer and device-file code touches.\<close>

definition aux :: "'u drv \<Rightarrow> u64 \<times> (nat \<Rightarrow> u32) \<times> bool \<times> u32 option \<times> u32 option \<times> u32 \<times> u32 \<times> int" where
  "aux s = (PendingMask s, LastIntr s, DmaBH s, poll_timer s, stats_timer s, jiffies s, HZ s, UserOpen s)"

lemma aux_frame [simp]:
  "aux (s\<lparr>hw := m\<rparr>) = aux s" "aux (s\<lparr>usr := u\<rparr>) = aux s" "aux (s\<lparr>pool := P\<rparr>) = aux s"
  "aux (s\<lparr>SWrate := r\<rparr>) = aux s" "aux (s\<lparr>userCount := c\<rparr>) = aux s" "aux (s\<lparr>Dma := d\<rparr>) = aux s"
  "aux (on_hw f s) = aux s" "aux (set_eng i E s) = aux s" "aux (set_ring i R s) = aux s"
  "aux (set_pool_arr pp xs s) = aux s"
  by (simp_all add: aux_def on_hw_def set_eng_def set_ring_def set_pool_arr_def)

lemma call_frame [simp]:
  "static (call_UserPutPkt e p n s) = static s" "aux (call_UserPutPkt e p n s) = aux s"
  "static (snd (snd (call_UserGetPkt e p n s))) = static s" "aux (snd (snd (call_UserGetPkt e p n s))) = aux s"
  "static (snd (dq_pool s)) = static s" "aux (snd (dq_pool s)) = aux s"
  "static (eq_pool pp s) = static s" "aux (eq_pool pp s) = aux s"
  by (simp_all add: call_UserPutPkt_def call_UserGetPkt_def dq_pool_def eq_pool_def Let_def split_beta split: option.splits)

section \<open>Ring operations neither map buffers nor take locks\<close>

lemma tohw_loop_moves: "tohw_loop R k i cur sts m = (i', cur', sts', m') \<Longrightarrow> moves 0 m m'"
proof (induction k arbitrary: i cur sts m)
  case (Suc k)
  then show ?case
    by (auto simp: Let_def split: if_splits dest!: Suc.IH intro: moves_trans0[OF moves_write(3)])
qed simp

lemma ToHw_moves: "Dma_BdRingToHw R n p m = (c, R', m') \<Longrightarrow> moves 0 m m'"
  by (auto simp: Dma_BdRingToHw_def Let_def split: if_splits prod.splits dest!: tohw_loop_moves
      intro: moves_trans0[OF _ moves_trans0[OF moves_write(11) moves_write(9)]])

lemma free_loop_moves: "moves 0 m (free_loop R k a m)"
proof (induction k arbitrary: a m)
  case (Suc k)
  show ?case unfolding free_loop.simps by (rule moves_trans0[OF _ Suc]) (simp add: moves_def)
qed simp

lemma Free_moves: "Dma_BdRingFree R n p m = (c, R', m') \<Longrightarrow> moves 0 m m'"
  by (auto simp: Dma_BdRingFree_def Let_def free_loop_moves split: if_splits)

end
