(* ===== verification/SendPkt.thy ===== *)
theory SendPkt
  imports DmaState
begin

text \<open>
  Transmission: \<open>DmaSendPkt\<close> of \<open>fc1553_dma/xdma/xdma_user.c\<close>. Its two loops are functions of
  their own: filling the allocated descriptors, and taking back those that could not be queued.
\<close>

section \<open>Filling the descriptors\<close>

text \<open>The local variables the fill loop carries, and the engine's coalescing counter.\<close>

record send_loc =
  BdCurPtr :: u32
  PartialBDPtr :: u32
  partialBDcount :: int
  partialOK :: bool
  send_intr :: int

definition send_one :: "bool \<Rightarrow> Dma_BdRing \<Rightarrow> PktBuf \<Rightarrow> send_loc \<times> mach \<Rightarrow> send_loc \<times> mach" where
  "send_one isr R pbuf = (\<lambda>(L, m).
     let cur = BdCurPtr L;
         (bufPA, m) = pci_map_single (pktBuf pbuf) (pkt_size pbuf) m;
         m = Dma_mBdSetBufAddr cur bufPA m;
         m = Dma_mBdSetCtrlLength cur (pkt_size pbuf) m;
         m = Dma_mBdSetStatLength cur (pkt_size pbuf) m;
         m = Dma_mBdSetId cur (bufInfo pbuf) m;
         uflags = pkt_flags pbuf;
         sop = (uflags AND DMA_BD_SOP_MASK \<noteq> 0);
         flags = (if sop then DMA_BD_SOP_MASK else 0);
         L = (if sop
              then let L = L\<lparr>partialOK := (uflags AND PKT_ALL = 0)\<rparr>
                   in if \<not> partialOK L then L\<lparr>PartialBDPtr := cur\<rparr> else L
              else L);
         eop = (uflags AND DMA_BD_EOP_MASK \<noteq> 0);
         flags = (if eop then flags OR DMA_BD_EOP_MASK else flags);
         L = L\<lparr>partialBDcount := (if eop then 0 else partialBDcount L + 1)\<rparr>;
         m = Dma_mBdSetCtrl cur flags m;
         m = Dma_mBdSetUserData cur (userInfo pbuf) m;
         (L, m) =
           (if isr
            then let flags = flags OR DMA_BD_INT_ERROR_MASK;
                     flags = (if send_intr L mod INT_COAL_CNT = 0 then flags OR DMA_BD_INT_COMP_MASK
                              else flags)
                 in (L\<lparr>send_intr := send_intr L + 1\<rparr>, Dma_mBdSetCtrl cur flags m)
            else (L, m))
     in (L\<lparr>BdCurPtr := Dma_mBdRingNext R cur\<rparr>, m))"

fun send_fill :: "bool \<Rightarrow> Dma_BdRing \<Rightarrow> PktBuf list \<Rightarrow> send_loc \<times> mach \<Rightarrow> send_loc \<times> mach" where
  "send_fill isr R [] st = st"
| "send_fill isr R (pbuf # ps) st = send_fill isr R ps (send_one isr R pbuf st)"

section \<open>Recovering descriptors\<close>

text \<open>
  The recovery loop, the same text in \<open>DmaSendPkt\<close> and in \<open>DmaSetupRecvBuffers\<close>: unmap the
  buffer and clear the identifier of \<open>count\<close> descriptors.
\<close>

fun unmap_loop :: "Dma_BdRing \<Rightarrow> nat \<Rightarrow> u32 \<Rightarrow> mach \<Rightarrow> mach" where
  "unmap_loop R 0 cur m = m"
| "unmap_loop R (Suc count) cur m =
     (let bufPA = Dma_mBdGetBufAddr cur m;
          len = Dma_mBdGetCtrlLength cur m;
          m = pci_unmap_single bufPA len m;
          m = Dma_mBdSetId cur 0 m
      in unmap_loop R count (Dma_mBdRingNext R cur) m)"

section \<open>The entry point\<close>

text \<open>
  A handle is the number of the engine, \<open>None\<close> the null pointer. \<open>pkts\<close> is the caller's array; it
  must have at least \<open>numpkts\<close> elements, as in the code.
\<close>

definition send_refused :: "nat option \<Rightarrow> int \<Rightarrow> 'u drv \<Rightarrow> bool" where
  "send_refused handle numpkts s \<longleftrightarrow> DriverState s \<noteq> INITIALIZED \<or>
     (case handle of
        None \<Rightarrow> True
      | Some e \<Rightarrow> numpkts \<le> 0 \<or> EngineState (Dma s e) \<noteq> USER_ASSIGNED \<or> IsRxChannel (ring_of s e) \<noteq> 0)"

text \<open>What happens after the descriptors were filled; the result is the new packet count.\<close>

definition send_finish ::
  "Dma_BdRing \<Rightarrow> u32 \<Rightarrow> int \<Rightarrow> send_loc \<Rightarrow> mach \<Rightarrow> int \<times> Dma_BdRing \<times> mach" where
  "send_finish R BdPtr numpkts L m =
     (let (result, R, m) = Dma_BdRingToHw R (word_of_int (numpkts - partialBDcount L)) BdPtr m
      in if result \<noteq> XST_SUCCESS \<or> partialBDcount L \<noteq> 0
         then let (BdPtr, cur, count) =
                    (if result \<noteq> XST_SUCCESS then (BdPtr, BdPtr, numpkts)
                     else (PartialBDPtr L, PartialBDPtr L, partialBDcount L));
                  m = unmap_loop R (nat count) cur m;
                  (result, R) = Dma_BdRingUnAlloc R (word_of_int count) BdPtr
              in (numpkts - count, R, m)
         else (numpkts, R, m))"

definition DmaSendPkt :: "nat option \<Rightarrow> PktBuf list \<Rightarrow> int \<Rightarrow> 'u drv \<Rightarrow> int \<times> 'u drv" where
  "DmaSendPkt handle pkts numpkts s =
     (if send_refused handle numpkts s then (0, s)
      else
        let e = the handle;
            s = on_hw (spin_lock DmaLock) s;
            free_bd_count = sint (Dma_mBdRingGetFreeCnt (ring_of s e))
        in if free_bd_count \<le> 2 then (0, on_hw (spin_unlock DmaLock) s)
        else
          let free_bd_count = free_bd_count - 2;
              numpkts = (if numpkts > free_bd_count then free_bd_count else numpkts);
              (result, R, Bd) = Dma_BdRingAlloc (ring_of s e) (word_of_int numpkts)
          in case Bd of
               None \<Rightarrow> (0, on_hw (spin_unlock DmaLock) s)
             | Some BdPtr \<Rightarrow>
                 let L = \<lparr>BdCurPtr = BdPtr, PartialBDPtr = 0, partialBDcount = 0, partialOK = False,
                          send_intr = intrCount (Dma s e)\<rparr>;
                     (L, m) = send_fill (TH_BH_ISR s) R (take (nat numpkts) pkts) (L, hw s);
                     (n, R, m) = send_finish R BdPtr numpkts L m;
                     s = set_eng e ((Dma s e)\<lparr>BdRing := R, intrCount := send_intr L\<rparr>) (s\<lparr>hw := m\<rparr>)
                 in (n, on_hw (spin_unlock DmaLock) s))"


section \<open>One descriptor\<close>

definition is_sop :: "PktBuf \<Rightarrow> bool" where
  "is_sop p \<longleftrightarrow> pkt_flags p AND DMA_BD_SOP_MASK \<noteq> 0"

definition is_eop :: "PktBuf \<Rightarrow> bool" where
  "is_eop p \<longleftrightarrow> pkt_flags p AND DMA_BD_EOP_MASK \<noteq> 0"

definition has_len :: "PktBuf \<Rightarrow> bool" where
  "has_len p \<longleftrightarrow> pkt_size p AND DMA_BD_BUFL_MASK \<noteq> 0"

lemma send_one_locals:
  assumes "send_one isr R p (L, m) = (L', m')"
  shows "BdCurPtr L' = Dma_mBdRingNext R (BdCurPtr L)"
    "partialBDcount L' = (if is_eop p then 0 else partialBDcount L + 1)"
    "PartialBDPtr L' = (if is_sop p \<and> pkt_flags p AND PKT_ALL \<noteq> 0 then BdCurPtr L else PartialBDPtr L)"
    "partialOK L' = (if is_sop p then pkt_flags p AND PKT_ALL = 0 else partialOK L)"
  using assms
  by (auto simp: send_one_def Let_def pci_map_single_def is_sop_def is_eop_def split: if_splits)

text \<open>
  The machine after one round: the control word that results, the words written, and the one
  new DMA mapping.
\<close>

definition send_flags :: "bool \<Rightarrow> int \<Rightarrow> PktBuf \<Rightarrow> u32" where
  "send_flags isr c p = (if is_sop p then DMA_BD_SOP_MASK else 0) OR (if is_eop p then DMA_BD_EOP_MASK else 0)
     OR (if isr then DMA_BD_INT_ERROR_MASK OR (if c mod INT_COAL_CNT = 0 then DMA_BD_INT_COMP_MASK else 0)
         else 0)"

lemma send_flags_ctrl: "send_flags isr c p AND DMA_BD_CTRL_MASK = send_flags isr c p"
  by (simp add: send_flags_def hwc)

lemma send_one_mach:
  assumes "send_one isr R p (L, m) = (L', m')"
  shows "same_outside (BdCurPtr L) m m'" "moves 1 m m'"
    "Dma_mBdRead (BdCurPtr L) DMA_BD_BUFL_CTRL_OFFSET m'
       = (pkt_size p AND DMA_BD_BUFL_MASK) OR send_flags isr (send_intr L) p"
    "dev m' = dev m" "dma_map m' = dma_map m"
proof -
  let ?c = "BdCurPtr L" and ?m = "snd (pci_map_single (pktBuf p) (pkt_size p) m)"
  define X where "X = Dma_mBdSetId ?c (bufInfo p) (Dma_mBdSetStatLength ?c (pkt_size p)
    (Dma_mBdSetCtrlLength ?c (pkt_size p) (Dma_mBdSetBufAddr ?c (fst (pci_map_single (pktBuf p) (pkt_size p) m)) ?m)))"
  define Y where "Y = Dma_mBdSetUserData ?c (userInfo p) (Dma_mBdSetCtrl ?c (send_flags False 0 p) X)"
  have m': "m' = (if isr then Dma_mBdSetCtrl ?c (send_flags True (send_intr L) p) Y else Y)"
    using assms unfolding X_def Y_def
    by (auto simp: send_one_def Let_def split_beta send_flags_def is_sop_def is_eop_def or.assoc
        split: if_splits)
  have "same_outside ?c m ?m" by (simp add: same_outside_def)
  then have "same_outside ?c m Y" unfolding X_def Y_def
    by (intro same_outside_trans[OF _ setter_same_outside(1)] same_outside_trans[OF _ setter_same_outside(4)]
        same_outside_trans[OF _ setter_same_outside(3)] same_outside_trans[OF _ setter_same_outside(5)]
        same_outside_trans[OF _ setter_same_outside(6)] same_outside_trans[OF _ setter_same_outside(7)])
  then show "same_outside ?c m m'" unfolding m' by (auto intro: same_outside_trans setter_same_outside)
  have "moves 1 m Y" unfolding X_def Y_def
    by (simp add: moves_def bd_set_defs Let_def pci_map_single_def)
  then show "moves 1 m m'" unfolding m' using moves_trans[OF _ moves_write(2), of 1 m Y] by auto
  have "Dma_mBdGetCtrlLength ?c X = pkt_size p AND DMA_BD_BUFL_MASK" by (simp add: X_def)
  then show "Dma_mBdRead ?c DMA_BD_BUFL_CTRL_OFFSET m'
      = (pkt_size p AND DMA_BD_BUFL_MASK) OR send_flags isr (send_intr L) p"
    unfolding m' Y_def by (auto simp: read_set_ctrl send_flags_ctrl) (simp add: send_flags_def)
  show "dev m' = dev m" "dma_map m' = dma_map m" by (simp_all add: m' Y_def X_def)
qed


section \<open>The fill loop\<close>

lemma same_outside_bd:
  assumes "geom R" "i < ring_n R" "j < ring_n R" "i \<noteq> j" "same_outside (bd_addr R i) m m'"
  shows "Dma_mBdRead (bd_addr R j) DMA_BD_BUFL_CTRL_OFFSET m' = Dma_mBdRead (bd_addr R j) DMA_BD_BUFL_CTRL_OFFSET m"
proof -
  have "\<not> bd_addr R j + DMA_BD_BUFL_CTRL_OFFSET - bd_addr R i < 64"
    using bd_word_disjoint[OF assms(1,3,2)] assms(4) by (simp add: hwc)
  then show ?thesis using assms(5) by (auto simp: same_outside_def Dma_mBdRead_def)
qed

definition ctrl_ok :: "PktBuf \<Rightarrow> u32 \<Rightarrow> bool" where
  "ctrl_ok p w \<longleftrightarrow> (\<exists>isr c. w = (pkt_size p AND DMA_BD_BUFL_MASK) OR send_flags isr c p)"

lemma ctrl_ok_bits:
  assumes "ctrl_ok p w"
  shows "w AND DMA_BD_BUFL_MASK \<noteq> 0 \<longleftrightarrow> has_len p" "w AND DMA_BD_SOP_MASK \<noteq> 0 \<longleftrightarrow> is_sop p"
proof -
  obtain isr c where w: "w = (pkt_size p AND DMA_BD_BUFL_MASK) OR send_flags isr c p"
    using assms by (auto simp: ctrl_ok_def)
  have "send_flags isr c p AND DMA_BD_BUFL_MASK = 0" by (simp add: send_flags_def hwc)
  then show "w AND DMA_BD_BUFL_MASK \<noteq> 0 \<longleftrightarrow> has_len p"
    by (simp add: w has_len_def bit.conj_disj_distrib2 and.assoc)
  have "send_flags isr c p AND DMA_BD_SOP_MASK = (if is_sop p then DMA_BD_SOP_MASK else 0)"
    by (simp add: send_flags_def hwc)
  moreover have "DMA_BD_BUFL_MASK AND DMA_BD_SOP_MASK = 0" by (simp add: hwc)
  moreover have "DMA_BD_SOP_MASK \<noteq> 0" by (simp add: hwc)
  ultimately show "w AND DMA_BD_SOP_MASK \<noteq> 0 \<longleftrightarrow> is_sop p"
    by (simp add: w bit.conj_disj_distrib2 and.assoc)
qed

lemma send_fill_spec:
  assumes "geom R" "length ps \<le> ring_n R" "BdCurPtr L = bd_addr R (p mod ring_n R)"
    "send_fill isr R ps (L, m) = (L', m')"
  shows "partialBDcount L' = (if \<exists>x\<in>set ps. is_eop x then 0 else partialBDcount L)
        + int (length (takeWhile (\<lambda>x. \<not> is_eop x) (rev ps)))
    \<and> moves (int (length ps)) m m' \<and> dev m' = dev m \<and> dma_map m' = dma_map m
    \<and> (\<forall>j<ring_n R. j \<notin> set (cyc (ring_n R) p (length ps)) \<longrightarrow>
        Dma_mBdRead (bd_addr R j) DMA_BD_BUFL_CTRL_OFFSET m' = Dma_mBdRead (bd_addr R j) DMA_BD_BUFL_CTRL_OFFSET m)
    \<and> (\<forall>i<length ps. ctrl_ok (ps ! i) (Dma_mBdRead (bd_addr R ((p + i) mod ring_n R)) DMA_BD_BUFL_CTRL_OFFSET m'))"
  using assms(2-)
proof (induction ps arbitrary: L m p)
  case Nil
  then show ?case by simp
next
  case (Cons a ps)
  let ?n = "ring_n R" and ?rd = "\<lambda>j m. Dma_mBdRead (bd_addr R j) DMA_BD_BUFL_CTRL_OFFSET m"
  have pn: "p mod ?n < ?n" using geom_n_pos[OF assms(1)] by simp
  obtain L1 m1 where one: "send_one isr R a (L, m) = (L1, m1)" by (cases "send_one isr R a (L, m)")
  have rest: "send_fill isr R ps (L1, m1) = (L', m')" using Cons.prems(3) one by simp
  have cur: "BdCurPtr L1 = bd_addr R (Suc p mod ?n)"
    using send_one_locals(1)[OF one] Cons.prems(2) ringNext_bd_addr[OF assms(1) pn] by (simp add: mod_Suc_eq)
  note o = send_one_locals[OF one] send_one_mach[OF one]
  have "length ps \<le> ?n" using Cons.prems(1) by simp
  note IH = Cons.IH[OF this cur rest]
  have new: "p mod ?n \<notin> set (cyc ?n (Suc p) (length ps))"
    using distinct_cyc[of "Suc (length ps)" ?n p] Cons.prems(1) by (simp add: cyc_Suc)
  have cnt: "partialBDcount L' = (if \<exists>x\<in>set (a # ps). is_eop x then 0 else partialBDcount L)
      + int (length (takeWhile (\<lambda>x. \<not> is_eop x) (rev (a # ps))))"
  proof (cases "\<exists>x\<in>set ps. is_eop x")
    case True
    then have "takeWhile (\<lambda>x. \<not> is_eop x) (rev ps @ [a]) = takeWhile (\<lambda>x. \<not> is_eop x) (rev ps)"
      by (auto intro: takeWhile_append1)
    then show ?thesis using IH True by simp
  next
    case False
    then have "length (takeWhile (\<lambda>x. \<not> is_eop x) (rev ps)) = length ps"
      using takeWhile_full[of "\<lambda>x. \<not> is_eop x" "rev ps"] by (simp add: list_all_iff)
    moreover have "takeWhile (\<lambda>x. \<not> is_eop x) (rev ps @ [a]) = rev ps @ (if is_eop a then [] else [a])"
      using False takeWhile_append2[of "rev ps" "\<lambda>x. \<not> is_eop x" "[a]"] by simp
    ultimately show ?thesis using IH False o(2) by simp
  qed
  have mv: "moves (int (length (a # ps))) m m'" using moves_trans[OF o(6)] IH by fastforce
  have out: "?rd j m' = ?rd j m" if "j < ?n" "j \<notin> set (cyc ?n p (length (a # ps)))" for j
  proof -
    have j: "j \<noteq> p mod ?n" "j \<notin> set (cyc ?n (Suc p) (length ps))" using that(2) by (auto simp: cyc_Suc)
    then have "?rd j m1 = ?rd j m"
      using same_outside_bd[OF assms(1) pn that(1), of m m1] o(5) Cons.prems(2) by auto
    then show ?thesis using IH that(1) j(2) by simp
  qed
  have ok: "ctrl_ok ((a # ps) ! i) (?rd ((p + i) mod ?n) m')" if "i < length (a # ps)" for i
  proof (cases i)
    case 0
    have "ctrl_ok a (?rd (p mod ?n) m1)" using o(7) Cons.prems(2) by (auto simp: ctrl_ok_def)
    then show ?thesis using IH new pn 0 by simp
  next
    case (Suc j)
    then show ?thesis using IH that by simp
  qed
  show ?case using cnt mv out ok IH o(8,9) by simp
qed

section \<open>The recovery loop\<close>

lemma unmap_loop_moves: "moves (- int k) m (unmap_loop R k cur m)"
proof (induction k arbitrary: cur m)
  case (Suc k)
  let ?m = "Dma_mBdSetId cur 0 (pci_unmap_single (Dma_mBdGetBufAddr cur m) (Dma_mBdGetCtrlLength cur m) m)"
  have "moves (-1) m ?m" by (simp add: moves_def bd_set_defs)
  from moves_trans[OF this Suc, of "Dma_mBdRingNext R cur"] show ?case
    by (simp add: Let_def algebra_simps)
qed simp

lemma unmap_loop_env [simp]: "dev (unmap_loop R k cur m) = dev m" "dma_map (unmap_loop R k cur m) = dma_map m"
  by (induction k arbitrary: cur m) (simp_all add: Let_def)


section \<open>What is queued\<close>

text \<open>
  The packets of an array that can be queued whole: up to the last end-of-packet. They are queued
  if the first starts a packet and none is empty; otherwise nothing is.
\<close>

definition send_set :: "PktBuf list \<Rightarrow> PktBuf list" where
  "send_set ps = trim is_eop ps"

definition send_valid :: "PktBuf list \<Rightarrow> bool" where
  "send_valid q \<longleftrightarrow> q = [] \<or> (is_sop (hd q) \<and> list_all has_len q)"

definition send_count :: "PktBuf list \<Rightarrow> nat" where
  "send_count ps = (if send_valid (send_set ps) then length (send_set ps) else 0)"

lemma send_set_take: "send_set ps = take (length (send_set ps)) ps"
  unfolding send_set_def by (rule trim_take)

lemma send_set_length: "length (send_set ps) + length (takeWhile (\<lambda>x. \<not> is_eop x) (rev ps)) = length ps"
  unfolding send_set_def by (rule length_trim)

lemma send_count_le: "send_count ps \<le> length ps"
  using send_set_length[of ps] by (simp add: send_count_def)

lemma groups_submit:
  assumes "gpre G = []" "n \<le> length (gfree G)" "k \<le> n"
  shows "spec_unalloc (n - k) (spec_tohw k (spec_alloc n G))
    = G\<lparr>ghw := ghw G @ take k (gfree G), gfree := drop k (gfree G)\<rparr>"
proof -
  have "drop k (take n (gfree G)) @ drop n (gfree G) = drop k (gfree G)"
    using assms by (metis append_take_drop_id drop_append drop_drop le_add_diff_inverse2 length_take min.absorb2
        drop_take diff_is_0_eq' drop0)
  then show ?thesis using assms by (simp add: spec_defs Let_def min_def)
qed

lemma tohw_accepts_filled:
  assumes inv: "ring_inv R" and ps: "length ps \<le> unat (PreCnt R)" and rx: "IsRxChannel R = 0"
    and hw: "ptr = PreHead R" and k: "0 < k" "k \<le> length ps" "unat NumBd = k"
    and ctrl: "\<forall>i<length ps. ctrl_ok (ps ! i) (Dma_mBdRead
        (bd_addr R ((post_idx R + unat (PostCnt R) + unat (HwCnt R) + i) mod ring_n R)) DMA_BD_BUFL_CTRL_OFFSET m)"
  shows "tohw_accepts R m NumBd ptr \<longleftrightarrow> is_sop (hd ps) \<and> list_all has_len (take k ps)"
proof -
  let ?p = "post_idx R + unat (PostCnt R) + unat (HwCnt R)" and ?n = "ring_n R"
  let ?rd = "\<lambda>i. Dma_mBdRead (bd_addr R ((?p + i) mod ?n)) DMA_BD_BUFL_CTRL_OFFSET m"
  have le: "NumBd \<le> PreCnt R" using k ps by (simp add: word_le_nat_alt)
  have seg: "take (unat NumBd) (gpre (ring_groups R)) = cyc ?n ?p k"
    using pre_segment[OF inv le] k by simp
  have "list_all (\<lambda>j. bd_has_length m (bd_addr R j)) (cyc ?n ?p k) \<longleftrightarrow> (\<forall>i<k. ?rd i AND DMA_BD_BUFL_MASK \<noteq> 0)"
    by (auto simp: list_all_iff cyc_def bd_has_length_def)
  also have "\<dots> \<longleftrightarrow> (\<forall>i<k. has_len (ps ! i))" using ctrl k(2) ctrl_ok_bits(1) by (metis order_less_le_trans)
  also have "\<dots> \<longleftrightarrow> list_all has_len (take k ps)" using k(2) by (auto simp: list_all_length)
  finally have L: "list_all (\<lambda>j. bd_has_length m (bd_addr R j)) (cyc ?n ?p k) \<longleftrightarrow> list_all has_len (take k ps)" .
  have "ptr = bd_addr R ((?p + 0) mod ?n)" using ring_invD(3)[OF inv] hw by (simp add: ring_at_def)
  moreover have ne: "0 < length ps" using k by linarith
  ultimately have "Dma_mBdRead ptr DMA_BD_BUFL_CTRL_OFFSET m AND DMA_BD_SOP_MASK \<noteq> 0 \<longleftrightarrow> is_sop (ps ! 0)"
    using ctrl ctrl_ok_bits(2) by metis
  then show ?thesis using le hw rx L ne
    by (simp add: tohw_accepts_def seg hd_conv_nth)
qed


lemma spec_id [simp]: "spec_tohw 0 G = G" "spec_unalloc 0 G = G"
  by (simp_all add: spec_defs Let_def)

text \<open>Everything prepared but not queued is given back.\<close>

lemma unalloc_some:
  assumes "ring_inv R" "c \<le> unat (PreCnt R)"
  shows "\<exists>R'. Dma_BdRingUnAlloc R (word_of_int (int c)) ptr = (XST_SUCCESS, R') \<and> ring_inv R'
     \<and> ring_groups R' = spec_unalloc c (ring_groups R)"
proof -
  have "c < 2 ^ 32" using assms(2) unat_lt32[of "PreCnt R"] by linarith
  then have u: "unat (of_nat c :: u32) = c" by simp
  then have "of_nat c \<le> PreCnt R" using assms(2) by (simp add: word_le_nat_alt)
  from unalloc_refines[OF assms(1) this, of ptr] show ?thesis by (simp add: u)
qed

lemma send_finish_spec:
  assumes inv: "ring_inv R" and n: "length ps = unat (PreCnt R)" "0 < length ps" and rx: "IsRxChannel R = 0"
    and ptr: "ptr = PreHead R" and cnt: "partialBDcount L = int (length (takeWhile (\<lambda>x. \<not> is_eop x) (rev ps)))"
    and ctrl: "\<forall>i<length ps. ctrl_ok (ps ! i) (Dma_mBdRead
        (bd_addr R ((post_idx R + unat (PostCnt R) + unat (HwCnt R) + i) mod ring_n R)) DMA_BD_BUFL_CTRL_OFFSET m)"
  shows "\<exists>R' m'. send_finish R ptr (int (length ps)) L m = (int (send_count ps), R', m') \<and> ring_inv R'
    \<and> ring_groups R' = spec_unalloc (length ps - send_count ps) (spec_tohw (send_count ps) (ring_groups R))
    \<and> moves (int (send_count ps) - int (length ps)) m m'"
proof -
  define q where "q = length (send_set ps)"
  define t where "t = length (takeWhile (\<lambda>x. \<not> is_eop x) (rev ps))"
  have qt: "length ps = q + t" using send_set_length[of ps] by (simp add: q_def t_def)
  have L: "partialBDcount L = int t" using cnt by (simp add: t_def)
  have "q < 2 ^ 32" using qt n(1) unat_lt32[of "PreCnt R"] by linarith
  then have u: "unat (of_nat q :: u32) = q" by simp
  define N where "N = (of_nat q :: u32)"
  have N: "word_of_int (int (length ps) - partialBDcount L) = N" by (simp add: L qt N_def)
  have uN: "unat N = q" by (simp add: N_def u)
  show ?thesis
  proof (cases "q = 0")
    case True
    then have z: "send_set ps = []" "N = 0" by (simp_all add: q_def N_def)
    then have k: "send_count ps = 0" by (simp add: send_count_def send_valid_def)
    obtain R' where r: "Dma_BdRingUnAlloc R (word_of_int (int t)) (PartialBDPtr L) = (XST_SUCCESS, R')"
      "ring_inv R'" "ring_groups R' = spec_unalloc t (ring_groups R)"
      using unalloc_some[OF inv, of t] qt n(1) True by auto
    have "Dma_BdRingToHw R N ptr m = (XST_SUCCESS, R, m)" by (simp add: Dma_BdRingToHw_def z)
    moreover have "t \<noteq> 0" using True qt n(2) by simp
    ultimately have "send_finish R ptr (int (length ps)) L m
        = (0, R', unmap_loop R t (PartialBDPtr L) m)"
      using r(1) by (simp add: send_finish_def L qt True z)
    then show ?thesis using r k unmap_loop_moves[of t m R] qt True by auto
  next
    case nz: False
    then have Nz: "N \<noteq> 0" using uN by auto
    have qe: "take q ps = send_set ps" unfolding q_def by (rule send_set_take[symmetric])
    have nz_set: "send_set ps \<noteq> []" using nz by (auto simp: q_def)
    have hd: "hd ps = hd (send_set ps)" using nz n(2) by (simp add: hd_take flip: qe)
    have acc: "tohw_accepts R m N ptr \<longleftrightarrow> send_valid (send_set ps)"
      using tohw_accepts_filled[OF inv _ rx ptr _ _ uN ctrl] n nz qt
        nz_set by (simp add: qe hd send_valid_def)
    show ?thesis
    proof (cases "send_valid (send_set ps)")
      case True
      then have k: "send_count ps = q" by (simp add: send_count_def q_def)
      obtain R2 m2 where t2: "Dma_BdRingToHw R N ptr m = (XST_SUCCESS, R2, m2)" "ring_inv R2"
        "ring_groups R2 = spec_tohw q (ring_groups R)"
        using tohw_accepted[OF inv Nz] acc True uN by blast
      have mv: "moves 0 m m2" by (rule ToHw_moves[OF t2(1)])
      have "length (gpre (ring_groups R2)) = unat (PreCnt R) - q" unfolding t2(3) by (simp add: spec_tohw_def)
      then have "unat (PreCnt R2) = t" using n(1) qt by simp
      then obtain R' where r: "Dma_BdRingUnAlloc R2 (word_of_int (int t)) (PartialBDPtr L) = (XST_SUCCESS, R')"
        "ring_inv R'" "ring_groups R' = spec_unalloc t (ring_groups R2)"
        using unalloc_some[OF t2(2), of t] by auto
      show ?thesis
      proof (cases "t = 0")
        case True
        then have "send_finish R ptr (int (length ps)) L m = (int q, R2, m2)"
          using t2(1)[unfolded N_def] by (simp add: send_finish_def L qt)
        then show ?thesis using t2 mv k qt True by auto
      next
        case False
        then have "send_finish R ptr (int (length ps)) L m = (int q, R', unmap_loop R2 t (PartialBDPtr L) m2)"
          using t2(1) r(1) N by (simp add: send_finish_def L qt)
        moreover have "moves (- int t) m (unmap_loop R2 t (PartialBDPtr L) m2)"
          by (rule moves_trans0[OF mv unmap_loop_moves])
        ultimately show ?thesis using r t2 k qt by auto
      qed
    next
      case False
      then have k: "send_count ps = 0" by (simp add: send_count_def)
      obtain c m2 where t2: "Dma_BdRingToHw R N ptr m = (c, R, m2)" "c \<noteq> XST_SUCCESS"
        using tohw_rejected[OF inv Nz] acc False by blast
      have mv: "moves 0 m m2" by (rule ToHw_moves[OF t2(1)])
      obtain R' where r: "Dma_BdRingUnAlloc R (word_of_int (int (length ps))) ptr = (XST_SUCCESS, R')"
        "ring_inv R'" "ring_groups R' = spec_unalloc (length ps) (ring_groups R)"
        using unalloc_some[OF inv, of "length ps"] n(1) by auto
      have "send_finish R ptr (int (length ps)) L m = (0, R', unmap_loop R (length ps) ptr m2)"
        using t2 r(1) N by (simp add: send_finish_def)
      then show ?thesis using r k moves_trans0[OF mv unmap_loop_moves[of "length ps" m2 R ptr]] by auto
    qed
  qed
qed


section \<open>Transmission as a whole\<close>

text \<open>
  A call on an engine that is ready, with its ring idle on the software side: the packets it
  looks at are those that fit while two descriptors stay free.
\<close>

definition send_window :: "Dma_BdRing \<Rightarrow> PktBuf list \<Rightarrow> int \<Rightarrow> PktBuf list" where
  "send_window R pkts numpkts = take (min (nat numpkts) (unat (FreeCnt R) - 2)) pkts"

definition engine_ready :: "'u drv \<Rightarrow> nat \<Rightarrow> bool" where
  "engine_ready s e \<longleftrightarrow> DriverState s = INITIALIZED \<and> EngineState (Dma s e) = USER_ASSIGNED
     \<and> ring_inv (ring_of s e) \<and> PreCnt (ring_of s e) = 0 \<and> ring_n (ring_of s e) < 2 ^ 31"

lemma send_refused_noop: "send_refused h n s \<Longrightarrow> DmaSendPkt h pkts n s = (0, s)"
  by (simp add: DmaSendPkt_def)

lemma sint_small:
  assumes "unat (x :: u32) < 2 ^ 31"
  shows "sint x = int (unat x)"
proof -
  have u: "uint x = int (unat x)" by (rule uint_nat)
  have "int (unat x) < int (2 ^ 31)" using assms by (simp only: of_nat_less_iff)
  then have "uint x < 2 ^ 31" unfolding u by simp
  moreover have "- (2 ^ 31) \<le> uint x" by (rule order_trans[OF _ uint_ge_0]) simp
  ultimately have "signed_take_bit 31 (uint x) = uint x" by (intro signed_take_bit_int_eq_self)
  moreover have "sint x = signed_take_bit 31 (uint x)" by (simp add: sint_uint)
  ultimately show ?thesis using u by metis
qed

lemma send_full:
  assumes rdy: "engine_ready s e" and tx: "IsRxChannel (ring_of s e) = 0"
    and np: "0 < numpkts" and free: "FreeCnt (ring_of s e) \<le> 2"
  shows "\<exists>s'. DmaSendPkt (Some e) pkts numpkts s = (0, s') \<and> Dma s' = Dma s \<and> moves 0 (hw s) (hw s')"
proof -
  have "unat (FreeCnt (ring_of s e)) \<le> unat (2 :: u32)" using free by (simp only: word_le_nat_alt)
  then have u: "unat (FreeCnt (ring_of s e)) \<le> 2" by simp
  then have "unat (FreeCnt (ring_of s e)) < 2 ^ 31" by (rule le_less_trans) simp
  then have "sint (FreeCnt (ring_of s e)) \<le> 2" using u sint_small by (metis of_nat_le_iff of_nat_numeral)
  then show ?thesis using assms
    by (simp add: DmaSendPkt_def send_refused_def engine_ready_def Let_def ring_of_def
        Dma_mBdRingGetFreeCnt_def moves_def)
qed

lemma send_finish_rx:
  "send_finish R b n L m = (k, R', m') \<Longrightarrow> IsRxChannel R' = IsRxChannel R"
  by (auto simp: send_finish_def Dma_BdRingToHw_def Dma_BdRingUnAlloc_def Let_def split: if_splits prod.splits)

lemma send_static:
  "static (snd (DmaSendPkt h pkts n s)) = static s" "pool (snd (DmaSendPkt h pkts n s)) = pool s"
  "aux (snd (DmaSendPkt h pkts n s)) = aux s" "usr (snd (DmaSendPkt h pkts n s)) = usr s"
  by (simp_all add: DmaSendPkt_def Let_def split_beta split: option.splits)

lemma send_rx: "IsRxChannel (ring_of (snd (DmaSendPkt h pkts n s)) i) = IsRxChannel (ring_of s i)"
  by (auto simp: DmaSendPkt_def Let_def ring_of_def Dma_BdRingAlloc_def dest!: send_finish_rx split: option.splits prod.splits if_splits)

lemma groups_ring_n:
  "ring_inv R \<Longrightarrow> ring_inv R' \<Longrightarrow> length (all_bds (ring_groups R')) = length (all_bds (ring_groups R)) \<Longrightarrow> ring_n R' = ring_n R"
  using ring_invD(4)[of R] ring_invD(4)[of R'] by (simp add: all_bds_def)

lemma send_ready:
  assumes rdy: "engine_ready s e" and tx: "IsRxChannel (ring_of s e) = 0"
    and np: "0 < numpkts" "nat numpkts \<le> length pkts" and free: "2 < FreeCnt (ring_of s e)"
  shows "\<exists>s'. DmaSendPkt (Some e) pkts numpkts s
      = (int (send_count (send_window (ring_of s e) pkts numpkts)), s')
    \<and> ring_inv (ring_of s' e)
    \<and> ring_groups (ring_of s' e) = (let G = ring_groups (ring_of s e);
          k = send_count (send_window (ring_of s e) pkts numpkts)
        in G\<lparr>ghw := ghw G @ take k (gfree G), gfree := drop k (gfree G)\<rparr>)
    \<and> moves (int (send_count (send_window (ring_of s e) pkts numpkts))) (hw s) (hw s')
    \<and> (\<forall>i. i \<noteq> e \<longrightarrow> Dma s' i = Dma s i) \<and> usr s' = usr s \<and> DriverState s' = DriverState s
    \<and> (\<exists>R ic. Dma s' e = (Dma s e)\<lparr>BdRing := R, intrCount := ic\<rparr>)"
proof -
  define R where "R = ring_of s e"
  define ps where "ps = send_window R pkts numpkts"
  have inv: "ring_inv R" and pre: "PreCnt R = 0" and small: "ring_n R < 2 ^ 31"
    using rdy by (simp_all add: engine_ready_def R_def)
  have "unat (2 :: u32) < unat (FreeCnt R)" using free by (simp only: word_less_nat_alt R_def)
  then have f2: "2 < unat (FreeCnt R)" by simp
  have fn: "unat (FreeCnt R) \<le> ring_n R" using ring_invD(4)[OF inv] by simp
  then have f31: "unat (FreeCnt R) < 2 ^ 31" using small by simp
  define n where "n = min (nat numpkts) (unat (FreeCnt R) - 2)"
  have n: "0 < n" "n \<le> unat (FreeCnt R)" using np f2 by (simp_all add: n_def)
  have lps: "length ps = n" using np by (simp add: ps_def send_window_def n_def)
  have nn: "(if numpkts > sint (FreeCnt R) - 2 then sint (FreeCnt R) - 2 else numpkts) = int n"
  proof -
    define f where "f = unat (FreeCnt R)"
    have "sint (FreeCnt R) = int f" using sint_small[OF f31] by (simp only: f_def)
    moreover have "2 < f" "n = min (nat numpkts) (f - 2)" using f2 by (simp_all only: f_def n_def)
    ultimately show ?thesis using np by (auto simp: min_def)
  qed
  have n32: "n < 2 ^ 32" using n(2) f31 by simp
  define N where "N = (of_nat n :: u32)"
  have uN: "unat N = n" using n32 by (simp add: N_def)
  have "N \<le> FreeCnt R" using n(2) uN by (simp add: word_le_nat_alt)
  from alloc_refines[OF inv this] obtain R1 where al: "Dma_BdRingAlloc R N = (XST_SUCCESS, R1, Some (FreeHead R))"
    "ring_inv R1" "ring_groups R1 = spec_alloc n (ring_groups R)" by (auto simp: uN)
  have R1: "R1 = R\<lparr>FreeHead := FreeHead R1, FreeCnt := FreeCnt R1, PreCnt := PreCnt R1\<rparr>"
    using al(1) by (auto simp: Dma_BdRingAlloc_def Let_def split: if_splits)
  have fr: "IsRxChannel R1 = IsRxChannel R" "PreHead R1 = PreHead R"
    by (subst R1, simp)+
  have gp: "gpre (ring_groups R) = []" using group_lengths(3)[of R] pre by (simp del: group_lengths)
  have "length (gpre (ring_groups R1)) = n" unfolding al(3) using gp n(2) by (simp add: spec_alloc_def)
  then have pre1: "unat (PreCnt R1) = n" by simp
  have at: "ring_at R (post_idx R)" by (rule ring_invD(3)[OF inv])
  have ptr: "FreeHead R = PreHead R1" using at pre fr by (simp add: ring_at_def)
  let ?p = "post_idx R1 + unat (PostCnt R1) + unat (HwCnt R1)"
  have g1: "geom R1" by (rule ring_invD(1)[OF al(2)])
  have cur: "FreeHead R = bd_addr R1 (?p mod ring_n R1)"
    using ring_invD(3)[OF al(2)] ptr by (simp add: ring_at_def)
  have n1: "length ps \<le> ring_n R1" using ring_invD(4)[OF al(2)] pre1 lps by simp
  define L where "L = \<lparr>BdCurPtr = FreeHead R, PartialBDPtr = 0, partialBDcount = 0, partialOK = False,
      send_intr = intrCount (Dma s e)\<rparr>"
  obtain L' m' where fl: "send_fill (TH_BH_ISR s) R1 ps (L, spin_lock DmaLock (hw s)) = (L', m')"
    by (cases "send_fill (TH_BH_ISR s) R1 ps (L, spin_lock DmaLock (hw s))")
  have Lc: "BdCurPtr L = bd_addr R1 (?p mod ring_n R1)" "partialBDcount L = 0" using cur by (simp_all add: L_def)
  note F = send_fill_spec[OF g1 n1 Lc(1) fl, unfolded Lc(2)]
  have pc: "partialBDcount L' = int (length (takeWhile (\<lambda>x. \<not> is_eop x) (rev ps)))" using F by (simp add: if_distrib)
  have "IsRxChannel R1 = 0" using fr(1) tx by (simp add: R_def)
  from send_finish_spec[OF al(2) _ _ this ptr pc, of m'] F lps pre1 n(1)
  obtain R2 m2 where fin: "send_finish R1 (FreeHead R) (int n) L' m' = (int (send_count ps), R2, m2)"
    "ring_inv R2" "ring_groups R2 = spec_unalloc (n - send_count ps) (spec_tohw (send_count ps) (ring_groups R1))"
    "moves (int (send_count ps) - int n) m' m2" by auto
  have "moves (int n) (spin_lock DmaLock (hw s)) m'" using F lps by simp
  from moves_trans[OF this fin(4)] have "moves (int (send_count ps)) (spin_lock DmaLock (hw s)) m2" by simp
  then have mv: "moves (int (send_count ps)) (hw s) (spin_unlock DmaLock m2)" by (rule moves_locked)
  define s' where "s' = on_hw (spin_unlock DmaLock)
     (set_eng e ((Dma s e)\<lparr>BdRing := R2, intrCount := send_intr L'\<rparr>) ((on_hw (spin_lock DmaLock) s)\<lparr>hw := m2\<rparr>))"
  have "\<not> send_refused (Some e) numpkts s" using rdy tx np by (simp add: send_refused_def engine_ready_def)
  moreover have "\<not> sint (FreeCnt R) \<le> 2" using f2 unfolding sint_small[OF f31] by linarith
  moreover have "ps = take (nat (int n)) pkts" by (simp add: ps_def send_window_def n_def)
  moreover have "word_of_int (int n) = N" by (simp add: N_def)
  ultimately have run: "DmaSendPkt (Some e) pkts numpkts s = (int (send_count ps), s')"
    using al(1) fl fin(1) nn
    by (simp add: DmaSendPkt_def Let_def Dma_mBdRingGetFreeCnt_def ring_of_def R_def[unfolded ring_of_def] s'_def L_def
        on_hw_def cong: if_cong)
  have le: "send_count ps \<le> n" using send_count_le[of ps] lps by simp
  have "ring_groups R2 = (ring_groups R)\<lparr>ghw := ghw (ring_groups R) @ take (send_count ps) (gfree (ring_groups R)),
      gfree := drop (send_count ps) (gfree (ring_groups R))\<rparr>"
    unfolding fin(3) al(3) by (rule groups_submit[OF gp _ le]) (simp add: n(2))
  then show ?thesis using run fin(2) mv
    by (intro exI[of _ s']) (auto simp: s'_def ring_of_def ps_def R_def[unfolded ring_of_def] Let_def on_hw_def set_eng_def)
qed

end
