(* ===== verification/PktHandler.thy ===== *)
theory PktHandler
  imports SendPkt
begin

text \<open>
  Reception and completion in \<open>fc1553_dma/xdma/xdma_base.c\<close>: replenishing a receive ring with
  buffers of the application driver (\<open>DmaSetupRecvBuffers\<close>), handing completed packets to it
  (\<open>PktHandler\<close>), and setting up and tearing down the descriptor ring of an engine
  (\<open>descriptor_init\<close>, \<open>descriptor_free\<close>).
\<close>

section \<open>Returning unused buffers\<close>

definition mark_unused :: "nat \<Rightarrow> PktBuf list \<Rightarrow> PktBuf list" where
  "mark_unused n pkts = map (\<lambda>p. p\<lparr>pkt_flags := PKT_UNUSED\<rparr>) (take n pkts) @ drop n pkts"

text \<open>\<open>pp\<close> is the pool node that owns the packet array.\<close>

definition PutUnusedPkts :: "nat \<Rightarrow> nat \<Rightarrow> int \<Rightarrow> 'u drv \<Rightarrow> 'u drv" where
  "PutUnusedPkts e pp numpkts s =
     (let s = set_pool_arr pp (mark_unused (nat numpkts) (pool_arr s pp)) s
      in call_UserPutPkt e (pool_arr s pp) numpkts s)"

section \<open>Replenishing a receive ring\<close>

text \<open>One descriptor: the coalescing counter, the current descriptor and the machine.\<close>

definition recv_one :: "bool \<Rightarrow> Dma_BdRing \<Rightarrow> PktBuf \<Rightarrow> int \<times> u32 \<times> mach \<Rightarrow> int \<times> u32 \<times> mach" where
  "recv_one isr R pbuf = (\<lambda>(ic, cur, m).
     let (bufPA, m) = pci_map_single (pktBuf pbuf) (pkt_size pbuf) m;
         m = Dma_mBdSetBufAddr cur bufPA m;
         m = Dma_mBdSetCtrlLength cur (pkt_size pbuf) m;
         m = Dma_mBdSetId cur (bufInfo pbuf) m;
         m = Dma_mBdSetCtrl cur 0 m;
         m = Dma_mBdSetUserData cur 0 m;
         (ic, m) =
           (if isr
            then let msk = DMA_BD_INT_ERROR_MASK;
                     msk = (if ic mod INT_COAL_CNT = 0 then msk OR DMA_BD_INT_COMP_MASK else msk)
                 in (ic + 1, Dma_mBdSetCtrl cur msk m)
            else (ic, m))
     in (ic, Dma_mBdRingNext R cur, m))"

fun recv_fill :: "bool \<Rightarrow> Dma_BdRing \<Rightarrow> PktBuf list \<Rightarrow> int \<times> u32 \<times> mach \<Rightarrow> int \<times> u32 \<times> mach" where
  "recv_fill isr R [] st = st"
| "recv_fill isr R (pbuf # ps) st = recv_fill isr R ps (recv_one isr R pbuf st)"

text \<open>
  One round of the \<open>do\<close> loop with \<open>free_bd_count\<close> descriptors wanted: the buffers obtained, or
  \<open>None\<close> where the code leaves the loop.
\<close>

definition recv_round :: "nat \<Rightarrow> nat \<Rightarrow> int \<Rightarrow> 'u drv \<Rightarrow> int option \<times> 'u drv" where
  "recv_round e pp free_bd_count s =
     (let (numgot, pkts, s) = call_UserGetPkt e (pool_arr s pp) free_bd_count s;
          s = set_pool_arr pp pkts s
      in if numgot = 0 then (None, s)
      else
        let (result, R, Bd) = Dma_BdRingAlloc (ring_of s e) (word_of_int numgot)
        in case Bd of
             None \<Rightarrow> (None, PutUnusedPkts e pp numgot s)
           | Some BdPtr \<Rightarrow>
               let (ic, cur, m) = recv_fill (TH_BH_ISR s) R (take (nat numgot) (pool_arr s pp))
                     (intrCount (Dma s e), BdPtr, hw s);
                   s = set_eng e ((Dma s e)\<lparr>intrCount := ic\<rparr>) s;
                   (result, R, m) = Dma_BdRingToHw R (word_of_int numgot) BdPtr m
               in if result \<noteq> XST_SUCCESS
                  then let m = unmap_loop R (nat numgot) BdPtr m;
                           (result, R) = Dma_BdRingUnAlloc R (word_of_int numgot) BdPtr;
                           s = set_ring e R (s\<lparr>hw := m\<rparr>)
                       in (None, PutUnusedPkts e pp numgot s)
                  else (Some numgot, set_ring e R (s\<lparr>hw := m\<rparr>)))"

text \<open>
  The loop; every further round has at least one descriptor fewer to fill, so that
  \<open>nat free_bd_count\<close> rounds are enough (\<open>recv_loop_spec\<close>).
\<close>

fun recv_loop :: "nat \<Rightarrow> nat \<Rightarrow> nat \<Rightarrow> int \<Rightarrow> 'u drv \<Rightarrow> 'u drv" where
  "recv_loop 0 e pp free_bd_count s = s"
| "recv_loop (Suc k) e pp free_bd_count s =
     (case recv_round e pp free_bd_count s of
        (None, s) \<Rightarrow> s
      | (Some numgot, s) \<Rightarrow>
          let free_bd_count = free_bd_count - numgot
          in if free_bd_count > 0 then recv_loop k e pp free_bd_count s else s)"

definition DmaSetupRecvBuffers :: "nat \<Rightarrow> 'u drv \<Rightarrow> 'u drv" where
  "DmaSetupRecvBuffers e s =
     (let free_bd_count = sint (Dma_mBdRingGetFreeCnt (ring_of s e))
      in if free_bd_count \<le> 2 then s
      else
        let free_bd_count = free_bd_count - 2;
            (ppool, s) = dq_pool s
        in case ppool of
             None \<Rightarrow> s
           | Some pp \<Rightarrow> eq_pool pp (recv_loop (nat free_bd_count) e pp free_bd_count s))"

section \<open>Handing over completed packets\<close>

text \<open>
  The loop over \<open>k\<close> completed descriptors; it fills elements \<open>j, j + 1, \<dots>\<close> of the packet array and
  adds to the byte counter of the engine.
\<close>

fun drain_loop :: "nat \<Rightarrow> Dma_BdRing \<Rightarrow> u32 \<Rightarrow> nat \<Rightarrow> PktBuf list \<Rightarrow> u32 \<Rightarrow> mach \<Rightarrow> PktBuf list \<times> u32 \<times> mach" where
  "drain_loop 0 R cur j pkts rate m = (pkts, rate, m)"
| "drain_loop (Suc k) R cur j pkts rate m =
     (let bufPA = Dma_mBdGetBufAddr cur m;
          pbuf = pkts ! j;
          pbuf = pbuf\<lparr>pkt_size := Dma_mBdGetStatLength cur m\<rparr>;
          pbuf = pbuf\<lparr>bufInfo := Dma_mBdGetId cur m\<rparr>;
          pbuf = pbuf\<lparr>pktBuf := bufInfo pbuf\<rparr>;
          pbuf = pbuf\<lparr>pkt_flags := Dma_mBdGetStatus cur m\<rparr>;
          pbuf = pbuf\<lparr>userInfo := Dma_mBdGetUserData cur m\<rparr>;
          pkts = pkts[j := pbuf];
          m = pci_unmap_single bufPA (pkt_size pbuf) m;
          m = Dma_mBdSetId cur 0 m;
          m = spin_lock DmaStatsLock m;
          rate = rate + pkt_size pbuf;
          m = spin_unlock DmaStatsLock m
      in drain_loop k R (Dma_mBdRingNext R cur) (j + 1) pkts rate m)"

text \<open>
  The part of \<open>PktHandler\<close> between the retrieval and the replenishing: \<open>False\<close> where it returns
  early (with the lock released).
\<close>

definition handle_done :: "nat \<Rightarrow> nat \<Rightarrow> u32 \<Rightarrow> 'u drv \<Rightarrow> bool \<times> 'u drv" where
  "handle_done e bd_processed BdPtr s =
     (let (ppool, s) = dq_pool s
      in case ppool of
           None \<Rightarrow> (False, s)
         | Some pp \<Rightarrow>
             let R = ring_of s e;
                 (pkts, rate, m) = drain_loop bd_processed R BdPtr 0 (pool_arr s pp) (SWrate s e) (hw s);
                 s = (set_pool_arr pp pkts s)\<lparr>SWrate := (SWrate s)(e := rate), hw := m\<rparr>;
                 (result, R, m) = Dma_BdRingFree R (of_nat bd_processed) BdPtr (hw s);
                 s = set_ring e R (s\<lparr>hw := m\<rparr>)
             in if result \<noteq> XST_SUCCESS
                then (False, on_hw (spin_unlock DmaLock) (eq_pool pp s))
                else
                  let s = on_hw (spin_unlock DmaLock) s;
                      s = call_UserPutPkt e (pool_arr s pp) (int bd_processed) s;
                      s = eq_pool pp s
                  in (True, on_hw (spin_lock DmaLock) s))"

definition PktHandler :: "nat \<Rightarrow> 'u drv \<Rightarrow> 'u drv" where
  "PktHandler e s =
     (let s = on_hw (spin_lock DmaLock) s;
          (bd_processed, R, BdPtr) = Dma_BdRingFromHw (ring_of s e) (of_nat DMA_BD_CNT) (hw s);
          s = set_ring e R s;
          (go, s) = (if bd_processed > 0 then handle_done e (unat bd_processed) BdPtr s else (True, s))
      in if go
         then let s = (if IsRxChannel (ring_of s e) \<noteq> 0 then DmaSetupRecvBuffers e s else s)
              in on_hw (spin_unlock DmaLock) s
         else s)"

section \<open>Life of the descriptor ring of an engine\<close>

text \<open>Sizes in bytes; \<open>descSpaceVA\<close> is a \<open>u32 *\<close>, so adding \<open>delta\<close> to it moves \<open>4 * delta\<close> bytes.\<close>

definition descriptor_init :: "nat \<Rightarrow> 'u drv \<Rightarrow> int \<times> 'u drv" where
  "descriptor_init e s =
     (let dftsize = 4 * DMA_BD_SW_NUM_WORDS * (of_nat DMA_BD_CNT + 1)
      in case pci_alloc s (evs (hw s)) dftsize of
           None \<Rightarrow> (- 1, s)
         | Some (BdPtr, BdPhyAddr) \<Rightarrow>
             let s = on_hw (log_ev (AllocMem dftsize BdPtr BdPhyAddr)) s;
                 (numbds, dlt) = Dma_BdRingAlign BdPtr dftsize DMA_BD_MINIMUM_ALIGNMENT 0
             in if sint numbds \<le> 0 then (- 1, s)
             else
               let E = (Dma s e)\<lparr>descSpacePA := BdPhyAddr + dlt, descSpaceVA := BdPtr + 4 * dlt,
                                 descSpaceSize := dftsize - dlt, delta := dlt\<rparr>;
                   s = set_eng e E s
               in if descSpaceVA E = 0 then (- 1, s)
               else
                 let (result, R, m) = Dma_BdRingCreate (BdRing E) (descSpacePA E) (descSpaceVA E)
                       DMA_BD_MINIMUM_ALIGNMENT numbds (hw s);
                     s = set_ring e R (s\<lparr>hw := m\<rparr>)
                 in if result \<noteq> XST_SUCCESS then (- 5, s)
                 else
                   let s = (if EngType (Dma s e) AND DMA_ENG_DIRECTION_MASK = DMA_ENG_C2S
                            then DmaSetupRecvBuffers e s else s)
                   in (0, s))"

fun force_drain :: "nat \<Rightarrow> Dma_BdRing \<Rightarrow> u32 \<Rightarrow> nat \<Rightarrow> PktBuf list \<Rightarrow> mach \<Rightarrow> PktBuf list \<times> mach" where
  "force_drain 0 R cur j pkts m = (pkts, m)"
| "force_drain (Suc k) R cur j pkts m =
     (let bufPA = Dma_mBdGetBufAddr cur m;
          pbuf = pkts ! j;
          pbuf = pbuf\<lparr>pkt_size := Dma_mBdGetCtrlLength cur m\<rparr>;
          pbuf = pbuf\<lparr>bufInfo := Dma_mBdGetId cur m\<rparr>;
          pbuf = pbuf\<lparr>pktBuf := bufInfo pbuf\<rparr>;
          pbuf = pbuf\<lparr>pkt_flags := PKT_UNUSED\<rparr>;
          pbuf = pbuf\<lparr>userInfo := Dma_mBdGetUserData cur m\<rparr>;
          pkts = pkts[j := pbuf];
          m = pci_unmap_single bufPA (pkt_size pbuf) m;
          m = Dma_mBdSetId cur 0 m
      in force_drain k R (Dma_mBdRingNext R cur) (j + 1) pkts m)"

text \<open>The buffers still queued are forced out and returned; \<open>None\<close> if the pool was empty.\<close>

definition free_queued :: "nat \<Rightarrow> nat \<Rightarrow> u32 \<Rightarrow> 'u drv \<Rightarrow> 'u drv" where
  "free_queued e bd_processed BdPtr s =
     (let (ppool, s) = dq_pool s
      in case ppool of
           None \<Rightarrow> s
         | Some pp \<Rightarrow>
             let (pkts, m) = force_drain bd_processed (ring_of s e) BdPtr 0 (pool_arr s pp) (hw s);
                 s = (set_pool_arr pp pkts s)\<lparr>hw := m\<rparr>;
                 s = on_hw (spin_unlock DmaLock) s;
                 s = call_UserPutPkt e (pool_arr s pp) (int bd_processed) s;
                 s = on_hw (spin_lock DmaLock) s;
                 (result, R, m) = Dma_BdRingFree (ring_of s e) (of_nat bd_processed) BdPtr (hw s);
                 s = set_ring e R (s\<lparr>hw := m\<rparr>)
             in eq_pool pp s)"

definition descriptor_free :: "nat \<Rightarrow> 'u drv \<Rightarrow> 'u drv" where
  "descriptor_free e s =
     (let s = on_hw (spin_lock DmaLock) s;
          (bd_processed, R, BdPtr) = Dma_BdRingForceFromHw (ring_of s e) (of_nat DMA_BD_CNT);
          s = set_ring e R s;
          s = (if bd_processed > 0 then free_queued e (unat bd_processed) BdPtr s else s);
          s = on_hw (spin_unlock DmaLock) s;
          E = Dma s e
      in if descSpaceVA E = 0 then s
         else on_hw (pci_free_consistent (descSpaceSize E + delta E) (descSpaceVA E - 4 * delta E)
                       (descSpacePA E - delta E)) s)"

end
