(* ===== verification/RecvSpec.thy ===== *)
theory RecvSpec
  imports PktHandler
begin

text \<open>
  What the base driver needs from an application driver (locale \<open>user_driver\<close>), and what it then
  guarantees: replenishing and completion keep every descriptor ring well-formed, leave no
  descriptor half-way, balance locks and DMA mappings, and always leave two descriptors free.
\<close>

section \<open>The interface of an application driver\<close>

text \<open>
  \<open>held\<close> counts the buffers the driver has handed out and not got back; \<open>bound u e\<close> says that it
  accepts calls for engine \<open>e\<close> (it knows the handle).
\<close>

locale user_driver =
  fixes uinv :: "'u \<Rightarrow> bool"
    and get :: "nat \<Rightarrow> PktBuf list \<Rightarrow> u32 \<Rightarrow> int \<Rightarrow> u32 \<Rightarrow> 'u \<times> mach \<Rightarrow> int \<times> PktBuf list \<times> 'u \<times> mach"
    and put :: "nat \<Rightarrow> PktBuf list \<Rightarrow> int \<Rightarrow> u32 \<Rightarrow> 'u \<times> mach \<Rightarrow> int \<times> 'u \<times> mach"
    and held :: "'u \<Rightarrow> nat"
    and bound :: "'u \<Rightarrow> nat \<Rightarrow> bool"
  assumes get_count: "uinv u \<Longrightarrow> 0 \<le> n \<Longrightarrow> get e pkts sz n pd (u, m) = (r, pkts', u', m') \<Longrightarrow> 0 \<le> r \<and> r \<le> n"
    and get_filled: "uinv u \<Longrightarrow> 0 \<le> n \<Longrightarrow> nat n \<le> length pkts \<Longrightarrow>
      get e pkts sz n pd (u, m) = (r, pkts', u', m') \<Longrightarrow>
      length pkts' = length pkts \<and> (\<forall>i<nat r. has_len (pkts' ! i))"
    and get_quiet: "uinv u \<Longrightarrow> get e pkts sz n pd (u, m) = (r, pkts', u', m') \<Longrightarrow>
      uinv u' \<and> moves 0 m m' \<and> mem m' = mem m \<and> dev m' = dev m \<and> dma_map m' = dma_map m"
    and put_quiet: "uinv u \<Longrightarrow> put e pkts n pd (u, m) = (r, u', m') \<Longrightarrow>
      uinv u' \<and> moves 0 m m' \<and> mem m' = mem m \<and> dev m' = dev m \<and> dma_map m' = dma_map m"
    and get_held: "uinv u \<Longrightarrow> get e pkts sz n pd (u, m) = (r, pkts', u', m') \<Longrightarrow>
      held u' = held u + nat r \<and> bound u' = bound u"
    and put_held: "uinv u \<Longrightarrow> put e pkts n pd (u, m) = (r, u', m') \<Longrightarrow> nat n \<le> held u \<Longrightarrow>
      held u' = held u - (if bound u e then nat n else 0)"
    and put_bound: "uinv u \<Longrightarrow> put e pkts n pd (u, m) = (r, u', m') \<Longrightarrow> bound u' = bound u"

section \<open>Filling receive descriptors\<close>

lemma recv_one_spec:
  assumes "recv_one isr R p (ic, cur, m) = (ic', cur', m')"
  shows "cur' = Dma_mBdRingNext R cur" "same_outside cur m m'" "moves 1 m m'"
    "Dma_mBdRead cur DMA_BD_BUFL_CTRL_OFFSET m' AND DMA_BD_BUFL_MASK = pkt_size p AND DMA_BD_BUFL_MASK"
    "dev m' = dev m" "dma_map m' = dma_map m"
proof -
  let ?m = "snd (pci_map_single (pktBuf p) (pkt_size p) m)"
  define X where "X = Dma_mBdSetId cur (bufInfo p) (Dma_mBdSetCtrlLength cur (pkt_size p)
    (Dma_mBdSetBufAddr cur (fst (pci_map_single (pktBuf p) (pkt_size p) m)) ?m))"
  define Y where "Y = Dma_mBdSetUserData cur 0 (Dma_mBdSetCtrl cur 0 X)"
  obtain f where m': "m' = (if isr then Dma_mBdSetCtrl cur f Y else Y)"
    using assms unfolding X_def Y_def
    by (auto simp: recv_one_def Let_def split_beta split: if_splits)
  show "cur' = Dma_mBdRingNext R cur" using assms by (auto simp: recv_one_def Let_def split_beta split: if_splits)
  have "same_outside cur m ?m" by (simp add: same_outside_def)
  then have "same_outside cur m Y" unfolding X_def Y_def
    by (intro same_outside_trans[OF _ setter_same_outside(1)] same_outside_trans[OF _ setter_same_outside(3)]
        same_outside_trans[OF _ setter_same_outside(5)] same_outside_trans[OF _ setter_same_outside(6)]
        same_outside_trans[OF _ setter_same_outside(7)])
  then show "same_outside cur m m'" unfolding m' by (auto intro: same_outside_trans setter_same_outside)
  have "moves 1 m Y" unfolding X_def Y_def
    by (simp add: moves_def bd_set_defs Let_def pci_map_single_def)
  then show "moves 1 m m'" unfolding m' using moves_trans[OF _ moves_write(2), of 1 m Y] by auto
  have "Dma_mBdGetCtrlLength cur m' = pkt_size p AND DMA_BD_BUFL_MASK" by (simp add: m' Y_def X_def)
  then show "Dma_mBdRead cur DMA_BD_BUFL_CTRL_OFFSET m' AND DMA_BD_BUFL_MASK = pkt_size p AND DMA_BD_BUFL_MASK"
    by (simp add: Dma_mBdGetCtrlLength_def)
  show "dev m' = dev m" "dma_map m' = dma_map m" by (simp_all add: m' Y_def X_def)
qed

lemma recv_fill_spec:
  assumes "geom R" "length ps \<le> ring_n R"
    "recv_fill isr R ps (ic, bd_addr R (p mod ring_n R), m) = (ic', cur', m')"
  shows "moves (int (length ps)) m m' \<and> dev m' = dev m \<and> dma_map m' = dma_map m
    \<and> (\<forall>j<ring_n R. j \<notin> set (cyc (ring_n R) p (length ps)) \<longrightarrow>
        Dma_mBdRead (bd_addr R j) DMA_BD_BUFL_CTRL_OFFSET m' = Dma_mBdRead (bd_addr R j) DMA_BD_BUFL_CTRL_OFFSET m)
    \<and> (\<forall>i<length ps. has_len (ps ! i) \<longrightarrow> bd_has_length m' (bd_addr R ((p + i) mod ring_n R)))"
  using assms(2-)
proof (induction ps arbitrary: ic m p)
  case Nil
  then show ?case by simp
next
  case (Cons a ps)
  let ?n = "ring_n R" and ?rd = "\<lambda>j m. Dma_mBdRead (bd_addr R j) DMA_BD_BUFL_CTRL_OFFSET m"
  have pn: "p mod ?n < ?n" using geom_n_pos[OF assms(1)] by simp
  obtain ic1 c1 m1 where one: "recv_one isr R a (ic, bd_addr R (p mod ?n), m) = (ic1, c1, m1)"
    by (metis prod_cases3)
  note o = recv_one_spec[OF one]
  have c1: "c1 = bd_addr R (Suc p mod ?n)" using o(1) ringNext_bd_addr[OF assms(1) pn] by (simp add: mod_Suc_eq)
  have rest: "recv_fill isr R ps (ic1, bd_addr R (Suc p mod ?n), m1) = (ic', cur', m')"
    using Cons.prems(2) one c1 by simp
  have "length ps \<le> ?n" using Cons.prems(1) by simp
  note IH = Cons.IH[OF this rest]
  have new: "p mod ?n \<notin> set (cyc ?n (Suc p) (length ps))"
    using distinct_cyc[of "Suc (length ps)" ?n p] Cons.prems(1) by (simp add: cyc_Suc)
  have mv: "moves (int (length (a # ps))) m m'" using moves_trans[OF o(3)] IH by fastforce
  have out: "?rd j m' = ?rd j m" if "j < ?n" "j \<notin> set (cyc ?n p (length (a # ps)))" for j
  proof -
    have j: "j \<noteq> p mod ?n" "j \<notin> set (cyc ?n (Suc p) (length ps))" using that(2) by (auto simp: cyc_Suc)
    then have "?rd j m1 = ?rd j m" using same_outside_bd[OF assms(1) pn that(1), of m m1] o(2) by auto
    then show ?thesis using IH that(1) j(2) by simp
  qed
  have ok: "bd_has_length m' (bd_addr R ((p + i) mod ?n))" if "i < length (a # ps)" "has_len ((a # ps) ! i)" for i
  proof (cases i)
    case 0
    have "?rd (p mod ?n) m' = ?rd (p mod ?n) m1" using IH new pn by simp
    then show ?thesis using o(4) that 0 by (simp add: bd_has_length_def has_len_def)
  next
    case (Suc j)
    then show ?thesis using IH that by simp
  qed
  show ?case using mv out ok IH o(5,6) by simp
qed

section \<open>One round of replenishing\<close>

lemma spec_take_free:
  assumes "gpre G = []" "k \<le> length (gfree G)"
  shows "spec_tohw k (spec_alloc k G) = G\<lparr>ghw := ghw G @ take k (gfree G), gfree := drop k (gfree G)\<rparr>"
  using assms by (simp add: spec_defs)

text \<open>The state of a receive engine between two rounds.\<close>

definition rx_ready :: "'u drv \<Rightarrow> nat \<Rightarrow> bool" where
  "rx_ready s e \<longleftrightarrow> ring_inv (ring_of s e) \<and> PreCnt (ring_of s e) = 0 \<and> IsRxChannel (ring_of s e) \<noteq> 0
     \<and> ring_n (ring_of s e) < 2 ^ 31"

definition rx_core :: "nat \<Rightarrow> nat \<Rightarrow> 'u drv \<Rightarrow> 'u drv \<Rightarrow> bool" where
  "rx_core k e s s' \<longleftrightarrow>
     ring_groups (ring_of s' e) = (ring_groups (ring_of s e))
        \<lparr>ghw := ghw (ring_groups (ring_of s e)) @ take k (gfree (ring_groups (ring_of s e))),
         gfree := drop k (gfree (ring_groups (ring_of s e)))\<rparr>
     \<and> moves (int k) (hw s) (hw s')
     \<and> (\<forall>i. i \<noteq> e \<longrightarrow> Dma s' i = Dma s i) \<and> user (Dma s' e) = user (Dma s e)
     \<and> EngineState (Dma s' e) = EngineState (Dma s e) \<and> static s' = static s
     \<and> IsRxChannel (ring_of s' e) = IsRxChannel (ring_of s e) \<and> ring_n (ring_of s' e) = ring_n (ring_of s e)
     \<and> RunState (ring_of s' e) = RunState (ring_of s e)"

text \<open>The list of free packet arrays is untouched, and no array changes its size.\<close>

definition pool_same :: "'u drv \<Rightarrow> 'u drv \<Rightarrow> bool" where
  "pool_same s s' \<longleftrightarrow> pool_next (pool s') = pool_next (pool s) \<and> pktPoolHead (pool s') = pktPoolHead (pool s)
     \<and> pktPoolTail (pool s') = pktPoolTail (pool s) \<and> (\<forall>i. length (pool_arr s' i) = length (pool_arr s i))"

definition rx_taken :: "nat \<Rightarrow> nat \<Rightarrow> 'u drv \<Rightarrow> 'u drv \<Rightarrow> bool" where
  "rx_taken k e s s' \<longleftrightarrow> rx_core k e s s' \<and> pool_same s s'"

lemmas rx_taken_defs = rx_taken_def rx_core_def pool_same_def

lemma rx_taken_0 [simp]: "rx_taken 0 e s s"
  by (simp add: rx_taken_defs)

lemma rx_taken_trans:
  assumes "rx_taken j e s1 s2" "rx_taken k e s2 s3"
  shows "rx_taken (j + k) e s1 s3"
proof -
  have t: "take (j + k) xs = take j xs @ take k (drop j xs)" for xs :: "nat list" by (rule take_add)
  have d: "drop (j + k) xs = drop k (drop j xs)" for xs :: "nat list" by (simp add: add.commute)
  have "moves (int j + int k) (hw s1) (hw s3)" using assms moves_trans unfolding rx_taken_defs by blast
  then show ?thesis using assms unfolding rx_taken_defs t d by (simp del: drop_drop)
qed

text \<open>Allocating, filling and queueing as many descriptors as there are buffers.\<close>

lemma submit_rx:
  assumes inv: "ring_inv R" and pre: "PreCnt R = 0" and rx: "IsRxChannel R \<noteq> 0"
    and ps: "0 < length ps" "length ps \<le> unat (FreeCnt R)" "\<forall>p\<in>set ps. has_len p"
  shows "\<exists>R1 R2 ic' cur m1 m2. Dma_BdRingAlloc R (word_of_int (int (length ps))) = (XST_SUCCESS, R1, Some (FreeHead R))
    \<and> recv_fill isr R1 ps (ic, FreeHead R, m) = (ic', cur, m1)
    \<and> Dma_BdRingToHw R1 (word_of_int (int (length ps))) (FreeHead R) m1 = (XST_SUCCESS, R2, m2)
    \<and> ring_inv R2 \<and> PreCnt R2 = 0 \<and> IsRxChannel R2 = IsRxChannel R \<and> ring_n R2 = ring_n R \<and> RunState R2 = RunState R
    \<and> ring_groups R2 = (ring_groups R)\<lparr>ghw := ghw (ring_groups R) @ take (length ps) (gfree (ring_groups R)),
         gfree := drop (length ps) (gfree (ring_groups R))\<rparr>
    \<and> moves (int (length ps)) m m2"
proof -
  let ?k = "length ps"
  define N where "N = (of_nat ?k :: u32)"
  have "?k < 2 ^ 32" using ps(2) unat_lt32[of "FreeCnt R"] by linarith
  then have uN: "unat N = ?k" by (simp add: N_def)
  have Nz: "N \<noteq> 0" using uN ps(1) by auto
  have wN: "word_of_int (int ?k) = N" by (simp add: N_def)
  have "N \<le> FreeCnt R" using ps(2) uN by (simp add: word_le_nat_alt)
  from alloc_refines[OF inv this] obtain R1 where al: "Dma_BdRingAlloc R N = (XST_SUCCESS, R1, Some (FreeHead R))"
    "ring_inv R1" "ring_groups R1 = spec_alloc ?k (ring_groups R)" by (auto simp: uN)
  have R1: "R1 = R\<lparr>FreeHead := FreeHead R1, FreeCnt := FreeCnt R1, PreCnt := PreCnt R1\<rparr>"
    using al(1) by (auto simp: Dma_BdRingAlloc_def Let_def split: if_splits)
  have fr: "IsRxChannel R1 = IsRxChannel R" "PreHead R1 = PreHead R" "AllCnt R1 = AllCnt R" "RunState R1 = RunState R"
    by (subst R1, simp)+
  have gp: "gpre (ring_groups R) = []" using group_lengths(3)[of R] pre by (simp del: group_lengths)
  have "length (gpre (ring_groups R1)) = ?k" unfolding al(3) using gp ps(2) by (simp add: spec_alloc_def)
  then have pre1: "unat (PreCnt R1) = ?k" by simp
  have ptr: "FreeHead R = PreHead R1" using ring_invD(3)[OF inv] pre fr by (simp add: ring_at_def)
  define p where "p = post_idx R1 + unat (PostCnt R1) + unat (HwCnt R1)"
  let ?n = "ring_n R1"
  have g1: "geom R1" by (rule ring_invD(1)[OF al(2)])
  have cur: "FreeHead R = bd_addr R1 (p mod ?n)"
    using ring_invD(3)[OF al(2)] ptr by (simp add: ring_at_def p_def)
  have n1: "?k \<le> ?n" using ring_invD(4)[OF al(2)] pre1 by simp
  obtain ic' cur' m1 where fl: "recv_fill isr R1 ps (ic, FreeHead R, m) = (ic', cur', m1)" by (metis prod_cases3)
  note F = recv_fill_spec[OF g1 n1 fl[unfolded cur]]
  have le1: "N \<le> PreCnt R1" using pre1 uN by (simp add: word_le_nat_alt)
  have "list_all (\<lambda>j. bd_has_length m1 (bd_addr R1 j)) (cyc ?n p ?k)"
    using F ps(3) by (auto simp: list_all_iff cyc_def)
  then have acc: "tohw_accepts R1 m1 N (FreeHead R)"
    using le1 ptr fr rx pre_segment[OF al(2) le1] by (simp add: tohw_accepts_def uN p_def)
  obtain R2 m2 where t: "Dma_BdRingToHw R1 N (FreeHead R) m1 = (XST_SUCCESS, R2, m2)" "ring_inv R2"
    "ring_groups R2 = spec_tohw ?k (ring_groups R1)"
    "R2 = R1\<lparr>PreHead := PreHead R2, PreCnt := PreCnt R2, HwTail := HwTail R2, HwCnt := HwCnt R2\<rparr>"
    using tohw_accepted[OF al(2) Nz acc] uN by auto
  have fr2: "IsRxChannel R2 = IsRxChannel R1" "AllCnt R2 = AllCnt R1" "RunState R2 = RunState R1" by (subst t(4), simp)+
  have G: "ring_groups R2 = (ring_groups R)\<lparr>ghw := ghw (ring_groups R) @ take ?k (gfree (ring_groups R)),
         gfree := drop ?k (gfree (ring_groups R))\<rparr>"
    unfolding t(3) al(3) using ps(2) by (intro spec_take_free gp) simp
  have "length (gpre (ring_groups R2)) = 0" unfolding G using gp by simp
  then have "PreCnt R2 = 0" by (simp add: unat_eq_zero)
  moreover have "moves (int ?k) m m2" using moves_trans[OF _ ToHw_moves[OF t(1)], of "int ?k" m] F by simp
  ultimately show ?thesis using al(1) fl t(1,2) G fr fr2 unfolding wN by (auto simp: ring_n_def)
qed

section \<open>Rounds\<close>

context user_driver begin

text \<open>
  The engine is served by this driver, which is in a good state; only receive engines ask it for
  buffers.
\<close>

definition served :: "'u drv \<Rightarrow> nat \<Rightarrow> bool" where
  "served s e \<longleftrightarrow> uinv (usr s) \<and> UserPutPkt (user (Dma s e)) = Some put
     \<and> (IsRxChannel (ring_of s e) \<noteq> 0 \<longrightarrow> UserGetPkt (user (Dma s e)) = Some get)"

definition got :: "nat \<Rightarrow> 'u drv \<Rightarrow> 'u drv \<Rightarrow> bool" where
  "got k s s' \<longleftrightarrow> held (usr s') = held (usr s) + k \<and> bound (usr s') = bound (usr s)"

definition gave :: "nat \<Rightarrow> nat \<Rightarrow> 'u drv \<Rightarrow> 'u drv \<Rightarrow> bool" where
  "gave e k s s' \<longleftrightarrow> bound (usr s') = bound (usr s) \<and>
     (k \<le> held (usr s) \<longrightarrow> held (usr s') = held (usr s) - (if bound (usr s) e then k else 0))"

lemma got_0 [simp]: "got 0 s s" "gave e 0 s s"
  by (simp_all add: got_def gave_def)

lemma got_trans: "got j s t \<Longrightarrow> got k t u \<Longrightarrow> got (j + k) s u"
  by (simp add: got_def)

lemma got_same: "usr t = usr s \<Longrightarrow> got k t u = got k s u" "usr t = usr s \<Longrightarrow> got k u t = got k u s"
  "usr t = usr s \<Longrightarrow> gave e k t u = gave e k s u" "usr t = usr s \<Longrightarrow> gave e k u t = gave e k u s"
  by (simp_all add: got_def gave_def)

text \<open>The driver has just answered that it has no buffer, in its state \<open>u'\<close>.\<close>

definition dry :: "nat \<Rightarrow> 'u \<Rightarrow> bool" where
  "dry e u' \<longleftrightarrow> (\<exists>pkts sz n pd u m pkts' m'. uinv u \<and> 0 < n \<and> get e pkts sz n pd (u, m) = (0, pkts', u', m'))"

lemma recv_round_spec:
  assumes sv: "served s e" and rdy: "rx_ready s e" and n: "0 < n" "n \<le> int (unat (FreeCnt (ring_of s e)))"
    and arr: "nat n \<le> length (pool_arr s pp)"
  shows "\<exists>k s'. recv_round e pp n s = (if k = 0 then None else Some (int k), s') \<and> int k \<le> n
    \<and> served s' e \<and> rx_ready s' e \<and> rx_taken k e s s' \<and> got k s s' \<and> (k = 0 \<longrightarrow> dry e (usr s'))"
proof -
  obtain r pkts u m where g: "get e (pool_arr s pp) (word_of_int (pktSize (Dma s e))) n
      (privData (user (Dma s e))) (usr s, hw s) = (r, pkts, u, m)" by (metis prod_cases4)
  have ui: "uinv (usr s)" using sv by (simp add: served_def)
  note c = get_count[OF ui _ g] and f = get_filled[OF ui _ arr g] and q = get_quiet[OF ui g] and gh = get_held[OF ui g]
  define s1 where "s1 = set_pool_arr pp pkts (s\<lparr>usr := u, hw := m\<rparr>)"
  have len: "\<And>i. length (pool_arr s1 i) = length (pool_arr s i)" using f n(1)
    by (simp add: s1_def set_pool_arr_def pool_arr_def)
  have cg: "call_UserGetPkt e (pool_arr s pp) n s = (r, pkts, s\<lparr>usr := u, hw := m\<rparr>)"
    using g sv rdy by (simp add: call_UserGetPkt_def served_def rx_ready_def)
  have s1: "Dma s1 = Dma s" "usr s1 = u" "hw s1 = m" "pool_arr s1 pp = pkts" "static s1 = static s"
    "TH_BH_ISR s1 = TH_BH_ISR s" "pool_next (pool s1) = pool_next (pool s)"
    "pktPoolHead (pool s1) = pktPoolHead (pool s)" "pktPoolTail (pool s1) = pktPoolTail (pool s)"
    by (simp_all add: s1_def set_pool_arr_def pool_arr_def)
  show ?thesis
  proof (cases "r = 0")
    case True
    have "recv_round e pp n s = (None, s1)" using cg True by (simp add: recv_round_def s1_def)
    moreover have "rx_taken 0 e s s1" using q len by (simp add: rx_taken_defs s1 ring_of_def)
    moreover have "served s1 e" "rx_ready s1 e" using sv rdy q by (simp_all add: served_def rx_ready_def s1 ring_of_def)
    moreover have "got 0 s s1" using gh True by (simp add: got_def s1)
    moreover have "dry e (usr s1)" using ui n(1) g True unfolding dry_def s1(2) by blast
    ultimately show ?thesis using n
      by (intro exI[of _ "0::nat"] exI[of _ s1]) simp
  next
    case False
    define k where "k = nat r"
    have k: "0 < k" "int k \<le> n" "r = int k" using False c n(1) by (auto simp: k_def)
    define ps where "ps = take k pkts"
    have lp: "length ps = k" using k f arr n(1) by (simp add: ps_def)
    have hl: "\<forall>p\<in>set ps. has_len p" using f n(1) lp unfolding ps_def k_def
      by (auto simp: in_set_conv_nth)
    have R: "ring_inv (ring_of s e)" "PreCnt (ring_of s e) = 0" "IsRxChannel (ring_of s e) \<noteq> 0"
      using rdy by (simp_all add: rx_ready_def)
    have le: "length ps \<le> unat (FreeCnt (ring_of s e))" using k(2) n(2) lp by linarith
    obtain R1 R2 ic cur m1 m2 where sub:
      "Dma_BdRingAlloc (ring_of s e) (word_of_int (int k)) = (XST_SUCCESS, R1, Some (FreeHead (ring_of s e)))"
      "recv_fill (TH_BH_ISR s) R1 ps (intrCount (Dma s e), FreeHead (ring_of s e), m) = (ic, cur, m1)"
      "Dma_BdRingToHw R1 (word_of_int (int k)) (FreeHead (ring_of s e)) m1 = (XST_SUCCESS, R2, m2)"
      "ring_inv R2" "PreCnt R2 = 0" "IsRxChannel R2 = IsRxChannel (ring_of s e)" "ring_n R2 = ring_n (ring_of s e)" "RunState R2 = RunState (ring_of s e)"
      "ring_groups R2 = (ring_groups (ring_of s e))\<lparr>ghw := ghw (ring_groups (ring_of s e)) @
         take k (gfree (ring_groups (ring_of s e))), gfree := drop k (gfree (ring_groups (ring_of s e)))\<rparr>"
      "moves (int k) m m2"
      using submit_rx[OF R _ le hl, of "TH_BH_ISR s" "intrCount (Dma s e)" m] k(1) lp by auto
    define s2 where "s2 = set_ring e R2 ((set_eng e ((Dma s1 e)\<lparr>intrCount := ic\<rparr>) s1)\<lparr>hw := m2\<rparr>)"
    have run: "recv_round e pp n s = (Some (int k), s2)"
      using cg sub(1-3) k(1) by (simp add: recv_round_def Let_def s1_def[symmetric] s1 k(3) ps_def ring_of_def s2_def
          del: of_int_of_nat_eq)
    have s2: "ring_of s2 e = R2" "hw s2 = m2" "usr s2 = u" "pool s2 = pool s1" "static s2 = static s"
      "\<And>i. i \<noteq> e \<Longrightarrow> Dma s2 i = Dma s i" "user (Dma s2 e) = user (Dma s e)" "EngineState (Dma s2 e) = EngineState (Dma s e)"
      by (simp_all add: s2_def ring_of_def set_ring_def set_eng_def s1)
    have "rx_taken k e s s2" using sub(6-9) moves_trans0[OF _ sub(10), of "hw s"] q
      len by (simp add: rx_taken_defs s2 s1 pool_arr_def)
    moreover have "served s2 e" using sv q sub(6) by (simp add: served_def s2)
    moreover have "rx_ready s2 e" using rdy sub(4-7) by (simp add: rx_ready_def s2)
    moreover have "got k s s2" using gh by (simp add: got_def s2 k_def)
    ultimately show ?thesis using run k(1,2) by (intro exI[of _ k] exI[of _ s2]) simp
  qed
qed

text \<open>
  The loop ends by itself within \<open>n\<close> rounds: it stops when everything is filled or the driver has
  no more buffers, never because the bound on the number of rounds is reached.
\<close>

lemma taken_free:
  "rx_taken k e s s' \<Longrightarrow> unat (FreeCnt (ring_of s' e)) = unat (FreeCnt (ring_of s e)) - k"
  using group_lengths(4)[of "ring_of s' e"] by (simp add: rx_taken_defs del: group_lengths) simp

lemma recv_loop_spec:
  assumes "served s e" "rx_ready s e" "0 < n" "n \<le> int (unat (FreeCnt (ring_of s e)))"
    "nat n \<le> length (pool_arr s pp)"
  shows "\<exists>k s'. (\<forall>j \<ge> nat n. recv_loop j e pp n s = s') \<and> int k \<le> n \<and> served s' e \<and> rx_ready s' e
    \<and> rx_taken k e s s' \<and> got k s s' \<and> (int k = n \<or> dry e (usr s'))"
  using assms
proof (induction "nat n" arbitrary: n s rule: less_induct)
  case less
  obtain k s' where r: "recv_round e pp n s = (if k = 0 then None else Some (int k), s')" "int k \<le> n"
    "served s' e" "rx_ready s' e" "rx_taken k e s s'" "got k s s'" "k = 0 \<longrightarrow> dry e (usr s')"
    using recv_round_spec[OF less.prems] by blast
  have step: "recv_loop j e pp n s = (if k = 0 then s' else if n - int k > 0
      then recv_loop (j - 1) e pp (n - int k) s' else s')" if "nat n \<le> j" for j
    using that less.prems(3) r(1) by (cases j) (auto simp: Let_def)
  show ?case
  proof (cases "k = 0 \<or> n - int k \<le> 0")
    case True
    then have "\<forall>j\<ge>nat n. recv_loop j e pp n s = s'" using step by auto
    moreover have "int k = n \<or> dry e (usr s')" using True r(2,7) by auto
    ultimately show ?thesis using r by blast
  next
    case False
    then have k: "0 < k" "0 < n - int k" by auto
    have fr: "unat (FreeCnt (ring_of s' e)) = unat (FreeCnt (ring_of s e)) - k" by (rule taken_free[OF r(5)])
    have "n - int k \<le> int (unat (FreeCnt (ring_of s' e)))" using fr less.prems(4) r(2) by linarith
    moreover have "nat (n - int k) \<le> length (pool_arr s' pp)" using less.prems(5) r(5) by (simp add: rx_taken_defs)
    moreover have "nat (n - int k) < nat n" using k by simp
    ultimately obtain k2 s2 where r2: "\<forall>j\<ge>nat (n - int k). recv_loop j e pp (n - int k) s' = s2"
      "int k2 \<le> n - int k" "served s2 e" "rx_ready s2 e" "rx_taken k2 e s' s2" "got k2 s' s2" "int k2 = n - int k \<or> dry e (usr s2)"
      using less.hyps[OF _ r(3,4) k(2)] by blast
    have "recv_loop j e pp n s = s2" if j: "nat n \<le> j" for j
    proof -
      have "nat (n - int k) \<le> j - 1" using j k by linarith
      then show ?thesis using step[OF j] k r2(1) by simp
    qed
    moreover have "rx_taken (k + k2) e s s2" by (rule rx_taken_trans[OF r(5) r2(5)])
    moreover have "int (k + k2) \<le> n" using r2(2) by simp
    moreover have "got (k + k2) s s2" by (rule got_trans[OF r(6) r2(6)])
    moreover have "int (k + k2) = n \<or> dry e (usr s2)" using r2(7) by auto
    ultimately show ?thesis using r2 by (intro exI[of _ "k + k2"] exI[of _ s2]) simp
  qed
qed

end

section \<open>Replenishing\<close>

text \<open>A pool with at least two free arrays of full size, and a pool one array was borrowed from.\<close>

definition pool_ok :: "'u drv \<Rightarrow> bool" where
  "pool_ok s \<longleftrightarrow> (\<exists>xs. pool_rep (pool s, hw s) xs \<and> 2 \<le> length xs \<and> (\<forall>x\<in>set xs. length (pool_arr s x) = DMA_BD_CNT))"

definition borrowed :: "nat \<Rightarrow> 'u drv \<Rightarrow> bool" where
  "borrowed pp s \<longleftrightarrow> (\<exists>xs. pool_rep (pool s, hw s) xs \<and> xs \<noteq> [] \<and> pp \<notin> set xs
     \<and> (\<forall>x\<in>set (pp # xs). length (pool_arr s x) = DMA_BD_CNT))"

lemma pool_rep_fields:
  "pool_next P = pool_next Q \<Longrightarrow> pktPoolHead P = pktPoolHead Q \<Longrightarrow> pktPoolTail P = pktPoolTail Q \<Longrightarrow>
   pool_rep (P, m) xs = pool_rep (Q, m') xs"
  by (simp add: pool_rep_def)

lemma borrowed_same: "pool_same s s' \<Longrightarrow> borrowed pp s \<Longrightarrow> borrowed pp s'"
  unfolding borrowed_def pool_same_def using pool_rep_fields[of "pool s" "pool s'" "hw s" _ "hw s'"] by auto

lemma borrow:
  assumes "pool_ok s"
  shows "\<exists>pp P m. dq_pool s = (Some pp, s\<lparr>pool := P, hw := m\<rparr>) \<and> borrowed pp (s\<lparr>pool := P, hw := m\<rparr>)
    \<and> moves 0 (hw s) m \<and> pktArray P = pktArray (pool s) \<and> mem m = mem (hw s)"
proof -
  obtain xs where xs: "pool_rep (pool s, hw s) xs" "2 \<le> length xs" "\<forall>x\<in>set xs. length (pool_arr s x) = DMA_BD_CNT"
    using assms by (auto simp: pool_ok_def)
  then obtain x y ys where xyz: "xs = x # y # ys" by (auto simp: numeral_2_eq_2 Suc_le_length_iff)
  obtain P m where d: "DQPool (pool s, hw s) = (Some x, P, m)" "pool_rep (P, m) (y # ys)"
    using pools.deq_law[OF xs(1)[unfolded xyz]] by fastforce
  have "x \<notin> set (y # ys)" using pools.rep_distinct[OF xs(1)] xyz by simp
  moreover have f: "pktArray P = pktArray (pool s)" "moves 0 (hw s) m" "mem m = mem (hw s)" using d(1)
    by (auto simp: DQPool_def Let_def moves_def split: option.splits)
  ultimately have "borrowed x (s\<lparr>pool := P, hw := m\<rparr>)"
    using d(2) xs(3) xyz by (auto simp: borrowed_def pool_arr_def intro!: exI[of _ "y # ys"])
  then show ?thesis using d(1) f by (auto simp: dq_pool_def)
qed

lemma give_back:
  assumes "borrowed pp s"
  shows "\<exists>P m. eq_pool pp s = s\<lparr>pool := P, hw := m\<rparr> \<and> pool_ok (s\<lparr>pool := P, hw := m\<rparr>) \<and> moves 0 (hw s) m
    \<and> mem m = mem (hw s) \<and> pktArray P = pktArray (pool s)"
proof -
  obtain xs where xs: "pool_rep (pool s, hw s) xs" "xs \<noteq> []" "pp \<notin> set xs"
    "\<forall>x\<in>set (pp # xs). length (pool_arr s x) = DMA_BD_CNT" using assms by (auto simp: borrowed_def)
  obtain P m where e: "EQPool pp (pool s, hw s) = (P, m)" by (cases "EQPool pp (pool s, hw s)")
  have r: "pool_rep (P, m) (xs @ [pp])" using pools.enq_law[OF xs(1-3)] e by simp
  have f: "pktArray P = pktArray (pool s)" "moves 0 (hw s) m" "mem m = mem (hw s)"
    using e xs(1,2) by (auto simp: EQPool_def Let_def moves_def pool_rep_def)
  have "2 \<le> length (xs @ [pp])" using xs(2) by (cases xs) auto
  then have "pool_ok (s\<lparr>pool := P, hw := m\<rparr>)" using r xs(4) f
    by (auto simp: pool_ok_def pool_arr_def intro!: exI[of _ "xs @ [pp]"])
  then show ?thesis using e f by (auto simp: eq_pool_def)
qed

lemma rx_core_moves:
  "rx_core k e s s' \<Longrightarrow> moves 0 (hw s') m \<Longrightarrow> rx_core k e s (s'\<lparr>pool := P, hw := m\<rparr>)"
  using moves_trans[of "int k" "hw s" "hw s'" 0 m] by (simp add: rx_core_def ring_of_def)

lemma rx_core_moves0:
  "rx_core k e (s\<lparr>pool := P, hw := m\<rparr>) s' \<Longrightarrow> moves 0 (hw s) m \<Longrightarrow> rx_core k e s s'"
  using moves_trans0[of "hw s" m "int k" "hw s'"] by (simp add: rx_core_def ring_of_def)

context user_driver begin

text \<open>Replenishing: at most all but two of the free descriptors go to the hardware.\<close>

lemma setup_recv:
  assumes sv: "served s e" and rdy: "rx_ready s e" and po: "pool_ok s"
    and cnt: "ring_n (ring_of s e) \<le> DMA_BD_CNT + 2"
  shows "\<exists>k. k \<le> unat (FreeCnt (ring_of s e)) - 2 \<and> rx_core k e s (DmaSetupRecvBuffers e s)
    \<and> served (DmaSetupRecvBuffers e s) e \<and> rx_ready (DmaSetupRecvBuffers e s) e \<and> pool_ok (DmaSetupRecvBuffers e s)
    \<and> got k s (DmaSetupRecvBuffers e s)
    \<and> (k = unat (FreeCnt (ring_of s e)) - 2 \<or> dry e (usr (DmaSetupRecvBuffers e s)))"
proof -
  define f where "f = unat (FreeCnt (ring_of s e))"
  have fn: "f \<le> ring_n (ring_of s e)" using rdy ring_invD(4)[of "ring_of s e"] by (simp add: f_def rx_ready_def)
  have "f < 2 ^ 31" using rdy fn by (simp add: rx_ready_def)
  then have sf: "sint (Dma_mBdRingGetFreeCnt (ring_of s e)) = int f"
    using sint_small[of "FreeCnt (ring_of s e)"] by (simp add: f_def Dma_mBdRingGetFreeCnt_def)
  show ?thesis
  proof (cases "f \<le> 2")
    case True
    then have "DmaSetupRecvBuffers e s = s" by (simp add: DmaSetupRecvBuffers_def sf)
    then show ?thesis using assms True by (intro exI[of _ 0]) (simp add: rx_core_def f_def)
  next
    case False
    obtain pp P m where d: "dq_pool s = (Some pp, s\<lparr>pool := P, hw := m\<rparr>)" "borrowed pp (s\<lparr>pool := P, hw := m\<rparr>)"
      "moves 0 (hw s) m" using borrow[OF po] by blast
    define s1 where "s1 = s\<lparr>pool := P, hw := m\<rparr>"
    have r1: "ring_of s1 e = ring_of s e" by (simp add: s1_def ring_of_def)
    have "served s1 e" "rx_ready s1 e" using sv rdy r1 by (simp_all add: served_def rx_ready_def r1, simp_all add: s1_def)
    moreover have "0 < int f - 2" "int f - 2 \<le> int (unat (FreeCnt (ring_of s1 e)))"
      using False unfolding r1 f_def by linarith+
    moreover have "nat (int f - 2) \<le> length (pool_arr s1 pp)"
      using d(2) fn cnt by (auto simp: s1_def borrowed_def)
    ultimately obtain k s2 where l: "recv_loop (nat (int f - 2)) e pp (int f - 2) s1 = s2" "int k \<le> int f - 2"
      "served s2 e" "rx_ready s2 e" "rx_taken k e s1 s2" "got k s1 s2" "int k = int f - 2 \<or> dry e (usr s2)" using recv_loop_spec[of s1 e "int f - 2" pp] by auto
    have "borrowed pp s2" using borrowed_same d(2) l(5) by (auto simp: s1_def rx_taken_def)
    then obtain P' m' where b: "eq_pool pp s2 = s2\<lparr>pool := P', hw := m'\<rparr>" "pool_ok (s2\<lparr>pool := P', hw := m'\<rparr>)"
      "moves 0 (hw s2) m'" using give_back by blast
    have run: "DmaSetupRecvBuffers e s = s2\<lparr>pool := P', hw := m'\<rparr>"
      using False d(1) l(1) b(1) by (simp add: DmaSetupRecvBuffers_def sf s1_def Let_def)
    have "rx_core k e s s2" using l(5) rx_core_moves0[of k e m P s s2] d(3) by (simp add: rx_taken_def s1_def)
    then have "rx_core k e s (s2\<lparr>pool := P', hw := m'\<rparr>)" by (rule rx_core_moves) (rule b(3))
    moreover have "served (s2\<lparr>pool := P', hw := m'\<rparr>) e" "rx_ready (s2\<lparr>pool := P', hw := m'\<rparr>) e"
      using l(3,4) by (simp_all add: served_def rx_ready_def ring_of_def)
    moreover have "k \<le> unat (FreeCnt (ring_of s e)) - 2" using l(2) False unfolding f_def by linarith
    moreover have "got k s (s2\<lparr>pool := P', hw := m'\<rparr>)" using l(6) by (simp add: got_def s1_def)
    moreover have "k = unat (FreeCnt (ring_of s e)) - 2 \<or> dry e (usr (s2\<lparr>pool := P', hw := m'\<rparr>))"
    proof -
      have "k = f - 2 \<or> dry e (usr s2)" using l(7) False by linarith
      then show ?thesis by (simp only: f_def) simp
    qed
    ultimately show ?thesis using b(2) run by auto
  qed
qed

end

end
