(* ===== verification/DoneSpec.thy ===== *)
theory DoneSpec
  imports RecvSpec
begin

text \<open>
  What \<open>PktHandler\<close> and \<open>descriptor_free\<close> do: the packets they hand to the application driver are
  exactly the completed (or the still queued) descriptors, in ring order, each buffer unmapped
  once, and the descriptors end up free.
\<close>

section \<open>The packet read off a descriptor\<close>

definition done_pkt :: "mach \<Rightarrow> u32 \<Rightarrow> PktBuf" where
  "done_pkt m a = \<lparr>pktBuf = Dma_mBdGetId a m, bufInfo = Dma_mBdGetId a m, pkt_size = Dma_mBdGetStatLength a m,
     pkt_flags = Dma_mBdGetStatus a m, userInfo = Dma_mBdGetUserData a m\<rparr>"

definition queued_pkt :: "mach \<Rightarrow> u32 \<Rightarrow> PktBuf" where
  "queued_pkt m a = \<lparr>pktBuf = Dma_mBdGetId a m, bufInfo = Dma_mBdGetId a m, pkt_size = Dma_mBdGetCtrlLength a m,
     pkt_flags = PKT_UNUSED, userInfo = Dma_mBdGetUserData a m\<rparr>"

lemma same_outside_word:
  assumes "geom R" "i < ring_n R" "j < ring_n R" "i \<noteq> j" "same_outside (bd_addr R i) m m'" "unat off < 64"
  shows "Dma_mBdRead (bd_addr R j) off m' = Dma_mBdRead (bd_addr R j) off m"
  using bd_word_disjoint[OF assms(1,3,2) _ assms(6)] assms(4,5) by (auto simp: same_outside_def Dma_mBdRead_def)

lemma same_outside_pkt:
  assumes "geom R" "i < ring_n R" "j < ring_n R" "i \<noteq> j" "same_outside (bd_addr R i) m m'"
  shows "done_pkt m' (bd_addr R j) = done_pkt m (bd_addr R j)" "queued_pkt m' (bd_addr R j) = queued_pkt m (bd_addr R j)"
    "Dma_mBdGetBufAddr (bd_addr R j) m' = Dma_mBdGetBufAddr (bd_addr R j) m"
  using same_outside_word[OF assms]
  by (simp_all add: done_pkt_def queued_pkt_def Dma_mBdGetId_def Dma_mBdGetStatLength_def Dma_mBdGetStatus_def
      Dma_mBdGetCtrlLength_def Dma_mBdGetUserData_def Dma_mBdGetBufAddr_def hwc)

text \<open>The result of storing \<open>k\<close> packets from slot \<open>j\<close> on.\<close>

lemma store_Cons:
  "j < length xs \<Longrightarrow> take (Suc j) (xs[j := y]) @ ys @ drop (Suc j + k) (xs[j := y])
     = take j xs @ (y # ys) @ drop (j + Suc k) xs"
  by (simp add: take_Suc_conv_app_nth)

section \<open>Draining completed descriptors\<close>

lemma drain_one:
  "\<exists>m1. drain_loop (Suc k) R cur j pkts rate m
      = drain_loop k R (Dma_mBdRingNext R cur) (j + 1) (pkts[j := done_pkt m cur]) (rate + Dma_mBdGetStatLength cur m) m1
    \<and> same_outside cur m m1 \<and> moves (-1) m m1 \<and> dev m1 = dev m \<and> dma_map m1 = dma_map m"
proof -
  define m1 where "m1 = spin_unlock DmaStatsLock (spin_lock DmaStatsLock (Dma_mBdSetId cur 0
      (pci_unmap_single (Dma_mBdGetBufAddr cur m) (Dma_mBdGetStatLength cur m) m)))"
  have "drain_loop (Suc k) R cur j pkts rate m
      = drain_loop k R (Dma_mBdRingNext R cur) (j + 1) (pkts[j := done_pkt m cur]) (rate + Dma_mBdGetStatLength cur m) m1"
    by (cases "pkts ! j") (simp add: Let_def m1_def done_pkt_def)
  moreover have "same_outside cur m m1" by (simp add: m1_def same_outside_def bd_set_defs hwc)
  moreover have "moves (-1) m m1" by (simp add: m1_def moves_def bd_set_defs)
  ultimately show ?thesis by (intro exI[of _ m1]) (simp add: m1_def)
qed

lemma drain_loop_spec:
  assumes "geom R" "k \<le> ring_n R" "j + k \<le> length pkts"
    "drain_loop k R (bd_addr R (p mod ring_n R)) j pkts rate m = (pkts', rate', m')"
  shows "pkts' = take j pkts @ map (\<lambda>i. done_pkt m (bd_addr R i)) (cyc (ring_n R) p k) @ drop (j + k) pkts
    \<and> rate' = rate + sum_list (map (\<lambda>i. pkt_size (done_pkt m (bd_addr R i))) (cyc (ring_n R) p k))
    \<and> moves (- int k) m m' \<and> dev m' = dev m \<and> dma_map m' = dma_map m"
  using assms(2-)
proof (induction k arbitrary: p j pkts rate m)
  case 0
  then show ?case by simp
next
  case (Suc k)
  let ?n = "ring_n R" and ?a = "bd_addr R (p mod ring_n R)"
  have pn: "p mod ?n < ?n" using geom_n_pos[OF assms(1)] by simp
  obtain m1 where one: "drain_loop (Suc k) R ?a j pkts rate m
      = drain_loop k R (Dma_mBdRingNext R ?a) (j + 1) (pkts[j := done_pkt m ?a]) (rate + Dma_mBdGetStatLength ?a m) m1"
    "same_outside ?a m m1" "moves (-1) m m1" "dev m1 = dev m" "dma_map m1 = dma_map m"
    using drain_one by blast
  have nx: "Dma_mBdRingNext R ?a = bd_addr R (Suc p mod ?n)"
    using ringNext_bd_addr[OF assms(1) pn] by (simp add: mod_Suc_eq)
  have rest: "drain_loop k R (bd_addr R (Suc p mod ?n)) (j + 1) (pkts[j := done_pkt m ?a])
      (rate + Dma_mBdGetStatLength ?a m) m1 = (pkts', rate', m')"
    using Suc.prems(3) one(1) nx by simp
  have "k \<le> ?n" "j + 1 + k \<le> length (pkts[j := done_pkt m ?a])" using Suc.prems by simp_all
  note IH = Suc.IH[OF this rest]
  have new: "p mod ?n \<notin> set (cyc ?n (Suc p) k)"
    using distinct_cyc[of "Suc k" ?n p] Suc.prems(1) by (simp add: cyc_Suc)
  have same: "done_pkt m1 (bd_addr R i) = done_pkt m (bd_addr R i)" if "i \<in> set (cyc ?n (Suc p) k)" for i
    using same_outside_pkt(1)[OF assms(1) pn _ _ one(2)] set_cyc_less[OF geom_n_pos[OF assms(1)] that] that new by auto
  then have mp: "map (\<lambda>i. done_pkt m1 (bd_addr R i)) (cyc ?n (Suc p) k) = map (\<lambda>i. done_pkt m (bd_addr R i)) (cyc ?n (Suc p) k)"
    "map (\<lambda>i. pkt_size (done_pkt m1 (bd_addr R i))) (cyc ?n (Suc p) k) = map (\<lambda>i. pkt_size (done_pkt m (bd_addr R i))) (cyc ?n (Suc p) k)"
    by (auto cong: map_cong)
  have "pkts' = take j pkts @ map (\<lambda>i. done_pkt m (bd_addr R i)) (cyc ?n p (Suc k)) @ drop (j + Suc k) pkts"
    using IH store_Cons[of j pkts "done_pkt m ?a" "map (\<lambda>i. done_pkt m (bd_addr R i)) (cyc ?n (Suc p) k)" k] Suc.prems(2)
    by (simp add: mp cyc_Suc)
  moreover have "pkt_size (done_pkt m ?a) = Dma_mBdGetStatLength ?a m" by (simp add: done_pkt_def)
  moreover have "moves (- int (Suc k)) m m'" using moves_trans[OF one(3), of "- int k" m'] IH by simp
  ultimately show ?case using IH one(4,5) by (simp add: mp cyc_Suc add.assoc)
qed

section \<open>Draining queued descriptors\<close>

lemma force_one:
  "\<exists>m1. force_drain (Suc k) R cur j pkts m
      = force_drain k R (Dma_mBdRingNext R cur) (j + 1) (pkts[j := queued_pkt m cur]) m1
    \<and> same_outside cur m m1 \<and> moves (-1) m m1 \<and> dev m1 = dev m \<and> dma_map m1 = dma_map m"
proof -
  define m1 where "m1 = Dma_mBdSetId cur 0 (pci_unmap_single (Dma_mBdGetBufAddr cur m) (Dma_mBdGetCtrlLength cur m) m)"
  have "force_drain (Suc k) R cur j pkts m
      = force_drain k R (Dma_mBdRingNext R cur) (j + 1) (pkts[j := queued_pkt m cur]) m1"
    by (cases "pkts ! j") (simp add: Let_def m1_def queued_pkt_def)
  moreover have "same_outside cur m m1" by (simp add: m1_def same_outside_def bd_set_defs hwc)
  moreover have "moves (-1) m m1" by (simp add: m1_def moves_def bd_set_defs)
  ultimately show ?thesis by (intro exI[of _ m1]) (simp add: m1_def)
qed

lemma force_drain_spec:
  assumes "geom R" "k \<le> ring_n R" "j + k \<le> length pkts"
    "force_drain k R (bd_addr R (p mod ring_n R)) j pkts m = (pkts', m')"
  shows "pkts' = take j pkts @ map (\<lambda>i. queued_pkt m (bd_addr R i)) (cyc (ring_n R) p k) @ drop (j + k) pkts
    \<and> moves (- int k) m m' \<and> dev m' = dev m \<and> dma_map m' = dma_map m"
  using assms(2-)
proof (induction k arbitrary: p j pkts m)
  case 0
  then show ?case by simp
next
  case (Suc k)
  let ?n = "ring_n R" and ?a = "bd_addr R (p mod ring_n R)"
  have pn: "p mod ?n < ?n" using geom_n_pos[OF assms(1)] by simp
  obtain m1 where one: "force_drain (Suc k) R ?a j pkts m
      = force_drain k R (Dma_mBdRingNext R ?a) (j + 1) (pkts[j := queued_pkt m ?a]) m1"
    "same_outside ?a m m1" "moves (-1) m m1" "dev m1 = dev m" "dma_map m1 = dma_map m"
    using force_one by blast
  have nx: "Dma_mBdRingNext R ?a = bd_addr R (Suc p mod ?n)"
    using ringNext_bd_addr[OF assms(1) pn] by (simp add: mod_Suc_eq)
  have rest: "force_drain k R (bd_addr R (Suc p mod ?n)) (j + 1) (pkts[j := queued_pkt m ?a]) m1 = (pkts', m')"
    using Suc.prems(3) one(1) nx by simp
  have "k \<le> ?n" "j + 1 + k \<le> length (pkts[j := queued_pkt m ?a])" using Suc.prems by simp_all
  note IH = Suc.IH[OF this rest]
  have new: "p mod ?n \<notin> set (cyc ?n (Suc p) k)"
    using distinct_cyc[of "Suc k" ?n p] Suc.prems(1) by (simp add: cyc_Suc)
  have "queued_pkt m1 (bd_addr R i) = queued_pkt m (bd_addr R i)" if "i \<in> set (cyc ?n (Suc p) k)" for i
    using same_outside_pkt(2)[OF assms(1) pn _ _ one(2)] set_cyc_less[OF geom_n_pos[OF assms(1)] that] that new by auto
  then have mp: "map (\<lambda>i. queued_pkt m1 (bd_addr R i)) (cyc ?n (Suc p) k) = map (\<lambda>i. queued_pkt m (bd_addr R i)) (cyc ?n (Suc p) k)"
    by (auto cong: map_cong)
  have "pkts' = take j pkts @ map (\<lambda>i. queued_pkt m (bd_addr R i)) (cyc ?n p (Suc k)) @ drop (j + Suc k) pkts"
    using IH store_Cons[of j pkts "queued_pkt m ?a" "map (\<lambda>i. queued_pkt m (bd_addr R i)) (cyc ?n (Suc p) k)" k] Suc.prems(2)
    by (simp add: mp cyc_Suc)
  moreover have "moves (- int (Suc k)) m m'" using moves_trans[OF one(3), of "- int k" m'] IH by simp
  ultimately show ?case using IH one(4,5) by simp
qed

section \<open>Completion\<close>

lemma pool_ok_pool: "pool s' = pool s \<Longrightarrow> pool_ok s' = pool_ok s"
  using pool_rep_fields[of "pool s'" "pool s" "hw s'" _ "hw s"] by (simp add: pool_ok_def pool_arr_def)

lemma borrowed_pool: "pool s' = pool s \<Longrightarrow> borrowed pp s' = borrowed pp s"
  using pool_rep_fields[of "pool s'" "pool s" "hw s'" _ "hw s"] by (simp add: borrowed_def pool_arr_def)

lemma bd_read_mem: "mem m' = mem m \<Longrightarrow> Dma_mBdRead a off m' = Dma_mBdRead a off m"
  by (simp add: Dma_mBdRead_def)

lemma pkt_mem: "mem m' = mem m \<Longrightarrow> done_pkt m' a = done_pkt m a" "mem m' = mem m \<Longrightarrow> queued_pkt m' a = queued_pkt m a"
  using bd_read_mem[of m' m]
  by (simp_all add: done_pkt_def queued_pkt_def Dma_mBdGetId_def Dma_mBdGetStatLength_def Dma_mBdGetStatus_def
      Dma_mBdGetCtrlLength_def Dma_mBdGetUserData_def)

lemma complete_mem:
  assumes "mem m' = mem m"
  shows "hw_complete R m' l = hw_complete R m l"
  using bd_read_mem[OF assms]
  by (simp add: hw_complete_def hw_ready_def bd_done_def bd_end_def Dma_mBdGetStatus_def Dma_mBdGetCtrl_def
      Dma_mBdGetUserData_def)

text \<open>What the handler leaves alone, and what it leaves behind.\<close>

definition done_core :: "nat \<Rightarrow> 'u drv \<Rightarrow> 'u drv \<Rightarrow> bool" where
  "done_core e s s' \<longleftrightarrow> (\<forall>i. i \<noteq> e \<longrightarrow> Dma s' i = Dma s i) \<and> user (Dma s' e) = user (Dma s e)
     \<and> EngineState (Dma s' e) = EngineState (Dma s e) \<and> static s' = static s
     \<and> IsRxChannel (ring_of s' e) = IsRxChannel (ring_of s e) \<and> ring_n (ring_of s' e) = ring_n (ring_of s e)"

lemma done_core_trans: "done_core e s1 s2 \<Longrightarrow> done_core e s2 s3 \<Longrightarrow> done_core e s1 s3"
  by (simp add: done_core_def)

definition sum_sizes :: "mach \<Rightarrow> Dma_BdRing \<Rightarrow> nat list \<Rightarrow> u32" where
  "sum_sizes m R js = sum_list (map (\<lambda>i. pkt_size (done_pkt m (bd_addr R i))) js)"

context user_driver begin

lemma handle_done_spec:
  assumes sv: "served s e" and inv: "ring_inv (ring_of s e)" and k: "unat (PostCnt (ring_of s e)) = k" "k \<le> DMA_BD_CNT"
    and ptr: "BdPtr = PostHead (ring_of s e)" and po: "pool_ok s"
  shows "\<exists>arr r m1 m2 s'. handle_done e k BdPtr s = (True, s')
    \<and> take k arr = map (\<lambda>i. done_pkt (hw s) (bd_addr (ring_of s e) i)) (gpost (ring_groups (ring_of s e)))
    \<and> put e arr (int k) (privData (user (Dma s e))) (usr s, m1) = (r, usr s', m2)
    \<and> (\<forall>l. lock_depth l (evs m1) = lock_depth l (evs (hw s)) - of_bool (l = DmaLock))
    \<and> moves (- int k) (hw s) (hw s') \<and> ring_inv (ring_of s' e)
    \<and> ring_groups (ring_of s' e) = spec_free k (ring_groups (ring_of s e))
    \<and> PreCnt (ring_of s' e) = PreCnt (ring_of s e)
    \<and> SWrate s' = (SWrate s)(e := SWrate s e + sum_sizes (hw s) (ring_of s e) (gpost (ring_groups (ring_of s e))))
    \<and> done_core e s s' \<and> served s' e \<and> pool_ok s' \<and> gave e k s s'"
proof -
  let ?R = "ring_of s e" and ?n = "ring_n (ring_of s e)" and ?pd = "privData (user (Dma s e))"
  obtain pp P m where b: "dq_pool s = (Some pp, s\<lparr>pool := P, hw := m\<rparr>)" "borrowed pp (s\<lparr>pool := P, hw := m\<rparr>)"
    "moves 0 (hw s) m" "pktArray P = pktArray (pool s)" "mem m = mem (hw s)" using borrow[OF po] by blast
  define s1 where "s1 = s\<lparr>pool := P, hw := m\<rparr>"
  have la: "length (pool_arr s1 pp) = DMA_BD_CNT" using b(2) by (auto simp: s1_def borrowed_def)
  define j where "j = post_idx ?R"
  have g: "geom ?R" and at: "ring_at ?R j" and jn: "j < ?n" using ring_invD[OF inv] by (simp_all add: j_def)
  have ptr': "BdPtr = bd_addr ?R (j mod ?n)" using at ptr jn by (simp add: ring_at_def)
  have kn: "k \<le> ?n" using ring_invD(4)[OF inv] k(1) by simp
  obtain pkts rate m3 where dr: "drain_loop k ?R BdPtr 0 (pool_arr s1 pp) (SWrate s e) m = (pkts, rate, m3)"
    by (metis prod_cases3)
  have "0 + k \<le> length (pool_arr s1 pp)" using k(2) la by simp
  note D = drain_loop_spec[OF g kn this dr[unfolded ptr']]
  have gp: "gpost (ring_groups ?R) = cyc ?n j k" by (simp add: ring_groups_def Let_def j_def k(1))
  have tk: "take k pkts = map (\<lambda>i. done_pkt (hw s) (bd_addr ?R i)) (gpost (ring_groups ?R))"
    using D by (simp add: gp pkt_mem(1)[OF b(5)])
  have lp: "length pkts = length (pool_arr s1 pp)" using D k(2) la by simp
  have rt: "rate = SWrate s e + sum_sizes (hw s) ?R (gpost (ring_groups ?R))"
    using D by (simp add: gp sum_sizes_def pkt_mem(1)[OF b(5)])
  define s2 where "s2 = (set_pool_arr pp pkts s1)\<lparr>SWrate := (SWrate s1)(e := rate), hw := m3\<rparr>"
  have b2: "borrowed pp s2"
    by (rule borrowed_same[OF _ b(2)]) (simp add: pool_same_def s2_def s1_def[symmetric] set_pool_arr_def pool_arr_def lp[unfolded pool_arr_def])
  have kk: "k < 2 ^ 32" using k(1) unat_lt32[of "PostCnt ?R"] by linarith
  then have uk: "unat (of_nat k :: u32) = k" by simp
  have "(of_nat k :: u32) \<le> PostCnt ?R" using k(1) uk by (simp add: word_le_nat_alt)
  from free_refines[OF inv this ptr[symmetric], of m3] obtain R' m4 where fr:
    "Dma_BdRingFree ?R (of_nat k) BdPtr m3 = (XST_SUCCESS, R', m4)" "ring_inv R'"
    "ring_groups R' = spec_free k (ring_groups ?R)" by (auto simp: uk)
  have R': "IsRxChannel R' = IsRxChannel ?R" "PreCnt R' = PreCnt ?R" "AllCnt R' = AllCnt ?R"
    using fr(1) by (auto simp: Dma_BdRingFree_def Let_def split: if_splits)
  have mv4: "moves (- int k) (hw s) m4"
    using moves_trans0[OF b(3)] D moves_trans[OF _ Free_moves[OF fr(1)], of "- int k" m] by simp
  define s4 where "s4 = on_hw (spin_unlock DmaLock) (set_ring e R' (s2\<lparr>hw := m4\<rparr>))"
  obtain r u m5 where pu: "put e (pool_arr s4 pp) (int k) ?pd (usr s, hw s4) = (r, u, m5)" by (metis prod_cases3)
  have pa: "pool_arr s4 pp = pkts" by (simp add: s4_def s2_def pool_arr_def set_pool_arr_def)
  have up: "UserPutPkt (user (Dma s e)) = Some put" "uinv (usr s)" using sv by (simp_all add: served_def)
  note q = put_quiet[OF up(2) pu]
  define s5 where "s5 = s4\<lparr>usr := u, hw := m5\<rparr>"
  have d4: "Dma s4 = (Dma s)(e := (Dma s e)\<lparr>BdRing := R'\<rparr>)" "usr s4 = usr s" "pool s4 = pool s2" "SWrate s4 = SWrate s2"
    "static s4 = static s" "hw s4 = spin_unlock DmaLock m4"
    by (simp_all add: s4_def s2_def s1_def set_pool_arr_def set_ring_def set_eng_def on_hw_def)
  have c5: "call_UserPutPkt e (pool_arr s4 pp) (int k) s4 = s5"
    using pu up by (simp add: call_UserPutPkt_def d4 s5_def)
  have "borrowed pp s5" using b2 borrowed_pool[of s5 s2] by (simp add: s5_def d4)
  then obtain P' m6 where e6: "eq_pool pp s5 = s5\<lparr>pool := P', hw := m6\<rparr>" "pool_ok (s5\<lparr>pool := P', hw := m6\<rparr>)" "moves 0 m5 m6"
    using give_back[of pp s5] by (auto simp: s5_def)
  define s' where "s' = on_hw (spin_lock DmaLock) (s5\<lparr>pool := P', hw := m6\<rparr>)"
  have s': "Dma s' = Dma s4" "usr s' = u" "pool s' = P'" "hw s' = spin_lock DmaLock m6" "SWrate s' = SWrate s2" "static s' = static s"
    by (simp_all add: s'_def s5_def d4) (simp_all add: on_hw_def d4)
  have dr1: "drain_loop k ?R BdPtr 0 (pool_arr s1 pp) (SWrate s1 e) (hw s1) = (pkts, rate, m3)"
    using dr by (simp add: s1_def ring_of_def)
  have h2: "hw s2 = m3" "ring_of s1 e = ?R" by (simp_all add: s2_def) (simp add: s1_def ring_of_def)
  have run: "handle_done e k BdPtr s = (True, s')"
    unfolding handle_done_def Let_def b(1) s1_def[symmetric]
    by (simp only: prod.case option.case dr1 s2_def[symmetric] h2 fr(1) s4_def[symmetric] c5 e6(1) s'_def[symmetric]
        simp_thms if_False)
  have ring': "ring_of s' e = R'" by (simp add: ring_of_def s' d4)
  have "moves (- int k) (hw s) (hw s')"
  proof -
    have "moves 0 (hw s4) m6" using moves_trans0[OF _ e6(3)] q by simp
    then have "moves 0 m4 (spin_lock DmaLock m6)" by (simp add: moves_def d4)
    then show ?thesis using moves_trans[OF mv4, of 0] by (simp add: s')
  qed
  moreover have "lock_depth l (evs (hw s4)) = lock_depth l (evs (hw s)) - of_bool (l = DmaLock)" for l
    using mv4 by (auto simp: d4 moves_def)
  moreover have "served s' e" using sv q R'(1) by (simp add: served_def ring') (simp add: s' d4)
  moreover have "pool_ok s'" using e6(2) pool_ok_pool[of s' "s5\<lparr>pool := P', hw := m6\<rparr>"] by (simp add: s')
  moreover have "done_core e s s'" unfolding done_core_def ring' by (simp add: s' d4 R' ring_n_def)
  moreover have "SWrate s' = (SWrate s)(e := SWrate s e + sum_sizes (hw s) ?R (gpost (ring_groups ?R)))"
    by (simp add: s' s2_def rt) (simp add: s1_def set_pool_arr_def)
  moreover have "usr s' = u" by (rule s'(2))
  moreover have "gave e k s s'" using put_held[OF up(2) pu] put_bound[OF up(2) pu] by (simp add: gave_def s')
  ultimately show ?thesis using run tk pu[unfolded pa] fr(2,3) R'(2) unfolding ring'
    by (intro exI[of _ pkts] exI[of _ r] exI[of _ "hw s4"] exI[of _ m5] exI[of _ s']) (simp add: ring')
qed

end

section \<open>The handler as a whole\<close>

text \<open>
  An engine between two calls of the driver: nothing allocated or completed is waiting. The
  bound on the ring is what \<open>descriptor_init\<close> asks for.
\<close>

definition idle :: "'u drv \<Rightarrow> nat \<Rightarrow> bool" where
  "idle s e \<longleftrightarrow> ring_inv (ring_of s e) \<and> PreCnt (ring_of s e) = 0 \<and> PostCnt (ring_of s e) = 0
     \<and> ring_n (ring_of s e) \<le> DMA_BD_CNT + 2"

lemma hw_complete_prefix: "hw_complete R m l = take (length (hw_complete R m l)) (ghw (ring_groups R))"
proof -
  have "hw_ready R m l = take (length (hw_ready R m l)) (ghw (ring_groups R))"
    unfolding hw_ready_def by (metis length_take length_takeWhile_le min.absorb2 min.bounded_iff take_take takeWhile_eq_take)
  then show ?thesis unfolding hw_complete_def
    by (metis trim_take take_take length_take min.cobounded2 length_trim le_add1 min.absorb2 min.commute)
qed

lemma fromhw_free:
  "gpost G = [] \<Longrightarrow> gpre G = [] \<Longrightarrow> take k (ghw G) = c \<Longrightarrow> k = length c \<Longrightarrow>
   spec_free k (spec_fromhw k G) = \<lparr>gpost = [], ghw = drop k (ghw G), gpre = [], gfree = gfree G @ c\<rparr>"
  by (cases G) (auto simp: spec_defs)

lemma from_idle:
  assumes "idle s e"
  defines "c \<equiv> hw_complete (ring_of s e) (hw s) DMA_BD_CNT"
  shows "\<exists>R'. Dma_BdRingFromHw (ring_of s e) (of_nat DMA_BD_CNT) (spin_lock l (hw s)) =
       (of_nat (length c), R', if c = [] then 0 else PostHead R')
    \<and> ring_inv R' \<and> ring_groups R' = spec_fromhw (length c) (ring_groups (ring_of s e))
    \<and> gpost (ring_groups R') = c \<and> unat (PostCnt R') = length c \<and> length c \<le> DMA_BD_CNT \<and> PreCnt R' = 0
    \<and> IsRxChannel R' = IsRxChannel (ring_of s e) \<and> ring_n R' = ring_n (ring_of s e) \<and> bd_addr R' = bd_addr (ring_of s e)"
proof -
  let ?R = "ring_of s e"
  have inv: "ring_inv ?R" and z: "PreCnt ?R = 0" "PostCnt ?R = 0" using assms(1) by (simp_all add: idle_def)
  have u: "unat (of_nat DMA_BD_CNT :: u32) = DMA_BD_CNT" by (intro unat_of_nat32) (simp add: hwc)
  have c: "hw_complete ?R (spin_lock l (hw s)) DMA_BD_CNT = c" unfolding c_def by (rule complete_mem) simp
  obtain R' where r: "Dma_BdRingFromHw ?R (of_nat DMA_BD_CNT) (spin_lock l (hw s)) = (of_nat (length c), R', if c = [] then 0 else HwHead ?R)"
    "ring_inv R'" "ring_groups R' = spec_fromhw (length c) (ring_groups ?R)"
    "R' = ?R\<lparr>HwHead := HwHead R', HwCnt := HwCnt R', PostCnt := PostCnt R', BDerrs := BDerrs R', BDSerrs := BDSerrs R'\<rparr>"
    using fromhw_refines[OF inv, of "of_nat DMA_BD_CNT" "spin_lock l (hw s)"] unfolding u c by blast
  have f: "PostHead R' = PostHead ?R" "PreCnt R' = PreCnt ?R" "IsRxChannel R' = IsRxChannel ?R" "AllCnt R' = AllCnt ?R"
    "FirstBdAddr R' = FirstBdAddr ?R" "Separation R' = Separation ?R"
    by (subst r(4), simp)+
  have "HwHead ?R = PostHead ?R" using ring_invD(2,3)[OF inv] z by (simp add: ring_at_def)
  moreover have gp: "gpost (ring_groups R') = c"
  proof -
    have "gpost (ring_groups ?R) = []" using group_lengths(1)[of ?R] z by (simp del: group_lengths)
    then have "gpost (ring_groups R') = take (length c) (ghw (ring_groups ?R))" by (simp add: r(3) spec_fromhw_def)
    then show ?thesis unfolding c_def by (metis hw_complete_prefix)
  qed
  moreover have "unat (PostCnt R') = length c" using gp group_lengths(1)[of R'] by simp
  moreover have "length c \<le> DMA_BD_CNT" using hw_complete_le[of ?R "hw s" DMA_BD_CNT] by (simp add: c_def)
  ultimately show ?thesis using r(1-3) f z by (auto simp: ring_n_def bd_addr_def fun_eq_iff)
qed

text \<open>Sending on an idle engine: it stays idle, and two descriptors stay free.\<close>

definition sent :: "'u drv \<Rightarrow> nat \<Rightarrow> PktBuf list \<Rightarrow> int \<Rightarrow> nat" where
  "sent s e ps n = (if n \<le> 0 \<or> FreeCnt (ring_of s e) \<le> 2 then 0 else send_count (send_window (ring_of s e) ps n))"

lemma sent_le:
  "sent s e ps n \<le> unat (FreeCnt (ring_of s e)) - 2" "sent s e ps n \<le> nat n"
  using send_count_le[of "send_window (ring_of s e) ps n"] by (auto simp: sent_def send_window_def)

lemma idle_groups:
  "idle s e \<Longrightarrow> gpost (ring_groups (ring_of s e)) = []" "idle s e \<Longrightarrow> gpre (ring_groups (ring_of s e)) = []"
  using group_lengths(1,3)[of "ring_of s e"] by (simp_all add: idle_def del: group_lengths)

lemma idle_by_groups:
  assumes "ring_inv (ring_of s e)" "gpost (ring_groups (ring_of s e)) = []" "gpre (ring_groups (ring_of s e)) = []"
    "ring_n (ring_of s e) \<le> DMA_BD_CNT + 2"
  shows "idle s e"
  using assms group_lengths(1,3)[of "ring_of s e"] by (simp add: idle_def unat_eq_zero)

lemma send_idle:
  assumes idl: "idle s e" and st: "DriverState s = INITIALIZED" "EngineState (Dma s e) = USER_ASSIGNED" "IsRxChannel (ring_of s e) = 0"
    and np: "nat n \<le> length ps"
  defines "k \<equiv> sent s e ps n" and "G \<equiv> ring_groups (ring_of s e)"
  shows "\<exists>s'. DmaSendPkt (Some e) ps n s = (int k, s') \<and> idle s' e \<and> done_core e s s' \<and> moves (int k) (hw s) (hw s')
    \<and> ring_groups (ring_of s' e) = G\<lparr>ghw := ghw G @ take k (gfree G), gfree := drop k (gfree G)\<rparr>
    \<and> usr s' = usr s \<and> pool s' = pool s \<and> aux s' = aux s \<and> EngType (Dma s' e) = EngType (Dma s e)"
proof -
  have nn: "ring_n (ring_of s e) < 2 ^ 31" using idl by (simp add: idle_def hwc)
  have rdy: "engine_ready s e" using idl st nn by (simp add: engine_ready_def idle_def)
  note fr = send_static[of "Some e" ps n s]
  consider (none) "n \<le> 0" | (full) "0 < n" "FreeCnt (ring_of s e) \<le> 2" | (ok) "0 < n" "2 < FreeCnt (ring_of s e)" by fastforce
  then show ?thesis
  proof cases
    case none
    then have "DmaSendPkt (Some e) ps n s = (0, s)" by (intro send_refused_noop) (simp add: send_refused_def)
    then show ?thesis using idl none by (simp add: k_def sent_def G_def done_core_def)
  next
    case full
    from send_full[OF rdy st(3) full] obtain s' where s': "DmaSendPkt (Some e) ps n s = (0, s')" "Dma s' = Dma s" "moves 0 (hw s) (hw s')" by blast
    have "ring_of s' e = ring_of s e" using s'(2) by (simp add: ring_of_def)
    then show ?thesis using s' full idl fr by (simp add: k_def sent_def G_def done_core_def idle_def)
  next
    case ok
    then have k: "k = send_count (send_window (ring_of s e) ps n)" by (auto simp: k_def sent_def not_le[symmetric])
    from send_ready[OF rdy st(3) ok(1) np ok(2)] obtain s' where s': "DmaSendPkt (Some e) ps n s = (int k, s')" "ring_inv (ring_of s' e)"
      "ring_groups (ring_of s' e) = G\<lparr>ghw := ghw G @ take k (gfree G), gfree := drop k (gfree G)\<rparr>"
      "moves (int k) (hw s) (hw s')" "\<forall>i. i \<noteq> e \<longrightarrow> Dma s' i = Dma s i"
      "\<exists>R ic. Dma s' e = (Dma s e)\<lparr>BdRing := R, intrCount := ic\<rparr>" unfolding k G_def Let_def by blast
    have rx: "IsRxChannel (ring_of s' e) = IsRxChannel (ring_of s e)" using send_rx[of "Some e" ps n s e] s'(1) by simp
    have "length (all_bds (ring_groups (ring_of s' e))) = length (all_bds G)"
      unfolding s'(3) all_bds_def by simp
    then have rn: "ring_n (ring_of s' e) = ring_n (ring_of s e)"
      using groups_ring_n[OF _ s'(2), of "ring_of s e"] idl by (simp add: G_def idle_def)
    have "idle s' e" using s'(2,3) idle_groups[OF idl] idl rn by (intro idle_by_groups) (simp_all add: G_def idle_def)
    then show ?thesis using s' rx rn fr by (auto simp: done_core_def)
  qed
qed

context user_driver begin

lemma pkt_handler:
  assumes sv: "served s e" and idl: "idle s e" and po: "pool_ok s"
  defines "R \<equiv> ring_of s e" and "c \<equiv> hw_complete (ring_of s e) (hw s) DMA_BD_CNT"
    and "F \<equiv> gfree (ring_groups (ring_of s e)) @ hw_complete (ring_of s e) (hw s) DMA_BD_CNT"
  shows "\<exists>k s'. PktHandler e s = s'
    \<and> (c \<noteq> [] \<longrightarrow> (\<exists>arr r m1 u m2. put e arr (int (length c)) (privData (user (Dma s e))) (usr s, m1) = (r, u, m2)
         \<and> take (length c) arr = map (\<lambda>i. done_pkt (hw s) (bd_addr R i)) c
         \<and> (\<forall>l. lock_depth l (evs m1) = lock_depth l (evs (hw s)))))
    \<and> ring_groups (ring_of s' e) = \<lparr>gpost = [], ghw = drop (length c) (ghw (ring_groups R)) @ take k F, gpre = [], gfree = drop k F\<rparr>
    \<and> (if IsRxChannel R = 0 then k = 0 else k \<le> length F - 2)
    \<and> moves (int k - int (length c)) (hw s) (hw s')
    \<and> idle s' e \<and> served s' e \<and> pool_ok s' \<and> done_core e s s'
    \<and> (\<exists>t. gave e (length c) s t \<and> got k t s')
    \<and> (IsRxChannel R \<noteq> 0 \<longrightarrow> k = length F - 2 \<or> dry e (usr s'))"
proof -
  let ?G = "ring_groups R"
  obtain R1 where f: "Dma_BdRingFromHw R (of_nat DMA_BD_CNT) (spin_lock DmaLock (hw s)) =
       (of_nat (length c), R1, if c = [] then 0 else PostHead R1)" "ring_inv R1" "ring_groups R1 = spec_fromhw (length c) ?G"
    "gpost (ring_groups R1) = c" "unat (PostCnt R1) = length c" "length c \<le> DMA_BD_CNT" "PreCnt R1 = 0"
    "IsRxChannel R1 = IsRxChannel R" "ring_n R1 = ring_n R" "bd_addr R1 = bd_addr R"
    using from_idle[OF idl, of DmaLock] unfolding R_def c_def by blast
  have "length c < 2 ^ 32" using f(6) by (simp add: hwc)
  then have uc: "unat (of_nat (length c) :: u32) = length c" "(of_nat (length c) :: u32) > 0 \<longleftrightarrow> c \<noteq> []"
    by (simp_all add: word_less_nat_alt)
  define s1 where "s1 = set_ring e R1 (on_hw (spin_lock DmaLock) s)"
  have s1: "ring_of s1 e = R1" "usr s1 = usr s" "hw s1 = spin_lock DmaLock (hw s)" "pool s1 = pool s"
    "Dma s1 = (Dma s)(e := (Dma s e)\<lparr>BdRing := R1\<rparr>)" "static s1 = static s"
    by (simp_all add: s1_def ring_of_def)
  have sv1: "served s1 e" using sv f(8) by (simp add: served_def s1 R_def)
  have po1: "pool_ok s1" using po pool_ok_pool[of s1 s] by (simp add: s1)
  have dc1: "done_core e s s1" using f(8,9) unfolding done_core_def s1(1) by (simp add: s1 R_def)
  have mem1: "done_pkt (hw s1) = done_pkt (hw s)" using pkt_mem(1)[of "hw s1" "hw s"] by (auto simp: s1)
  have P: "gpost ?G = []" "gpre ?G = []" using idl group_lengths(1,3)[of R] by (simp_all add: idle_def R_def del: group_lengths)
  define s2 where "s2 = (if c = [] then s1 else snd (handle_done e (length c) (PostHead R1) s1))"
  have mid: "(if (of_nat (length c) :: u32) > 0 then handle_done e (unat (of_nat (length c) :: u32)) (if c = [] then 0 else PostHead R1) s1
        else (True, s1)) = (True, s2)
    \<and> (c \<noteq> [] \<longrightarrow> (\<exists>arr r m1 u m2. put e arr (int (length c)) (privData (user (Dma s e))) (usr s, m1) = (r, u, m2)
         \<and> take (length c) arr = map (\<lambda>i. done_pkt (hw s) (bd_addr R i)) c
         \<and> (\<forall>l. lock_depth l (evs m1) = lock_depth l (evs (hw s)))))
    \<and> ring_inv (ring_of s2 e) \<and> PreCnt (ring_of s2 e) = 0 \<and> moves (- int (length c)) (hw s1) (hw s2)
    \<and> ring_groups (ring_of s2 e) = spec_free (length c) (ring_groups R1) \<and> done_core e s1 s2 \<and> served s2 e \<and> pool_ok s2
    \<and> gave e (length c) s s2"
  proof (cases "c = []")
    case True
    have "gave e 0 s s1" using got_same(4)[of s1 s] s1(2) by simp
    then show ?thesis using True f(2,7) sv1 po1 by (simp add: s2_def s1(1) spec_free_def done_core_def)
  next
    case False
    have "unat (PostCnt (ring_of s1 e)) = length c" "PostHead R1 = PostHead (ring_of s1 e)" using f(5) by (simp_all add: s1)
    from handle_done_spec[OF sv1 _ this(1) f(6) this(2) po1] obtain arr r m1 m2 s' where h:
      "handle_done e (length c) (PostHead R1) s1 = (True, s')"
      "take (length c) arr = map (\<lambda>i. done_pkt (hw s1) (bd_addr R1 i)) (gpost (ring_groups R1))"
      "put e arr (int (length c)) (privData (user (Dma s1 e))) (usr s1, m1) = (r, usr s', m2)"
      "\<forall>l. lock_depth l (evs m1) = lock_depth l (evs (hw s1)) - of_bool (l = DmaLock)"
      "moves (- int (length c)) (hw s1) (hw s')" "ring_inv (ring_of s' e)"
      "ring_groups (ring_of s' e) = spec_free (length c) (ring_groups R1)" "PreCnt (ring_of s' e) = PreCnt R1"
      "done_core e s1 s'" "served s' e" "pool_ok s'" "gave e (length c) s1 s'"
      using f(2) unfolding s1(1) by blast
    have gv: "gave e (length c) s s'" using h(12) got_same(3)[of s1 s] s1(2) by simp
    have "put e arr (int (length c)) (privData (user (Dma s e))) (usr s, m1) = (r, usr s', m2)" using h(3) by (simp add: s1)
    moreover have "\<forall>l. lock_depth l (evs m1) = lock_depth l (evs (hw s))" using h(4) by (simp add: s1)
    moreover have "take (length c) arr = map (\<lambda>i. done_pkt (hw s) (bd_addr R i)) c" using h(2) by (simp only: mem1 f(4,10))
    ultimately have "\<exists>arr r m1 u m2. put e arr (int (length c)) (privData (user (Dma s e))) (usr s, m1) = (r, u, m2)
         \<and> take (length c) arr = map (\<lambda>i. done_pkt (hw s) (bd_addr R i)) c
         \<and> (\<forall>l. lock_depth l (evs m1) = lock_depth l (evs (hw s)))" by blast
    moreover have "s2 = s'" using h(1) False by (simp add: s2_def)
    ultimately show ?thesis using h(1,5-11) f(7) False gv by (simp add: uc)
  qed
  note M = mid[THEN conjunct2]
  have G2: "ring_groups (ring_of s2 e) = \<lparr>gpost = [], ghw = drop (length c) (ghw ?G), gpre = [], gfree = F\<rparr>"
  proof -
    have "take (length c) (ghw ?G) = c" using f(4) P(1) unfolding f(3) by (simp add: spec_fromhw_def)
    from fromhw_free[OF P this refl]
    have "spec_free (length c) (ring_groups R1) = \<lparr>gpost = [], ghw = drop (length c) (ghw ?G), gpre = [], gfree = gfree ?G @ c\<rparr>"
      unfolding f(3) .
    moreover have "F = gfree ?G @ c" by (simp only: F_def c_def R_def)
    moreover have "ring_groups (ring_of s2 e) = spec_free (length c) (ring_groups R1)" using M by blast
    ultimately show ?thesis by presburger
  qed
  have run: "PktHandler e s = on_hw (spin_unlock DmaLock) (if IsRxChannel (ring_of s2 e) \<noteq> 0 then DmaSetupRecvBuffers e s2 else s2)"
  proof -
    have r0: "ring_of (on_hw (spin_lock DmaLock) s) e = R" "hw (on_hw (spin_lock DmaLock) s) = spin_lock DmaLock (hw s)"
      by (simp_all add: R_def ring_of_def)
    show ?thesis unfolding PktHandler_def Let_def
      by (simp only: r0 f(1) prod.case s1_def[symmetric] mid[THEN conjunct1] if_True)
  qed
  have m2: "ring_inv (ring_of s2 e)" "PreCnt (ring_of s2 e) = 0" "moves (- int (length c)) (hw s1) (hw s2)"
    "served s2 e" "pool_ok s2" and del: "c \<noteq> [] \<longrightarrow> (\<exists>arr r m1 u m2. put e arr (int (length c)) (privData (user (Dma s e))) (usr s, m1) = (r, u, m2)
         \<and> take (length c) arr = map (\<lambda>i. done_pkt (hw s) (bd_addr R i)) c
         \<and> (\<forall>l. lock_depth l (evs m1) = lock_depth l (evs (hw s))))"
    and dc2: "done_core e s s2" and gv2: "gave e (length c) s s2" using M done_core_trans[OF dc1] by blast+
  have rx2: "IsRxChannel (ring_of s2 e) = IsRxChannel R" "ring_n (ring_of s2 e) = ring_n R"
    using dc2 by (simp_all add: done_core_def R_def)
  have nl: "ring_n R \<le> DMA_BD_CNT + 2" using idl by (simp add: idle_def R_def)
  define s3 where "s3 = (if IsRxChannel R \<noteq> 0 then DmaSetupRecvBuffers e s2 else s2)"
  have "\<exists>k. (if IsRxChannel R = 0 then k = 0 else k \<le> length F - 2) \<and> rx_core k e s2 s3 \<and> served s3 e \<and> pool_ok s3 \<and> got k s2 s3
      \<and> ring_inv (ring_of s3 e) \<and> PreCnt (ring_of s3 e) = 0 \<and> IsRxChannel (ring_of s3 e) = IsRxChannel R \<and> ring_n (ring_of s3 e) = ring_n R
      \<and> (IsRxChannel R \<noteq> 0 \<longrightarrow> k = length F - 2 \<or> dry e (usr s3))"
  proof (cases "IsRxChannel R = 0")
    case True
    then show ?thesis using m2 rx2 by (intro exI[of _ 0]) (simp add: s3_def rx_core_def)
  next
    case False
    have "ring_n R < 2 ^ 31" using nl by (simp add: hwc)
    then have "rx_ready s2 e" using m2 rx2 False by (simp add: rx_ready_def)
    from setup_recv[OF m2(4) this m2(5)] nl rx2 obtain k where k: "k \<le> unat (FreeCnt (ring_of s2 e)) - 2"
      "rx_core k e s2 (DmaSetupRecvBuffers e s2)" "served (DmaSetupRecvBuffers e s2) e"
      "rx_ready (DmaSetupRecvBuffers e s2) e" "pool_ok (DmaSetupRecvBuffers e s2)" "got k s2 (DmaSetupRecvBuffers e s2)"
      "IsRxChannel (ring_of (DmaSetupRecvBuffers e s2) e) = IsRxChannel (ring_of s2 e)"
      "ring_n (ring_of (DmaSetupRecvBuffers e s2) e) = ring_n (ring_of s2 e)"
      "k = unat (FreeCnt (ring_of s2 e)) - 2 \<or> dry e (usr (DmaSetupRecvBuffers e s2))"
      by (auto simp: rx_core_def)
    have "unat (FreeCnt (ring_of s2 e)) = length F" using group_lengths(4)[of "ring_of s2 e"] G2 by simp
    then show ?thesis using k False rx2 by (intro exI[of _ k]) (simp add: s3_def rx_ready_def)
  qed
  then obtain k where k: "if IsRxChannel R = 0 then k = 0 else k \<le> length F - 2" "rx_core k e s2 s3" "served s3 e" "pool_ok s3" "got k s2 s3"
    "ring_inv (ring_of s3 e)" "PreCnt (ring_of s3 e) = 0" "IsRxChannel (ring_of s3 e) = IsRxChannel R" "ring_n (ring_of s3 e) = ring_n R"
    "IsRxChannel R \<noteq> 0 \<longrightarrow> k = length F - 2 \<or> dry e (usr s3)"
    by blast
  define s' where "s' = on_hw (spin_unlock DmaLock) s3"
  have run': "PktHandler e s = s'" using run by (simp add: s'_def s3_def rx2)
  have s': "Dma s' = Dma s3" "usr s' = usr s3" "pool s' = pool s3" "hw s' = spin_unlock DmaLock (hw s3)" "ring_of s' e = ring_of s3 e"
    "static s' = static s3"
    by (simp_all add: s'_def ring_of_def)
  have G3: "ring_groups (ring_of s' e) = \<lparr>gpost = [], ghw = drop (length c) (ghw ?G) @ take k F, gpre = [], gfree = drop k F\<rparr>"
    using k(2) G2 by (simp add: rx_core_def s')
  have "moves (- int (length c) + int k) (spin_lock DmaLock (hw s)) (hw s3)"
    using moves_trans[of "- int (length c)" "hw s1" "hw s2" "int k" "hw s3"] m2(3) k(2) by (simp add: rx_core_def s1)
  then have "moves (int k - int (length c)) (hw s) (hw s')" using moves_locked by (simp add: s')
  moreover have "PostCnt (ring_of s' e) = 0" using group_lengths(1)[of "ring_of s' e"] G3 by (simp add: unat_eq_zero)
  then have "idle s' e" using k nl by (simp add: idle_def s')
  moreover have "served s' e" using k(3) by (simp add: served_def s')
  moreover have "pool_ok s'" using k(4) pool_ok_pool[of s' s3] by (simp add: s')
  moreover have "done_core e s s'"
  proof -
    have "done_core e s2 s'" using k(2,8,9) rx2 by (simp add: done_core_def rx_core_def s' R_def)
    with dc2 show ?thesis by (rule done_core_trans)
  qed
  moreover have "got k s2 s'" using k(5) got_same(2)[of s' s3] s'(2) by simp
  moreover have "IsRxChannel R \<noteq> 0 \<longrightarrow> k = length F - 2 \<or> dry e (usr s')" using k(10) by (simp only: s'(2))
  ultimately show ?thesis using run' del G3 k(1) gv2 by blast
qed

end

end
