(* ===== verification/RingLife.thy ===== *)
theory RingLife
  imports DoneSpec
begin

text \<open>
  The life of an engine's descriptor ring in \<open>fc1553_dma/xdma/xdma_base.c\<close>: what \<open>descriptor_init\<close>
  builds, and that \<open>descriptor_free\<close> gives everything back (every queued buffer to the
  application driver, the descriptor area to the kernel).
\<close>

section \<open>Building a ring\<close>

definition DFTSIZE :: u32 where
  "DFTSIZE = 4 * DMA_BD_SW_NUM_WORDS * (of_nat DMA_BD_CNT + 1)"

lemma DFTSIZE_val: "DFTSIZE = 256000"
  by (simp add: DFTSIZE_def hwc)

lemma init_fails: "pci_alloc s (evs (hw s)) DFTSIZE = None \<Longrightarrow> descriptor_init e s = (- 1, s)"
  by (simp add: descriptor_init_def DFTSIZE_def Let_def)

lemma create_links_moves: "create_links k sep v p m = (v', m') \<Longrightarrow> moves 0 m m'"
proof (induction k arbitrary: v p m)
  case (Suc k)
  then show ?case using moves_trans0[OF moves_write(1)] by (metis create_links.simps(2))
qed simp

text \<open>Creation takes no lock, maps nothing, and leaves the channel's identity alone.\<close>

lemma create_frame:
  assumes "Dma_BdRingCreate R P V A C m = (XST_SUCCESS, R', m')"
  shows "moves 0 m m' \<and> IsRxChannel R' = IsRxChannel R \<and> ChanBase R' = ChanBase R"
proof -
  define sep where "sep = (4 * DMA_BD_SW_NUM_WORDS + (A - 1)) AND NOT (A - 1)"
  obtain v m1 where l: "create_links (unat C - 1) sep V (P + sep) (mem_clear V (sep * C) m) = (v, m1)" by (metis surj_pair)
  have "m' = Dma_mBdWrite v DMA_BD_NDESC_OFFSET P m1 \<and> IsRxChannel R' = IsRxChannel R \<and> ChanBase R' = ChanBase R"
    using assms l by (auto simp: Dma_BdRingCreate_def ring_clear_counts_def Let_def sep_def hwc split: if_splits)
  then show ?thesis using moves_trans0[OF moves_write(12) moves_trans0[OF create_links_moves[OF l] moves_write(1)]] by blast
qed

lemma descriptor_init_ring:
  assumes al: "pci_alloc s (evs (hw s)) DFTSIZE = Some (va, pa)" and va: "va \<noteq> 0" "va mod 64 = 0" "pa mod 64 = 0"
    and fit: "unat va + 256000 \<le> 2 ^ 32"
  shows "\<exists>s1. descriptor_init e s = (0, if EngType (Dma s e) AND DMA_ENG_DIRECTION_MASK = DMA_ENG_C2S
        then DmaSetupRecvBuffers e s1 else s1)
    \<and> idle s1 e \<and> ring_groups (ring_of s1 e) = \<lparr>gpost = [], ghw = [], gpre = [], gfree = [0..<4000]\<rparr>
    \<and> linked (ring_of s1 e) (hw s1) \<and> FirstBdAddr (ring_of s1 e) = va \<and> FirstBdPhysAddr (ring_of s1 e) = pa
    \<and> RunState (ring_of s1 e) = XST_DMA_SG_IS_STOPPED
    \<and> Dma s1 e = (Dma s e)\<lparr>descSpacePA := pa, descSpaceVA := va, descSpaceSize := DFTSIZE, delta := 0, BdRing := ring_of s1 e\<rparr>
    \<and> (\<forall>i. i \<noteq> e \<longrightarrow> Dma s1 i = Dma s i) \<and> pool s1 = pool s \<and> usr s1 = usr s \<and> static s1 = static s
    \<and> moves 0 (hw s) (hw s1) \<and> IsRxChannel (ring_of s1 e) = IsRxChannel (ring_of s e) \<and> ChanBase (ring_of s1 e) = ChanBase (ring_of s e)"
proof -
  have "Dma_BdRingAlign va DFTSIZE DMA_BD_MINIMUM_ALIGNMENT 0 = (DFTSIZE div 64, 0)"
    by (rule align_aligned) (use va in \<open>simp_all add: DFTSIZE_val hwc\<close>)
  then have a: "Dma_BdRingAlign va DFTSIZE DMA_BD_MINIMUM_ALIGNMENT 0 = (4000, 0)" by (simp add: DFTSIZE_val)
  have par: "create_params_ok pa va DMA_BD_MINIMUM_ALIGNMENT 4000" using va by (simp add: create_params_ok_def hwc)
  define m where "m = log_ev (AllocMem DFTSIZE va pa) (hw s)"
  have "unat va + unat DMA_BD_MINIMUM_ALIGNMENT * unat (4000 :: u32) \<le> 2 ^ 32" using fit by (simp add: hwc)
  from create_succeeds[OF par this, of "BdRing (Dma s e)" m] obtain R' m' where c:
    "Dma_BdRingCreate (BdRing (Dma s e)) pa va DMA_BD_MINIMUM_ALIGNMENT 4000 m = (XST_SUCCESS, R', m')" "ring_inv R'"
    "ring_groups R' = \<lparr>gpost = [], ghw = [], gpre = [], gfree = [0..<4000]\<rparr>" "RunState R' = XST_DMA_SG_IS_STOPPED" "linked R' m'"
    "FirstBdAddr R' = va" "FirstBdPhysAddr R' = pa" "AllCnt R' = 4000"
    by (auto simp: hwc)
  define E where "E = (Dma s e)\<lparr>descSpacePA := pa, descSpaceVA := va, descSpaceSize := DFTSIZE, delta := 0\<rparr>"
  define s1 where "s1 = set_ring e R' ((set_eng e E (on_hw (log_ev (AllocMem DFTSIZE va pa)) s))\<lparr>hw := m'\<rparr>)"
  have s1: "ring_of s1 e = R'" "hw s1 = m'" "Dma s1 e = E\<lparr>BdRing := R'\<rparr>" by (simp_all add: s1_def ring_of_def)
  have "idle s1 e"
  proof -
    have "PreCnt R' = 0" "PostCnt R' = 0" using group_lengths(1,3)[of R'] unfolding c(3) by (simp_all add: unat_eq_zero)
    then show ?thesis using c(2,8) by (simp add: idle_def s1 ring_n_def hwc)
  qed
  moreover have "descriptor_init e s = (0, if EngType (Dma s e) AND DMA_ENG_DIRECTION_MASK = DMA_ENG_C2S
        then DmaSetupRecvBuffers e s1 else s1)"
    using al a c(1) va(1) by (simp add: descriptor_init_def Let_def DFTSIZE_def[symmetric] E_def s1_def m_def)
  moreover have "moves 0 (hw s) m'" using create_frame[OF c(1)] by (simp add: m_def moves_def)
  ultimately show ?thesis using c create_frame[OF c(1)]
    by (intro exI[of _ s1]) (simp add: s1, simp add: s1_def E_def set_ring_def set_eng_def on_hw_def ring_of_def)
qed

text \<open>
  An environment that never runs out of coherent memory: the areas are aligned to 64 bytes (the
  kernel aligns them to pages) and do not wrap around.
\<close>

definition good_alloc :: "'u drv \<Rightarrow> bool" where
  "good_alloc s \<longleftrightarrow> (\<forall>es. \<exists>va pa. pci_alloc s es DFTSIZE = Some (va, pa) \<and> va \<noteq> 0 \<and> va mod 64 = 0 \<and> pa mod 64 = 0
     \<and> unat va + 256000 \<le> 2 ^ 32)"

section \<open>Taking a ring down\<close>

lemma force_idle:
  assumes "idle s e" "HwCnt (ring_of s e) \<le> of_nat DMA_BD_CNT"
  defines "c \<equiv> ghw (ring_groups (ring_of s e))"
  shows "\<exists>R'. Dma_BdRingForceFromHw (ring_of s e) (of_nat DMA_BD_CNT) = (of_nat (length c), R', if c = [] then 0 else PostHead R')
    \<and> ring_inv R' \<and> ring_groups R' = \<lparr>gpost = c, ghw = [], gpre = [], gfree = gfree (ring_groups (ring_of s e))\<rparr>
    \<and> unat (PostCnt R') = length c \<and> IsRxChannel R' = IsRxChannel (ring_of s e) \<and> ring_n R' = ring_n (ring_of s e)
    \<and> bd_addr R' = bd_addr (ring_of s e) \<and> PreCnt R' = 0"
proof -
  let ?R = "ring_of s e"
  have inv: "ring_inv ?R" and z: "PreCnt ?R = 0" "PostCnt ?R = 0" using assms(1) by (simp_all add: idle_def)
  have lc: "length c = unat (HwCnt ?R)" by (simp add: c_def)
  have mn: "min (of_nat DMA_BD_CNT) (HwCnt ?R) = HwCnt ?R" using assms(2) by (simp add: min_def)
  have ce: "c = [] \<longleftrightarrow> HwCnt ?R = 0" using lc by (metis length_0_conv unat_eq_zero)
  obtain R' where r: "Dma_BdRingForceFromHw ?R (of_nat DMA_BD_CNT) = (HwCnt ?R, R', if HwCnt ?R = 0 then 0 else HwHead ?R)"
    "ring_inv R'" "ring_groups R' = spec_fromhw (length c) (ring_groups ?R)"
    using force_refines[OF inv, of "of_nat DMA_BD_CNT"] unfolding mn lc by blast
  have f: "PostHead R' = PostHead ?R \<and> IsRxChannel R' = IsRxChannel ?R \<and> AllCnt R' = AllCnt ?R
    \<and> FirstBdAddr R' = FirstBdAddr ?R \<and> Separation R' = Separation ?R \<and> PreCnt R' = PreCnt ?R"
    using r(1) by (auto simp: Dma_BdRingForceFromHw_def Let_def split: if_splits)
  have "HwHead ?R = PostHead ?R" using ring_invD(2,3)[OF inv] z by (simp add: ring_at_def)
  moreover have "gpost (ring_groups ?R) = []" "gpre (ring_groups ?R) = []"
    using group_lengths(1,3)[of ?R] z by (simp_all del: group_lengths)
  then have G: "ring_groups R' = \<lparr>gpost = c, ghw = [], gpre = [], gfree = gfree (ring_groups ?R)\<rparr>"
    unfolding r(3) c_def by (cases "ring_groups ?R") (simp add: spec_fromhw_def)
  moreover have "unat (PostCnt R') = length c" using group_lengths(1)[of R'] G by simp
  moreover have "of_nat (length c) = HwCnt ?R" by (simp add: lc)
  ultimately show ?thesis using r(1,2) f z by (auto simp: ring_n_def bd_addr_def fun_eq_iff ce)
qed

lemma spec_free_all: "ring_groups R = \<lparr>gpost = c, ghw = [], gpre = [], gfree = f\<rparr> \<Longrightarrow> k = length c \<Longrightarrow>
   spec_free k (ring_groups R) = \<lparr>gpost = [], ghw = [], gpre = [], gfree = f @ c\<rparr>"
  by (simp add: spec_free_def)

context user_driver begin

lemma free_queued_spec:
  assumes sv: "served s e" and inv: "ring_inv (ring_of s e)" and k: "unat (PostCnt (ring_of s e)) = k" "k \<le> DMA_BD_CNT"
    and ptr: "BdPtr = PostHead (ring_of s e)" and po: "pool_ok s"
  shows "\<exists>arr r m1 m2 s'. free_queued e k BdPtr s = s'
    \<and> take k arr = map (\<lambda>i. queued_pkt (hw s) (bd_addr (ring_of s e) i)) (gpost (ring_groups (ring_of s e)))
    \<and> put e arr (int k) (privData (user (Dma s e))) (usr s, m1) = (r, usr s', m2)
    \<and> (\<forall>l. lock_depth l (evs m1) = lock_depth l (evs (hw s)) - of_bool (l = DmaLock))
    \<and> moves (- int k) (hw s) (hw s') \<and> ring_inv (ring_of s' e)
    \<and> ring_groups (ring_of s' e) = spec_free k (ring_groups (ring_of s e))
    \<and> PreCnt (ring_of s' e) = PreCnt (ring_of s e) \<and> (\<exists>R. Dma s' = (Dma s)(e := (Dma s e)\<lparr>BdRing := R\<rparr>))
    \<and> done_core e s s' \<and> served s' e \<and> pool_ok s' \<and> gave e k s s'"
proof -
  let ?R = "ring_of s e" and ?n = "ring_n (ring_of s e)" and ?pd = "privData (user (Dma s e))"
  obtain pp P m where b: "dq_pool s = (Some pp, s\<lparr>pool := P, hw := m\<rparr>)" "borrowed pp (s\<lparr>pool := P, hw := m\<rparr>)"
    "moves 0 (hw s) m" "pktArray P = pktArray (pool s)" "mem m = mem (hw s)" using borrow[OF po] by blast
  define s1 where "s1 = s\<lparr>pool := P, hw := m\<rparr>"
  have la: "length (pool_arr s1 pp) = DMA_BD_CNT" using b(2) by (auto simp: s1_def borrowed_def)
  define j where "j = post_idx ?R"
  have g: "geom ?R" and at: "ring_at ?R j" and jn: "j < ?n" using ring_invD[OF inv] by (simp_all add: j_def)
  have ptr': "BdPtr = bd_addr ?R (j mod ?n)" using at ptr jn by (simp add: ring_at_def)
  have kn: "k \<le> ?n" using ring_invD(4)[OF inv] k(1) by simp
  obtain pkts m3 where dr: "force_drain k ?R BdPtr 0 (pool_arr s1 pp) m = (pkts, m3)" by (metis surj_pair)
  have "0 + k \<le> length (pool_arr s1 pp)" using k(2) la by simp
  note D = force_drain_spec[OF g kn this dr[unfolded ptr']]
  have gp: "gpost (ring_groups ?R) = cyc ?n j k" by (simp add: ring_groups_def Let_def j_def k(1))
  have tk: "take k pkts = map (\<lambda>i. queued_pkt (hw s) (bd_addr ?R i)) (gpost (ring_groups ?R))"
    using D by (simp add: gp pkt_mem(2)[OF b(5)])
  have lp: "length pkts = length (pool_arr s1 pp)" using D k(2) la by simp
  define s2 where "s2 = (set_pool_arr pp pkts s1)\<lparr>hw := m3\<rparr>"
  have b2: "borrowed pp s2"
    by (rule borrowed_same[OF _ b(2)]) (simp add: pool_same_def s2_def s1_def[symmetric] set_pool_arr_def pool_arr_def lp[unfolded pool_arr_def])
  define s4 where "s4 = on_hw (spin_unlock DmaLock) s2"
  obtain r u m5 where pu: "put e (pool_arr s4 pp) (int k) ?pd (usr s, hw s4) = (r, u, m5)" by (metis prod_cases3)
  have pa: "pool_arr s4 pp = pkts" by (simp add: s4_def s2_def pool_arr_def set_pool_arr_def on_hw_def)
  have up: "UserPutPkt (user (Dma s e)) = Some put" "uinv (usr s)" using sv by (simp_all add: served_def)
  note q = put_quiet[OF up(2) pu]
  have d4: "Dma s4 = Dma s" "usr s4 = usr s" "pool s4 = pool s2" "static s4 = static s" "hw s4 = spin_unlock DmaLock m3"
    by (simp_all add: s4_def s2_def s1_def set_pool_arr_def on_hw_def)
  define s5 where "s5 = on_hw (spin_lock DmaLock) (s4\<lparr>usr := u, hw := m5\<rparr>)"
  have c5: "call_UserPutPkt e (pool_arr s4 pp) (int k) s4 = s4\<lparr>usr := u, hw := m5\<rparr>"
    using pu up by (simp add: call_UserPutPkt_def d4)
  have d5: "Dma s5 = Dma s" "usr s5 = u" "pool s5 = pool s2" "hw s5 = spin_lock DmaLock m5" "ring_of s5 e = ?R" "static s5 = static s"
    by (simp_all add: s5_def d4 on_hw_def ring_of_def)
  have "k < 2 ^ 32" using k(1) unat_lt32[of "PostCnt ?R"] by linarith
  then have uk: "unat (of_nat k :: u32) = k" by simp
  have "(of_nat k :: u32) \<le> PostCnt ?R" using k(1) uk by (simp add: word_le_nat_alt)
  from free_refines[OF inv this ptr[symmetric], of "hw s5"] obtain R' m6 where fr:
    "Dma_BdRingFree ?R (of_nat k) BdPtr (hw s5) = (XST_SUCCESS, R', m6)" "ring_inv R'"
    "ring_groups R' = spec_free k (ring_groups ?R)" by (auto simp: uk)
  have R': "IsRxChannel R' = IsRxChannel ?R" "PreCnt R' = PreCnt ?R" "AllCnt R' = AllCnt ?R"
    using fr(1) by (auto simp: Dma_BdRingFree_def Let_def split: if_splits)
  define s6 where "s6 = set_ring e R' (s5\<lparr>hw := m6\<rparr>)"
  have d6: "Dma s6 = (Dma s)(e := (Dma s e)\<lparr>BdRing := R'\<rparr>)" "usr s6 = u" "pool s6 = pool s2" "hw s6 = m6" "static s6 = static s"
    by (simp_all add: s6_def d5 set_ring_def set_eng_def)
  have "borrowed pp s6" using b2 borrowed_pool[of s6 s2] by (simp add: d6)
  then obtain P' m7 where e7: "eq_pool pp s6 = s6\<lparr>pool := P', hw := m7\<rparr>" "pool_ok (s6\<lparr>pool := P', hw := m7\<rparr>)" "moves 0 m6 m7"
    using give_back[of pp s6] by (auto simp: d6)
  define s' where "s' = s6\<lparr>pool := P', hw := m7\<rparr>"
  have s': "Dma s' = Dma s6" "usr s' = u" "hw s' = m7" "ring_of s' e = R'" "static s' = static s"
    by (simp_all add: s'_def d6 ring_of_def)
  have r1: "ring_of s1 e = ?R" "hw s1 = m" by (simp_all add: s1_def ring_of_def)
  have run: "free_queued e k BdPtr s = s'"
    unfolding free_queued_def Let_def b(1) s1_def[symmetric]
    by (simp only: prod.case option.case r1 dr s2_def[symmetric] s4_def[symmetric] c5 s5_def[symmetric] d5(5) fr(1) s6_def[symmetric] e7(1) s'_def[symmetric])
  have mv: "moves (- int k) (hw s) (hw s')"
  proof -
    have "moves (- int k) (hw s) m3" using moves_trans0[OF b(3)] D by simp
    moreover have "moves 0 m3 (hw s5)" using q by (simp add: moves_def d4 d5)
    moreover have "moves 0 (hw s5) m7" using moves_trans0[OF Free_moves[OF fr(1)] e7(3)] .
    ultimately show ?thesis by (simp add: moves_def s')
  qed
  have ld: "lock_depth l (evs (hw s4)) = lock_depth l (evs (hw s)) - of_bool (l = DmaLock)" for l
    using moves_trans0[OF b(3), of "- int k" m3] D by (auto simp: d4 moves_def)
  have "served s' e" using sv q R'(1) by (simp add: served_def s'(2,4)) (simp add: s' d6)
  moreover have "done_core e s s'" unfolding done_core_def s'(4) by (simp add: s' d6 R' ring_n_def)
  moreover have "gave e k s s'" using put_held[OF up(2) pu] put_bound[OF up(2) pu] by (simp add: gave_def s')
  ultimately show ?thesis using run tk pu[unfolded pa] ld mv fr(2,3) R'(2) e7(2) s' d6
    by (intro exI[of _ pkts] exI[of _ r] exI[of _ "hw s4"] exI[of _ m5] exI[of _ s']) (auto simp: s'_def[symmetric])
qed

text \<open>
  Taking the ring down: the application driver gets back exactly the buffers that were queued, in
  ring order, marked unused; every one of them is unmapped; the whole ring is free again.
\<close>

lemma descriptor_free_spec:
  assumes sv: "served s e" and idl: "idle s e" and po: "pool_ok s" and hc: "HwCnt (ring_of s e) \<le> of_nat DMA_BD_CNT"
  defines "R \<equiv> ring_of s e" and "c \<equiv> ghw (ring_groups (ring_of s e))"
  shows "\<exists>s'. descriptor_free e s = s'
    \<and> (c \<noteq> [] \<longrightarrow> (\<exists>arr r m1 m2 u. put e arr (int (length c)) (privData (user (Dma s e))) (usr s, m1) = (r, u, m2)
         \<and> take (length c) arr = map (\<lambda>i. queued_pkt (hw s) (bd_addr R i)) c
         \<and> (\<forall>l. lock_depth l (evs m1) = lock_depth l (evs (hw s)))))
    \<and> ring_groups (ring_of s' e) = \<lparr>gpost = [], ghw = [], gpre = [], gfree = gfree (ring_groups R) @ c\<rparr>
    \<and> moves (- int (length c)) (hw s) (hw s') \<and> idle s' e \<and> served s' e \<and> pool_ok s' \<and> done_core e s s' \<and> (\<exists>R. Dma s' = (Dma s)(e := (Dma s e)\<lparr>BdRing := R\<rparr>))
    \<and> gave e (length c) s s'
    \<and> (descSpaceVA (Dma s e) \<noteq> 0 \<longrightarrow> hd (evs (hw s')) = FreeMem (descSpaceSize (Dma s e) + delta (Dma s e))
         (descSpaceVA (Dma s e) - 4 * delta (Dma s e)) (descSpacePA (Dma s e) - delta (Dma s e)))"
proof -
  obtain R1 where f: "Dma_BdRingForceFromHw R (of_nat DMA_BD_CNT) = (of_nat (length c), R1, if c = [] then 0 else PostHead R1)"
    "ring_inv R1" "ring_groups R1 = \<lparr>gpost = c, ghw = [], gpre = [], gfree = gfree (ring_groups R)\<rparr>"
    "unat (PostCnt R1) = length c" "IsRxChannel R1 = IsRxChannel R" "ring_n R1 = ring_n R" "bd_addr R1 = bd_addr R" "PreCnt R1 = 0"
    using force_idle[OF idl hc] unfolding R_def c_def by blast
  have lc: "length c = unat (HwCnt R)" by (simp add: c_def R_def)
  have "length c < 2 ^ 32" unfolding lc by (rule unat_lt32)
  then have uc: "unat (of_nat (length c) :: u32) = length c" "(of_nat (length c) :: u32) > 0 \<longleftrightarrow> c \<noteq> []"
    by (simp_all add: word_less_nat_alt)
  have lcd: "length c \<le> DMA_BD_CNT"
  proof -
    have "unat (of_nat DMA_BD_CNT :: u32) = DMA_BD_CNT" by (intro unat_of_nat32) (simp add: hwc)
    then show ?thesis using hc unfolding lc R_def by (simp add: word_le_nat_alt)
  qed
  define s1 where "s1 = set_ring e R1 (on_hw (spin_lock DmaLock) s)"
  have s1: "ring_of s1 e = R1" "usr s1 = usr s" "hw s1 = spin_lock DmaLock (hw s)" "pool s1 = pool s"
    "Dma s1 = (Dma s)(e := (Dma s e)\<lparr>BdRing := R1\<rparr>)" "static s1 = static s"
    by (simp_all add: s1_def ring_of_def)
  have sv1: "served s1 e" using sv f(5) by (simp add: served_def s1 R_def)
  have po1: "pool_ok s1" using po pool_ok_pool[of s1 s] by (simp add: s1)
  have dc1: "done_core e s s1" using f(5,6) unfolding done_core_def s1(1) by (simp add: s1 R_def)
  have mem1: "queued_pkt (hw s1) = queued_pkt (hw s)" using pkt_mem(2)[of "hw s1" "hw s"] by (auto simp: s1)
  define D where "D \<longleftrightarrow> (\<exists>arr r m1 m2 u. put e arr (int (length c)) (privData (user (Dma s e))) (usr s, m1) = (r, u, m2)
         \<and> take (length c) arr = map (\<lambda>i. queued_pkt (hw s) (bd_addr R i)) c
         \<and> (\<forall>l. lock_depth l (evs m1) = lock_depth l (evs (hw s))))"
  obtain s2 where M: "(if (of_nat (length c) :: u32) > 0 then free_queued e (unat (of_nat (length c) :: u32)) (if c = [] then 0 else PostHead R1) s1
        else s1) = s2" "c \<noteq> [] \<longrightarrow> D"
    "ring_inv (ring_of s2 e)" "PreCnt (ring_of s2 e) = 0" "moves (- int (length c)) (hw s1) (hw s2)"
    "ring_groups (ring_of s2 e) = spec_free (length c) (ring_groups R1)" "done_core e s1 s2" "served s2 e" "pool_ok s2"
    "\<exists>R. Dma s2 = (Dma s)(e := (Dma s e)\<lparr>BdRing := R\<rparr>)" "gave e (length c) s s2"
  proof (cases "c = []")
    case True
    have "ring_inv (ring_of s1 e)" "PreCnt (ring_of s1 e) = 0" using f(2,8) by (simp_all add: s1(1))
    moreover have "ring_groups (ring_of s1 e) = spec_free (length c) (ring_groups R1)" using True by (simp add: s1(1) spec_free_def)
    moreover have "gave e (length c) s s1" using True got_same(4)[of s1 s e 0 s] s1(2) by simp
    ultimately show ?thesis using that[of s1] True sv1 po1 s1(5) by (auto simp: done_core_def)
  next
    case False
    have a: "unat (PostCnt (ring_of s1 e)) = length c" "PostHead R1 = PostHead (ring_of s1 e)" using f(4) by (simp_all add: s1)
    from free_queued_spec[OF sv1 _ a(1) lcd a(2) po1] obtain arr r m1 m2 s' where h:
      "free_queued e (length c) (PostHead R1) s1 = s'"
      "take (length c) arr = map (\<lambda>i. queued_pkt (hw s1) (bd_addr R1 i)) (gpost (ring_groups R1))"
      "put e arr (int (length c)) (privData (user (Dma s1 e))) (usr s1, m1) = (r, usr s', m2)"
      "\<forall>l. lock_depth l (evs m1) = lock_depth l (evs (hw s1)) - of_bool (l = DmaLock)"
      "moves (- int (length c)) (hw s1) (hw s')" "ring_inv (ring_of s' e)"
      "ring_groups (ring_of s' e) = spec_free (length c) (ring_groups R1)" "PreCnt (ring_of s' e) = PreCnt R1"
      "\<exists>R. Dma s' = (Dma s1)(e := (Dma s1 e)\<lparr>BdRing := R\<rparr>)" "done_core e s1 s'" "served s' e" "pool_ok s'" "gave e (length c) s1 s'"
      using f(2) unfolding s1(1) by blast
    have "put e arr (int (length c)) (privData (user (Dma s e))) (usr s, m1) = (r, usr s', m2)" using h(3) by (simp add: s1)
    moreover have "\<forall>l. lock_depth l (evs m1) = lock_depth l (evs (hw s))" using h(4) by (simp add: s1)
    moreover have "gpost (ring_groups R1) = c" using f(3) by simp
    then have "take (length c) arr = map (\<lambda>i. queued_pkt (hw s) (bd_addr R i)) c" using h(2) by (simp only: mem1 f(7))
    ultimately have D unfolding D_def by blast
    moreover have "\<exists>R. Dma s' = (Dma s)(e := (Dma s e)\<lparr>BdRing := R\<rparr>)" using h(9) by (auto simp: s1)
    moreover have "gave e (length c) s s'" using h(13) got_same(3)[of s1 s] s1(2) by simp
    ultimately show ?thesis using that[of s'] h(1,5-8,10-12) f(8) False by (simp add: uc)
  qed
  have G2: "ring_groups (ring_of s2 e) = \<lparr>gpost = [], ghw = [], gpre = [], gfree = gfree (ring_groups R) @ c\<rparr>"
    unfolding M(6) by (rule spec_free_all[OF f(3) refl])
  obtain R2 where d2: "Dma s2 = (Dma s)(e := (Dma s e)\<lparr>BdRing := R2\<rparr>)" using M(10) by blast
  let ?E = "Dma s e"
  define s3 where "s3 = on_hw (spin_unlock DmaLock) s2"
  define s' where "s' = (if descSpaceVA ?E = 0 then s3 else on_hw (pci_free_consistent (descSpaceSize ?E + delta ?E)
      (descSpaceVA ?E - 4 * delta ?E) (descSpacePA ?E - delta ?E)) s3)"
  have d3: "Dma s3 = Dma s2" by (simp add: s3_def)
  have run: "descriptor_free e s = s'"
  proof -
    have r0: "ring_of (on_hw (spin_lock DmaLock) s) e = R" by (simp add: R_def ring_of_def)
    have "descSpaceVA (Dma s3 e) = descSpaceVA ?E" "descSpaceSize (Dma s3 e) = descSpaceSize ?E" "delta (Dma s3 e) = delta ?E"
      "descSpacePA (Dma s3 e) = descSpacePA ?E" by (simp_all add: d3 d2)
    then show ?thesis unfolding descriptor_free_def Let_def s'_def
      by (simp only: r0 f(1) prod.case s1_def[symmetric] M(1) s3_def[symmetric])
  qed
  have s': "Dma s' = Dma s2" "usr s' = usr s2" "pool s' = pool s2" "ring_of s' e = ring_of s2 e" "static s' = static s2"
    by (simp_all add: s'_def s3_def ring_of_def)
  have "moves (- int (length c)) (spin_lock DmaLock (hw s)) (hw s2)" using M(5) by (simp add: s1)
  then have "moves (- int (length c)) (hw s) (hw s3)" by (auto simp: s3_def dest: moves_locked)
  then have mv: "moves (- int (length c)) (hw s) (hw s')"
    by (auto simp: s'_def moves_def pci_free_consistent_def)
  have dc: "done_core e s s'" using done_core_trans[OF dc1 M(7)] by (simp add: done_core_def s')
  have "PostCnt (ring_of s' e) = 0" using group_lengths(1)[of "ring_of s' e"] G2 by (simp add: s' unat_eq_zero)
  then have "idle s' e" using M(3,4) dc idl by (simp add: idle_def s' done_core_def)
  moreover have "served s' e" using M(8) by (simp add: served_def s')
  moreover have "pool_ok s'" using M(9) pool_ok_pool[of s' s2] by (simp add: s')
  moreover have "descSpaceVA ?E \<noteq> 0 \<longrightarrow> hd (evs (hw s')) = FreeMem (descSpaceSize ?E + delta ?E)
         (descSpaceVA ?E - 4 * delta ?E) (descSpacePA ?E - delta ?E)"
    by (simp add: s'_def pci_free_consistent_def)
  moreover have "ring_groups (ring_of s' e) = \<lparr>gpost = [], ghw = [], gpre = [], gfree = gfree (ring_groups R) @ c\<rparr>"
    using G2 by (simp add: s')
  moreover have "\<exists>R. Dma s' = (Dma s)(e := (Dma s e)\<lparr>BdRing := R\<rparr>)" using d2 s'(1) by metis
  moreover have "gave e (length c) s s'" using M(11) got_same(4)[of s' s2] s'(2) by simp
  ultimately show ?thesis using run M(2)[unfolded D_def] mv dc by blast
qed

end

end
