(* ===== verification/XdmaUser.thy ===== *)
theory XdmaUser
  imports RingLife
begin

text \<open>
  The services of \<open>fc1553_dma/xdma/xdma_user.c\<close> besides transmission: \<open>DmaRegister\<close>, \<open>DmaUnregister\<close>,
  \<open>DmaFifoEmptyWait\<close>. The locale \<open>user_app\<close> extends the driver interface by the initialisation
  callback; under it registration and its reversal are specified end to end.
\<close>

section \<open>Registration\<close>

text \<open>
  The engine number is not checked before \<open>1LL << engine\<close>; the shift is undefined for a number
  outside 0 to 63.
\<close>

datatype 'a outcome = Undefined | Returned 'a

definition DmaRegister :: "int \<Rightarrow> int \<Rightarrow> 'u UserPtrs \<Rightarrow> int \<Rightarrow> 'u drv \<Rightarrow> (nat option \<times> 'u drv) outcome" where
  "DmaRegister engine bar uptr pktsize s =
     (if DriverState s \<noteq> INITIALIZED then Returned (None, s)
      else if bar < 0 \<or> bar > 5 then Returned (None, s)
      else if engine < 0 \<or> engine \<ge> 64 then Undefined
      else if \<not> engine_present s (nat engine) then Returned (None, s)
      else
        let e = nat engine;
            barbase = baseVAddr s (nat bar)
        in if EngineState (Dma s e) \<noteq> INITIALIZED then Returned (None, s)
        else
          let s = set_eng e ((Dma s e)\<lparr>user := uptr, pktSize := pktsize\<rparr>) s;
              s = call_UserInit e barbase s;
              s = on_hw (spin_lock DmaLock) s;
              (result, s) = descriptor_init e s;
              s = set_eng e ((Dma s e)\<lparr>EngineState := USER_ASSIGNED\<rparr>) s;
              s = s\<lparr>userCount := userCount s + 1\<rparr>;
              (result, R, m) = Dma_BdRingStart (ring_of s e) (hw s);
              s = set_ring e R (s\<lparr>hw := m\<rparr>)
          in if result = XST_FAILURE then Returned (None, s)
             else
               let s = (if TH_BH_ISR s then on_hw (Dma_mEngIntEnable (Dma s e)) s else s);
                   s = on_hw (spin_unlock DmaLock) s
               in Returned (Some e, s))"

definition DmaUnregister :: "nat option \<Rightarrow> 'u drv \<Rightarrow> int \<times> 'u drv" where
  "DmaUnregister handle s =
     (if DriverState s \<noteq> INITIALIZED then (XST_FAILURE, s)
      else case handle of
        None \<Rightarrow> (XST_FAILURE, s)
      | Some e \<Rightarrow>
          if EngineState (Dma s e) \<noteq> USER_ASSIGNED then (XST_FAILURE, s)
          else
            let s = on_hw (spin_lock DmaLock) s;
                s = set_eng e ((Dma s e)\<lparr>EngineState := UNREGISTERING\<rparr>) s;
                (E, m) = Dma_Reset (Dma s e) (hw s);
                s = set_eng e E (s\<lparr>hw := m\<rparr>);
                s = on_hw (spin_unlock DmaLock) s;
                s = descriptor_free e s;
                s = on_hw (spin_lock DmaLock) s;
                s = set_eng e ((Dma s e)\<lparr>EngineState := INITIALIZED\<rparr>) s;
                s = s\<lparr>userCount := userCount s - 1\<rparr>;
                s = on_hw (spin_unlock DmaLock) s
            in (0, s))"

section \<open>Waiting for the card's FIFO\<close>

definition STATUS_REG_OFFSET :: u32 where [hwc]: "STATUS_REG_OFFSET = 0x9008"
definition FIFO_EMPTY_TIMEOUT :: nat where [hwc]: "FIFO_EMPTY_TIMEOUT = 100"
definition DIR_TYPE_S2C :: nat where [hwc]: "DIR_TYPE_S2C = 0"
definition DIR_TYPE_C2S :: nat where [hwc]: "DIR_TYPE_C2S = 1"
definition EMPTY_MASK_SHIFT :: nat where [hwc]: "EMPTY_MASK_SHIFT = 2"
definition HANDLE_0 :: nat where [hwc]: "HANDLE_0 = 0"
definition HANDLE_1 :: nat where [hwc]: "HANDLE_1 = 2"

text \<open>
  The \<open>do \<dots> while (timeout--)\<close> loop: the body runs, and again while \<open>timeout\<close> was not yet zero. The
  flag tells whether the wait ended in a timeout.
\<close>

fun fifo_wait :: "nat \<Rightarrow> u32 \<Rightarrow> u32 \<Rightarrow> mach \<Rightarrow> bool \<times> mach" where
  "fifo_wait timeout statusReg check m =
     (let (data, m) = XIo_In32 statusReg m
      in if data AND check \<noteq> 0 then (False, m)
         else (case timeout of 0 \<Rightarrow> (True, m) | Suc t \<Rightarrow> fifo_wait t statusReg check m))"

declare fifo_wait.simps [simp del]

definition DmaFifoEmptyWait :: "nat \<Rightarrow> nat \<Rightarrow> 'u drv \<Rightarrow> bool \<times> 'u drv" where
  "DmaFifoEmptyWait handleId type s =
     (let statusReg = baseVAddr s 0 + STATUS_REG_OFFSET;
          check = push_bit EMPTY_MASK_SHIFT (push_bit (handleId + type) 1);
          (late, m) = fifo_wait FIFO_EMPTY_TIMEOUT statusReg check (hw s)
      in (late, s\<lparr>hw := m\<rparr>))"

text \<open>The wait reads the status register at most \<open>timeout + 1\<close> times and does nothing else.\<close>

lemma fifo_wait_evs:
  "\<exists>vs. fifo_wait t r c m = (late, m') \<longrightarrow>
     evs m' = map (RdReg r) vs @ evs m \<and> vs \<noteq> [] \<and> length vs \<le> t + 1 \<and> mem m' = mem m
     \<and> (late \<longleftrightarrow> length vs = t + 1 \<and> hd vs AND c = 0) \<and> (\<forall>v\<in>set (tl vs). v AND c = 0)
     \<and> (\<not> late \<longrightarrow> hd vs AND c \<noteq> 0)"
proof (induction t arbitrary: m late m')
  case 0
  show ?case by (intro exI[of _ "[dev m (evs m) r]"]) (auto simp: fifo_wait.simps[of 0] XIo_In32_def Let_def)
next
  case (Suc t)
  let ?v = "dev m (evs m) r" and ?m = "log_ev (RdReg r (dev m (evs m) r)) m"
  show ?case
  proof (cases "?v AND c = 0")
    case False
    then show ?thesis
      by (intro exI[of _ "[?v]"]) (auto simp: fifo_wait.simps[of "Suc t"] XIo_In32_def Let_def)
  next
    case True
    from Suc.IH[of ?m late m'] obtain vs where vs: "fifo_wait t r c ?m = (late, m') \<longrightarrow>
      evs m' = map (RdReg r) vs @ evs ?m \<and> vs \<noteq> [] \<and> length vs \<le> t + 1 \<and> mem m' = mem ?m
     \<and> (late \<longleftrightarrow> length vs = t + 1 \<and> hd vs AND c = 0) \<and> (\<forall>v\<in>set (tl vs). v AND c = 0)
     \<and> (\<not> late \<longrightarrow> hd vs AND c \<noteq> 0)" by blast
    have "fifo_wait (Suc t) r c m = fifo_wait t r c ?m"
      using True by (simp add: fifo_wait.simps[of "Suc t"] XIo_In32_def Let_def)
    then show ?thesis using vs True by (intro exI[of _ "vs @ [?v]"]) (cases vs; auto)
  qed
qed

section \<open>What reset and start leave alone\<close>

lemma crsr_moves [simp]:
  "moves 0 m (snd (Dma_mGetCrSr E m))" "moves 0 m (Dma_mSetCrSr E d m)" "moves 0 m (Dma_mEngIntEnable E m)"
  "moves 0 m (Dma_mEngIntDisable E m)" "moves 0 m (Dma_mEngIntAck E d m)"
  by (simp_all add: Dma_mGetCrSr_def Dma_mSetCrSr_def Dma_mEngIntEnable_def Dma_mEngIntDisable_def Dma_mEngIntAck_def
      moves_def split_beta Let_def)

lemma wait_clear_moves: "moves 0 m (wait_clear k E bits m)"
proof (induction k arbitrary: m)
  case (Suc k)
  let ?m = "snd (Dma_mGetCrSr E m)"
  have "moves 0 m ?m" "moves 0 ?m (snd (Dma_mGetCrSr E ?m))" "moves 0 ?m (wait_clear k E bits ?m)"
    by (rule crsr_moves crsr_moves Suc.IH)+
  then have "moves 0 m ?m" "moves 0 m (snd (Dma_mGetCrSr E ?m))" "moves 0 m (wait_clear k E bits ?m)"
    by (blast intro: moves_trans0)+
  then show ?case by (simp add: split_beta Let_def)
qed simp

lemma Dma_Reset_spec:
  "Dma_Reset E m = (E', m') \<Longrightarrow> E' = E\<lparr>BdRing := (BdRing E)\<lparr>RunState := XST_DMA_SG_IS_STOPPED\<rparr>\<rparr> \<and> moves 0 m m' \<and> mem m' = mem m"
proof -
  assume r: "Dma_Reset E m = (E', m')"
  let ?a = "wait_clear RESET_LIMIT E (DMA_ENG_STATE_MASK OR DMA_ENG_USER_RESET)
      (Dma_mSetCrSr E (DMA_ENG_DISABLE OR DMA_ENG_USER_RESET) (Dma_mEngIntDisable E m))"
  let ?b = "wait_clear RESET_LIMIT E DMA_ENG_RESET (Dma_mSetCrSr E DMA_ENG_RESET ?a)"
  have "moves 0 m ?a" by (rule moves_trans0[OF crsr_moves(4) moves_trans0[OF crsr_moves(2) wait_clear_moves]])
  then have "moves 0 m ?b" by (rule moves_trans0[OF _ moves_trans0[OF crsr_moves(2) wait_clear_moves]])
  then have 1: "moves 0 m (snd (Dma_mGetCrSr E ?b))" by (rule moves_trans0) simp
  have "m' = snd (Dma_mGetCrSr E ?b) \<or> m' = Dma_mEngIntAck E (fst (Dma_mGetCrSr E ?b) AND DMA_ENG_ALLINT_MASK) (snd (Dma_mGetCrSr E ?b))"
    using r by (auto simp: Dma_Reset_def Let_def split_beta split: if_splits)
  then have "moves 0 m m'" using 1 moves_trans0[OF 1 crsr_moves(5)] by auto
  moreover have "mem m' = mem m" using Dma_Reset_mem[of E m] r by simp
  moreover have "E' = E\<lparr>BdRing := (BdRing E)\<lparr>RunState := XST_DMA_SG_IS_STOPPED\<rparr>\<rparr>"
    using r by (simp add: Dma_Reset_def Let_def split_beta)
  ultimately show ?thesis by simp
qed

lemma run_state_frame [ring_frame]:
  "ring_inv (R\<lparr>RunState := x\<rparr>) = ring_inv R" "ring_groups (R\<lparr>RunState := x\<rparr>) = ring_groups R"
  "ring_n (R\<lparr>RunState := x\<rparr>) = ring_n R" "bd_addr (R\<lparr>RunState := x\<rparr>) = bd_addr R"
  by (simp_all add: fun_eq_iff ring_at_def ring_groups_def ring_inv_def post_idx_def ring_n_def bd_addr_def geom_def)

lemma Start_spec:
  assumes "AllCnt R \<noteq> 0" "RunState R = XST_DMA_SG_IS_STOPPED"
  shows "\<exists>m'. Dma_BdRingStart R m = (XST_SUCCESS, R\<lparr>RunState := XST_DMA_SG_IS_STARTED\<rparr>, m') \<and> moves 0 m m' \<and> mem m' = mem m"
proof -
  have "RunState R \<noteq> XST_DMA_SG_IS_STARTED" using assms(2) by (simp add: hwc)
  from start_publishes[OF assms(1) this, of m] obtain v w m' where
    r: "Dma_BdRingStart R m = (XST_SUCCESS, R\<lparr>RunState := XST_DMA_SG_IS_STARTED\<rparr>, m')" "mem m' = mem m"
    "rev (evs m') = rev (evs m) @
        [WrReg (ChanBase R + REG_DMA_ENG_NEXT_BD) (BdaRestart R),
         WrReg (ChanBase R + REG_SW_NEXT_BD) (BdaRestart R), Wmb,
         RdReg (ChanBase R + REG_DMA_ENG_CTRL_STATUS) v,
         WrReg (ChanBase R + REG_DMA_ENG_CTRL_STATUS) (v OR DMA_ENG_ENABLE), Wmb]
        @ (if HwCnt R > 0
           then [WrReg (ChanBase R + REG_SW_NEXT_BD) (Dma_mVirtToPhys R (HwTail R))] else [])
        @ (if IsRxChannel R \<noteq> 0 then [RdReg (ChanBase R + 0x18) w] else [])" by blast
  have "evs m' = rev (rev (evs m'))" by simp
  then have "moves 0 m m'" unfolding r(3) by (simp add: moves_def)
  then show ?thesis using r by blast
qed

section \<open>Registration and its reversal\<close>

lemma rx_core_idle: "idle s e \<Longrightarrow> rx_core k e s s' \<Longrightarrow> rx_ready s' e \<Longrightarrow> idle s' e"
proof -
  assume a: "idle s e" "rx_core k e s s'" "rx_ready s' e"
  have "gpost (ring_groups (ring_of s' e)) = gpost (ring_groups (ring_of s e))" using a(2) by (simp add: rx_core_def)
  then have "unat (PostCnt (ring_of s' e)) = unat (PostCnt (ring_of s e))" by (metis group_lengths(1))
  then show ?thesis using a by (simp add: idle_def rx_ready_def rx_core_def unat_eq_zero)
qed

locale user_app = user_driver uinv get put held bound
  for uinv :: "'u \<Rightarrow> bool"
    and get :: "nat \<Rightarrow> PktBuf list \<Rightarrow> u32 \<Rightarrow> int \<Rightarrow> u32 \<Rightarrow> 'u \<times> mach \<Rightarrow> int \<times> PktBuf list \<times> 'u \<times> mach"
    and put :: "nat \<Rightarrow> PktBuf list \<Rightarrow> int \<Rightarrow> u32 \<Rightarrow> 'u \<times> mach \<Rightarrow> int \<times> 'u \<times> mach"
    and held :: "'u \<Rightarrow> nat"
    and bound :: "'u \<Rightarrow> nat \<Rightarrow> bool" +
  fixes init :: "u32 \<Rightarrow> u32 \<Rightarrow> 'u \<times> mach \<Rightarrow> int \<times> 'u \<times> mach"
  assumes init_quiet: "uinv u \<Longrightarrow> init b pd (u, m) = (r, u', m') \<Longrightarrow>
      uinv u' \<and> moves 0 m m' \<and> mem m' = mem m \<and> dev m' = dev m \<and> dma_map m' = dma_map m
      \<and> held u' = held u \<and> bound u' = bound u"
begin

text \<open>An engine nobody uses, that the driver can hand out, and the callbacks it is registered with.\<close>

definition available :: "'u drv \<Rightarrow> nat \<Rightarrow> bool" where
  "available s e \<longleftrightarrow> DriverState s = INITIALIZED \<and> e < 64 \<and> engine_present s e \<and> EngineState (Dma s e) = INITIALIZED
     \<and> (IsRxChannel (ring_of s e) \<noteq> 0 \<longleftrightarrow> EngType (Dma s e) AND DMA_ENG_DIRECTION_MASK = DMA_ENG_C2S)
     \<and> uinv (usr s) \<and> pool_ok s"

definition callbacks :: "'u UserPtrs \<Rightarrow> bool \<Rightarrow> bool" where
  "callbacks u rx \<longleftrightarrow> UserInit u = Some init \<and> UserPutPkt u = Some put \<and> (rx \<longrightarrow> UserGetPkt u = Some get)"

lemma register_spec:
  assumes av: "available s e" and bar: "0 \<le> bar" "bar \<le> 5" and cb: "callbacks uptr (IsRxChannel (ring_of s e) \<noteq> 0)"
    and al: "good_alloc s"
  shows "\<exists>k s'. DmaRegister (int e) bar uptr sz s = Returned (Some e, s')
    \<and> (if IsRxChannel (ring_of s e) = 0 then k = 0 else k \<le> 3998)
    \<and> ring_groups (ring_of s' e) = \<lparr>gpost = [], ghw = [0..<k], gpre = [], gfree = [k..<4000]\<rparr>
    \<and> idle s' e \<and> served s' e \<and> pool_ok s' \<and> moves (int k) (hw s) (hw s')
    \<and> RunState (ring_of s' e) = XST_DMA_SG_IS_STARTED \<and> IsRxChannel (ring_of s' e) = IsRxChannel (ring_of s e)
    \<and> EngineState (Dma s' e) = USER_ASSIGNED \<and> user (Dma s' e) = uptr
    \<and> (\<forall>i. i \<noteq> e \<longrightarrow> Dma s' i = Dma s i) \<and> static s' = static s \<and> got k s s'"
proof -
  let ?R = "ring_of s e" and ?rx = "IsRxChannel (ring_of s e) \<noteq> 0"
  have a: "DriverState s = INITIALIZED" "e < 64" "engine_present s e" "EngineState (Dma s e) = INITIALIZED"
    "?rx \<longleftrightarrow> EngType (Dma s e) AND DMA_ENG_DIRECTION_MASK = DMA_ENG_C2S" "uinv (usr s)" "pool_ok s"
    using av by (simp_all add: available_def)
  define s1 where "s1 = set_eng e ((Dma s e)\<lparr>user := uptr, pktSize := sz\<rparr>) s"
  obtain r u m where ini: "init (baseVAddr s (nat bar)) (privData uptr) (usr s, hw s) = (r, u, m)" by (metis prod_cases3)
  note q = init_quiet[OF a(6) ini]
  define s2 where "s2 = s1\<lparr>usr := u, hw := m\<rparr>"
  have c2: "call_UserInit e (baseVAddr s (nat bar)) s1 = s2"
    using ini cb by (simp add: call_UserInit_def s1_def s2_def callbacks_def)
  define s3 where "s3 = on_hw (spin_lock DmaLock) s2"
  have d3: "Dma s3 = (Dma s)(e := (Dma s e)\<lparr>user := uptr, pktSize := sz\<rparr>)" "usr s3 = u" "hw s3 = spin_lock DmaLock m"
    "pool s3 = pool s" "static s3 = static s" "pci_alloc s3 = pci_alloc s" "ring_of s3 e = ?R"
    by (simp_all add: s3_def s2_def s1_def ring_of_def) (simp add: on_hw_def set_eng_def)
  have "good_alloc s3" using al unfolding good_alloc_def d3(6) .
  from this[unfolded good_alloc_def, THEN spec, of "evs (hw s3)"] obtain va pa where al3: "pci_alloc s3 (evs (hw s3)) DFTSIZE = Some (va, pa)" and va: "va \<noteq> 0" "va mod 64 = 0" "pa mod 64 = 0"
    and fit: "unat va + 256000 \<le> 2 ^ 32" by (elim exE conjE) (rule that; assumption)
  obtain s4 where i4: "descriptor_init e s3 = (0, if EngType (Dma s3 e) AND DMA_ENG_DIRECTION_MASK = DMA_ENG_C2S then DmaSetupRecvBuffers e s4 else s4)"
    "idle s4 e" "ring_groups (ring_of s4 e) = \<lparr>gpost = [], ghw = [], gpre = [], gfree = [0..<4000]\<rparr>"
    "RunState (ring_of s4 e) = XST_DMA_SG_IS_STOPPED"
    "\<exists>R. Dma s4 e = (Dma s3 e)\<lparr>descSpacePA := pa, descSpaceVA := va, descSpaceSize := DFTSIZE, delta := 0, BdRing := R\<rparr>"
    "\<forall>i. i \<noteq> e \<longrightarrow> Dma s4 i = Dma s3 i" "pool s4 = pool s3" "usr s4 = usr s3" "static s4 = static s3"
    "moves 0 (hw s3) (hw s4)" "IsRxChannel (ring_of s4 e) = IsRxChannel (ring_of s3 e)"
    using descriptor_init_ring[OF al3 va fit, of e] by blast
  have n4: "ring_n (ring_of s4 e) \<le> DMA_BD_CNT + 2" using i4(2) by (simp add: idle_def)
  have sv4: "served s4 e" using q cb i4(5,8,11) d3 by (auto simp: served_def callbacks_def)
  have po4: "pool_ok s4" using a(7) pool_ok_pool[of s4 s] i4(7) d3(4) by simp
  have rx4: "EngType (Dma s3 e) AND DMA_ENG_DIRECTION_MASK = DMA_ENG_C2S \<longleftrightarrow> ?rx" using a(5) d3 by simp
  define s5 where "s5 = (if ?rx then DmaSetupRecvBuffers e s4 else s4)"
  obtain k where k: "if ?rx then k \<le> 3998 else k = 0" "rx_core k e s4 s5" "served s5 e" "pool_ok s5" "idle s5 e"
      "RunState (ring_of s5 e) = XST_DMA_SG_IS_STOPPED" "got k s4 s5"
  proof (cases ?rx)
    case True
    then have "rx_ready s4 e" using i4(2,11) n4 d3(7) by (simp add: rx_ready_def idle_def hwc)
    from setup_recv[OF sv4 this po4 n4] obtain k where k: "k \<le> unat (FreeCnt (ring_of s4 e)) - 2"
      "rx_core k e s4 (DmaSetupRecvBuffers e s4)" "served (DmaSetupRecvBuffers e s4) e"
      "rx_ready (DmaSetupRecvBuffers e s4) e" "pool_ok (DmaSetupRecvBuffers e s4)" "got k s4 (DmaSetupRecvBuffers e s4)" by blast
    have "unat (FreeCnt (ring_of s4 e)) = 4000" using group_lengths(4)[of "ring_of s4 e"] unfolding i4(3) by simp
    then have "k \<le> 3998" using k(1) by simp
    moreover have "idle (DmaSetupRecvBuffers e s4) e" by (rule rx_core_idle[OF i4(2) k(2,4)])
    moreover have "RunState (ring_of (DmaSetupRecvBuffers e s4) e) = XST_DMA_SG_IS_STOPPED" using k(2) i4(4) by (simp add: rx_core_def)
    ultimately show ?thesis using that[of k] k True by (simp add: s5_def)
  next
    case False
    then show ?thesis using that[of 0] i4 sv4 po4 by (simp add: s5_def rx_core_def)
  qed
  have G5: "ring_groups (ring_of s5 e) = \<lparr>gpost = [], ghw = [0..<k], gpre = [], gfree = [k..<4000]\<rparr>"
  proof -
    have "k \<le> 4000" using k(1) by (auto split: if_splits)
    then show ?thesis using k(2) i4(3) by (simp add: rx_core_def take_upt drop_upt)
  qed
  have u5: "user (Dma s5 e) = uptr" "\<forall>i. i \<noteq> e \<longrightarrow> Dma s5 i = Dma s i" "static s5 = static s"
    "IsRxChannel (ring_of s5 e) = IsRxChannel ?R"
    using k(2) i4(5,6,9,11) d3 by (auto simp: rx_core_def)
  have mv5: "moves (int k) (spin_lock DmaLock m) (hw s5)"
    using moves_trans0[OF i4(10)] k(2) d3(3) by (simp add: rx_core_def)
  define a5 where "a5 = set_eng e ((Dma s5 e)\<lparr>EngineState := USER_ASSIGNED\<rparr>) s5"
  define s6 where "s6 = a5\<lparr>userCount := userCount a5 + 1\<rparr>"
  have d6: "ring_of s6 e = ring_of s5 e" "hw s6 = hw s5" "Dma s6 = (Dma s5)(e := (Dma s5 e)\<lparr>EngineState := USER_ASSIGNED\<rparr>)"
    "usr s6 = usr s5" "pool s6 = pool s5" "static s6 = static s5"
    by (simp_all add: s6_def a5_def ring_of_def)
  have "AllCnt (ring_of s5 e) \<noteq> 0"
    using k(5) ring_invD(1) geom_n_pos[of "ring_of s5 e"] by (auto simp: idle_def ring_n_def)
  from Start_spec[OF this k(6), of "hw s6"] obtain m7 where st:
    "Dma_BdRingStart (ring_of s6 e) (hw s6) = (XST_SUCCESS, (ring_of s5 e)\<lparr>RunState := XST_DMA_SG_IS_STARTED\<rparr>, m7)"
    "moves 0 (hw s6) m7" by (auto simp: d6)
  define s7 where "s7 = set_ring e ((ring_of s5 e)\<lparr>RunState := XST_DMA_SG_IS_STARTED\<rparr>) (s6\<lparr>hw := m7\<rparr>)"
  define s8 where "s8 = (if TH_BH_ISR s7 then on_hw (Dma_mEngIntEnable (Dma s7 e)) s7 else s7)"
  define s' where "s' = on_hw (spin_unlock DmaLock) s8"
  have d': "Dma s' = Dma s7" "usr s' = usr s5" "pool s' = pool s5" "static s' = static s" "ring_of s' e = (ring_of s5 e)\<lparr>RunState := XST_DMA_SG_IS_STARTED\<rparr>"
    by (simp_all add: s'_def s8_def s7_def ring_of_def d6 u5)
  have run: "DmaRegister (int e) bar uptr sz s = Returned (Some e, s')"
  proof -
    have n: "\<not> (bar < 0 \<or> bar > 5)" "\<not> (int e < 0 \<or> int e \<ge> 64)" "nat (int e) = e" using bar a(2) by auto
    have s5': "descriptor_init e s3 = (0, s5)" using i4(1) rx4 by (simp add: s5_def)
    have "XST_SUCCESS \<noteq> XST_FAILURE" by (simp add: hwc)
    then show ?thesis unfolding DmaRegister_def Let_def
      by (simp only: n a(1,3,4) if_False if_True simp_thms s1_def[symmetric] c2 s3_def[symmetric] s5' prod.case a5_def[symmetric] s6_def[symmetric]
          st(1) s7_def[symmetric] s8_def[symmetric] s'_def[symmetric])
  qed
  have "moves 0 m7 (hw s8)" by (simp add: s8_def s7_def)
  then have "moves (int k) (spin_lock DmaLock m) (hw s8)"
    using moves_trans[OF mv5, of 0 "hw s8"] moves_trans0[OF st(2), of 0 "hw s8"] d6(2) by simp
  then have "moves (int k) (hw s) (hw s')" using moves_trans0[of "hw s" m "int k"] q moves_locked by (simp add: s'_def)
  moreover have "idle s' e" using k(5) by (simp add: idle_def d' ring_frame)
  moreover have "Dma s7 = (Dma s5)(e := (Dma s5 e)\<lparr>EngineState := USER_ASSIGNED, BdRing := (ring_of s5 e)\<lparr>RunState := XST_DMA_SG_IS_STARTED\<rparr>\<rparr>)"
    by (simp add: s7_def d6)
  moreover from this have "served s' e" using k(3) by (simp add: served_def d')
  moreover have "pool_ok s'" using k(4) pool_ok_pool[of s' s5] d'(3) by simp
  moreover have "got k s s'" using k(7) q i4(8) d3(2) d'(2) by (simp add: got_def)
  ultimately show ?thesis using run k(1) G5 u5
    by (intro exI[of _ k] exI[of _ s']) (simp add: d' ring_frame)
qed

text \<open>
  Unregistering returns every queued buffer to the application driver and leaves the engine
  available, so that registration can be repeated.
\<close>

lemma unregister_spec:
  assumes st: "DriverState s = INITIALIZED" "EngineState (Dma s e) = USER_ASSIGNED" "e < 64" "engine_present s e"
    "IsRxChannel (ring_of s e) \<noteq> 0 \<longleftrightarrow> EngType (Dma s e) AND DMA_ENG_DIRECTION_MASK = DMA_ENG_C2S"
    and sv: "served s e" and idl: "idle s e" and po: "pool_ok s" and hc: "HwCnt (ring_of s e) \<le> of_nat DMA_BD_CNT"
  defines "R \<equiv> ring_of s e" and "c \<equiv> ghw (ring_groups (ring_of s e))"
  shows "\<exists>s'. DmaUnregister (Some e) s = (0, s')
    \<and> (c \<noteq> [] \<longrightarrow> (\<exists>arr r m1 m2 u. put e arr (int (length c)) (privData (user (Dma s e))) (usr s, m1) = (r, u, m2)
         \<and> take (length c) arr = map (\<lambda>i. queued_pkt (hw s) (bd_addr R i)) c
         \<and> (\<forall>l. lock_depth l (evs m1) = lock_depth l (evs (hw s)))))
    \<and> ring_groups (ring_of s' e) = \<lparr>gpost = [], ghw = [], gpre = [], gfree = gfree (ring_groups R) @ c\<rparr>
    \<and> moves (- int (length c)) (hw s) (hw s') \<and> available s' e \<and> (\<forall>i. i \<noteq> e \<longrightarrow> Dma s' i = Dma s i)
    \<and> gave e (length c) s s' \<and> static s' = static s"
proof -
  define s1 where "s1 = on_hw (spin_lock DmaLock) s"
  define s2 where "s2 = set_eng e ((Dma s1 e)\<lparr>EngineState := UNREGISTERING\<rparr>) s1"
  obtain E m where rs: "Dma_Reset (Dma s2 e) (hw s2) = (E, m)" by (metis surj_pair)
  note Q = Dma_Reset_spec[OF rs]
  define s3 where "s3 = set_eng e E (s2\<lparr>hw := m\<rparr>)"
  define s4 where "s4 = on_hw (spin_unlock DmaLock) s3"
  have ring: "ring_of s4 e = R\<lparr>RunState := XST_DMA_SG_IS_STOPPED\<rparr>"
    using Q by (simp add: s4_def s3_def s2_def s1_def ring_of_def R_def)
  have d4: "Dma s4 = (Dma s)(e := E)" "usr s4 = usr s" "pool s4 = pool s" "static s4 = static s"
    by (simp_all add: s4_def s3_def s2_def s1_def)
  have E: "E = (Dma s e)\<lparr>EngineState := UNREGISTERING, BdRing := R\<lparr>RunState := XST_DMA_SG_IS_STOPPED\<rparr>\<rparr>"
    using Q by (simp add: s2_def s1_def R_def ring_of_def)
  have mem4: "mem (hw s4) = mem (hw s)" using Q by (simp add: s4_def s3_def s2_def s1_def)
  have mv4: "moves 0 (hw s) (hw s4)" using Q moves_locked[of 0 DmaLock "hw s" m] by (simp add: s4_def s3_def s2_def s1_def)
  have sv4: "served s4 e" using sv unfolding served_def ring by (simp add: d4 E R_def)
  have id4: "idle s4 e" using idl unfolding idle_def ring by (simp add: ring_frame R_def)
  have po4: "pool_ok s4" using po pool_ok_pool[OF d4(3)] by simp
  have hc4: "HwCnt (ring_of s4 e) \<le> of_nat DMA_BD_CNT" using hc unfolding ring by (simp add: R_def)
  have fr: "ring_groups (ring_of s4 e) = ring_groups R" "bd_addr (ring_of s4 e) = bd_addr R"
    unfolding ring by (simp_all add: ring_frame)
  have gg: "ghw (ring_groups (ring_of s4 e)) = c" by (simp add: fr c_def R_def)
  have qk: "queued_pkt (hw s4) = queued_pkt (hw s)" using pkt_mem(2)[OF mem4] by auto
  obtain s5 where f: "descriptor_free e s4 = s5"
    "c \<noteq> [] \<longrightarrow> (\<exists>arr r m1 m2 u. put e arr (int (length c)) (privData (user (Dma s4 e))) (usr s4, m1) = (r, u, m2)
         \<and> take (length c) arr = map (\<lambda>i. queued_pkt (hw s4) (bd_addr (ring_of s4 e) i)) c
         \<and> (\<forall>l. lock_depth l (evs m1) = lock_depth l (evs (hw s4))))"
    "ring_groups (ring_of s5 e) = \<lparr>gpost = [], ghw = [], gpre = [], gfree = gfree (ring_groups (ring_of s4 e)) @ c\<rparr>"
    "moves (- int (length c)) (hw s4) (hw s5)" "served s5 e" "pool_ok s5" "done_core e s4 s5"
    "\<exists>R. Dma s5 = (Dma s4)(e := (Dma s4 e)\<lparr>BdRing := R\<rparr>)" "gave e (length c) s4 s5"
    using descriptor_free_spec[OF sv4 id4 po4 hc4, unfolded gg] by blast
  have del: "c \<noteq> [] \<longrightarrow> (\<exists>arr r m1 m2 u. put e arr (int (length c)) (privData (user (Dma s e))) (usr s, m1) = (r, u, m2)
         \<and> take (length c) arr = map (\<lambda>i. queued_pkt (hw s) (bd_addr R i)) c
         \<and> (\<forall>l. lock_depth l (evs m1) = lock_depth l (evs (hw s))))"
  proof -
    have p: "privData (user (Dma s4 e)) = privData (user (Dma s e))" by (simp add: d4 E)
    have l: "\<And>l. lock_depth l (evs (hw s4)) = lock_depth l (evs (hw s))" using mv4 by (simp add: moves_def)
    show ?thesis using f(2) by (simp only: p d4(2) qk fr(2) l)
  qed
  define s6 where "s6 = on_hw (spin_lock DmaLock) s5"
  define s7 where "s7 = set_eng e ((Dma s6 e)\<lparr>EngineState := INITIALIZED\<rparr>) s6"
  define s' where "s' = on_hw (spin_unlock DmaLock) (s7\<lparr>userCount := userCount s7 - 1\<rparr>)"
  have run: "DmaUnregister (Some e) s = (0, s')"
    unfolding DmaUnregister_def Let_def
    by (simp only: st option.case simp_thms if_False s1_def[symmetric] s2_def[symmetric] rs prod.case s3_def[symmetric] s4_def[symmetric] f(1)
        s6_def[symmetric] s7_def[symmetric] s'_def[symmetric])
  have d': "ring_of s' e = ring_of s5 e" "usr s' = usr s5" "pool s' = pool s5" "hw s' = spin_unlock DmaLock (spin_lock DmaLock (hw s5))"
    "Dma s' = (Dma s5)(e := (Dma s5 e)\<lparr>EngineState := INITIALIZED\<rparr>)" "static s' = static s5"
    by (simp_all add: s'_def s7_def s6_def ring_of_def)
  have stat: "static s' = static s" using f(7) d4(4) d'(6) by (simp add: done_core_def)
  have "moves (- int (length c)) (hw s) (hw s')" using moves_trans0[OF mv4 f(4)] by (simp add: d' moves_def)
  moreover have oth: "\<forall>i. i \<noteq> e \<longrightarrow> Dma s' i = Dma s i" using f(8) by (auto simp: d' d4)
  moreover have "available s' e"
  proof -
    have "uinv (usr s')" using f(5) by (simp add: served_def d')
    moreover have "pool_ok s'" using f(6) pool_ok_pool[OF d'(3)] by simp
    moreover have "IsRxChannel (ring_of s' e) = IsRxChannel R" using f(7) unfolding d'(1) done_core_def ring by simp
    moreover have "EngType (Dma s' e) = EngType (Dma s e)" using f(8) by (auto simp: d' d4 E)
    moreover have "EngineState (Dma s' e) = INITIALIZED" by (simp add: d')
    ultimately show ?thesis using st staticD(1)[OF stat] staticD(2)[OF stat, of e] by (simp add: available_def R_def)
  qed
  moreover have "ring_groups (ring_of s' e) = \<lparr>gpost = [], ghw = [], gpre = [], gfree = gfree (ring_groups R) @ c\<rparr>"
    using f(3) by (simp add: d' fr)
  moreover have "gave e (length c) s s'" using f(9) got_same(3)[of s4 s] got_same(4)[of s' s5] d4(2) d'(2) by simp
  ultimately show ?thesis using run del stat by blast
qed

end

end
