(* ===== verification/XdmaIntr.thy ===== *)
theory XdmaIntr
  imports XdmaUser
begin

text \<open>
  Interrupts and timers of \<open>fc1553_dma/xdma/xdma_base.c\<close>: the interrupt handler \<open>DmaInterrupt\<close> and its
  check of every engine (\<open>IntrCheck\<close>), the bottom half \<open>IntrBH\<close>, and the timer routines
  \<open>poll_routine\<close> and \<open>poll_stats\<close>.
\<close>

section \<open>The interrupt handler\<close>

definition Acks :: "u32 \<Rightarrow> u32" where
  "Acks dirqval =
     (let retval = 0;
          retval = retval OR (if dirqval AND DMA_ENG_ENABLE_MASK \<noteq> 0 then DMA_ENG_ENABLE else 0);
          retval = retval OR (if dirqval AND DMA_ENG_INT_ACTIVE_MASK \<noteq> 0 then DMA_ENG_INT_ACK else 0);
          retval = retval OR (if dirqval AND DMA_ENG_INT_BDCOMP \<noteq> 0 then DMA_ENG_INT_BDCOMP_ACK else 0);
          retval = retval OR (if dirqval AND DMA_ENG_INT_ALERR \<noteq> 0 then DMA_ENG_INT_ALERR_ACK else 0);
          retval = retval OR (if dirqval AND DMA_ENG_INT_FETERR \<noteq> 0 then DMA_ENG_INT_FETERR_ACK else 0);
          retval = retval OR (if dirqval AND DMA_ENG_INT_ABORTERR \<noteq> 0 then DMA_ENG_INT_ABORTERR_ACK else 0);
          retval = retval OR (if dirqval AND DMA_ENG_INT_CHAINEND \<noteq> 0 then DMA_ENG_INT_CHAINEND_ACK else 0)
      in if dirqval AND DMA_ENG_INT_ACTIVE_MASK \<noteq> 0 then retval AND NOT DMA_ENG_INT_ENABLE else retval)"

text \<open>
  One engine of the two loops of \<open>IntrCheck\<close>; \<open>imask\<close> is the byte of the global interrupt register
  for the direction, \<open>base\<close> the first engine of the direction. The flag becomes true where the code
  sets \<open>retval = XST_SUCCESS\<close>.
\<close>

definition intr_check_s2c :: "u32 \<Rightarrow> nat \<Rightarrow> bool \<times> 'u drv \<Rightarrow> bool \<times> 'u drv" where
  "intr_check_s2c imask i = (\<lambda>(ok, s).
     if imask = 0 \<or> imask AND push_bit i 1 = 0 \<or> \<not> engine_present s i then (ok, s)
     else
       let (dirqval, m) = Dma_mGetCrSr (Dma s i) (hw s);
           s = s\<lparr>hw := m\<rparr>
       in if dirqval AND DMA_ENG_INT_ACTIVE_MASK \<noteq> 0 \<and> dirqval AND DMA_ENG_INT_ENABLE \<noteq> 0
          then let s = on_hw (spin_lock IntrLock) s;
                   s = on_hw (Dma_mSetCrSr (Dma s i) (Acks dirqval)) s;
                   s = (if dirqval AND DMA_ENG_INT_BDCOMP \<noteq> 0
                        then s\<lparr>PendingMask := PendingMask s OR push_bit i 1\<rparr> else s)
               in (True, on_hw (spin_unlock IntrLock) s)
          else (ok, s))"

definition intr_check_c2s :: "u32 \<Rightarrow> nat \<Rightarrow> bool \<times> 'u drv \<Rightarrow> bool \<times> 'u drv" where
  "intr_check_c2s imask i = (\<lambda>(ok, s).
     if imask = 0 \<or> imask AND push_bit (i - 32) 1 = 0 \<or> \<not> engine_present s i then (ok, s)
     else
       let (dirqval, m) = Dma_mGetCrSr (Dma s i) (hw s);
           s = s\<lparr>hw := m\<rparr>
       in if dirqval AND DMA_ENG_INT_ACTIVE_MASK \<noteq> 0 \<and> dirqval AND DMA_ENG_INT_ENABLE \<noteq> 0
          then let s = on_hw (spin_lock IntrLock) s;
                   s = on_hw (Dma_mEngIntAck (Dma s i) (Acks dirqval)) s;
                   s = (if dirqval AND DMA_ENG_INT_BDCOMP \<noteq> 0
                        then let s = on_hw (Dma_mEngIntDisable (Dma s i)) s
                             in s\<lparr>PendingMask := PendingMask s OR push_bit i 1\<rparr> else s)
               in (True, on_hw (spin_unlock IntrLock) s)
          else (ok, s))"

definition IntrCheck :: "'u drv \<Rightarrow> int \<times> 'u drv" where
  "IntrCheck s =
     (let base = baseVAddr s 0;
          (girqval, m) = Dma_mReadReg base REG_DMA_CTRL_STATUS (hw s);
          s = s\<lparr>hw := m\<rparr>;
          imask = drop_bit 16 (girqval AND DMA_S2C_ENG_INT_VAL);
          (ok, s) = fold (intr_check_s2c imask) [0..<7] (False, s);
          imask = drop_bit 24 (girqval AND DMA_C2S_ENG_INT_VAL);
          (ok, s) = fold (intr_check_c2s imask) [32..<39] (ok, s);
          s = on_hw (spin_lock IntrLock) s;
          s = (if PendingMask s \<noteq> 0 \<and> ok then s\<lparr>DmaBH := True\<rparr> else s);
          s = on_hw (spin_unlock IntrLock) s
      in (if ok then XST_SUCCESS else XST_FAILURE, s))"

definition DmaInterrupt :: "'u drv \<Rightarrow> bool \<times> 'u drv" where
  "DmaInterrupt s = (let (r, s) = IntrCheck s in (r = XST_SUCCESS, s))"

section \<open>The bottom half\<close>

definition intr_bh_one :: "nat \<Rightarrow> 'u drv \<Rightarrow> 'u drv" where
  "intr_bh_one i s =
     (if PendingMask s = 0 \<or> PendingMask s AND push_bit i 1 = 0 then s
      else
        let s = on_hw (spin_lock IntrLock) s;
            s = s\<lparr>PendingMask := PendingMask s AND NOT (push_bit i 1)\<rparr>;
            s = on_hw (spin_unlock IntrLock) s
        in if EngineState (Dma s i) \<noteq> USER_ASSIGNED then s
           else
             let s = PktHandler i s;
                 s = on_hw (spin_lock IntrLock) s;
                 s = on_hw (Dma_mEngIntEnable (Dma s i)) s;
                 s = s\<lparr>LastIntr := (LastIntr s)(i := jiffies s)\<rparr>
             in on_hw (spin_unlock IntrLock) s)"

definition IntrBH :: "'u drv \<Rightarrow> 'u drv" where
  "IntrBH s = fold intr_bh_one [0..<MAX_DMA_ENGINES] s"

section \<open>The timer routines\<close>

definition poll_one :: "nat \<Rightarrow> 'u drv \<Rightarrow> 'u drv" where
  "poll_one i s =
     (if TH_BH_ISR s \<and> jiffies s < LastIntr s i + HZ s div 50 then s
      else if \<not> engine_present s i then s
      else if EngineState (Dma s i) \<noteq> USER_ASSIGNED then s
      else PktHandler i s)"

definition poll_routine :: "'u drv \<Rightarrow> 'u drv" where
  "poll_routine s =
     (if DriverState s = UNREGISTERING then s
      else
        let s = fold poll_one [0..<MAX_DMA_ENGINES] s;
            offset = (if TH_BH_ISR s then HZ s div 50 else 0)
        in s\<lparr>poll_timer := Some (jiffies s + offset)\<rparr>)"

text \<open>The hardware counts in words; the two low bits of a counter are a sequence number.\<close>

definition bytes_of :: "u32 \<Rightarrow> u32" where
  "bytes_of v = 4 * drop_bit 2 v"

definition poll_stats_one :: "nat \<Rightarrow> 'u drv \<Rightarrow> 'u drv" where
  "poll_stats_one i s =
     (if \<not> engine_present s i then s
      else
        let base = ChanBase (ring_of s i);
            s = on_hw (spin_lock DmaStatsLock) s;
            (at, m) = Dma_mReadReg base REG_DMA_ENG_ACTIVE_TIME (hw s);
            (wt, m) = Dma_mReadReg base REG_DMA_ENG_WAIT_TIME m;
            (cb, m) = Dma_mReadReg base REG_DMA_ENG_COMP_BYTES m;
            s = s\<lparr>hw := m\<rparr>;
            d = statsArr (DStats s i) ! statsWrite (DStats s i);
            d = d\<lparr>D_LAT := bytes_of at, D_LWT := bytes_of wt, D_LBR := bytes_of cb\<rparr>;
            s = s\<lparr>DStats := (DStats s)(i := stats_put d (DStats s i))\<rparr>;
            t1 = SWrate s i;
            w = (statsArr (SStats s i) ! statsWrite (SStats s i))\<lparr>S_LBR := t1\<rparr>;
            s = s\<lparr>SWrate := (SWrate s)(i := 0)\<rparr>;
            s = s\<lparr>SStats := (SStats s)(i := stats_put w (SStats s i))\<rparr>
        in on_hw (spin_unlock DmaStatsLock) s)"

definition poll_stats :: "'u drv \<Rightarrow> 'u drv" where
  "poll_stats s =
     (if DriverState s = UNREGISTERING then s
      else
        let s = fold poll_stats_one [0..<MAX_DMA_ENGINES] s;
            base = baseVAddr s 0;
            (t1, m) = XIo_In32 (base + 0x900c) (hw s);
            (t2, m) = XIo_In32 (base + 0x9010) m;
            t = (statsArr (TStats s) ! statsWrite (TStats s))\<lparr>T_LTX := bytes_of t1, T_LRX := bytes_of t2\<rparr>;
            s = s\<lparr>TStats := stats_put t (TStats s)\<rparr>;
            (t1, m) = XIo_In32 (base + 0x9014) m;
            (t2, m) = XIo_In32 (base + 0x9018) m;
            s = s\<lparr>hw := m\<rparr>
        in s\<lparr>stats_timer := Some (jiffies s + HZ s - 3)\<rparr>)"

section \<open>Acknowledgements\<close>

text \<open>
  The value written back keeps the engine-enable bit and every interrupt cause that was seen, and
  drops everything else, in particular the interrupt-enable bit.
\<close>

lemma single_bit: "w = push_bit i 1 \<Longrightarrow> (if d AND w \<noteq> 0 then w else 0) = d AND (w :: u32)"
proof -
  assume w: "w = push_bit i 1"
  have "d AND push_bit i 1 = (if bit d i then push_bit i 1 else 0)" by (rule bit_word_eqI) (auto simp: bit_simps)
  then show ?thesis by (auto simp: w split: if_splits)
qed

lemma Acks_mask: "Acks d = d AND 0x1BE"
proof -
  have m: "(if d AND 0x100 \<noteq> 0 then 0x100 else 0) = d AND 0x100" "(if d AND 0x2 \<noteq> 0 then 0x2 else 0) = d AND 0x2"
    "(if d AND 0x4 \<noteq> 0 then 0x4 else 0) = d AND 0x4" "(if d AND 0x8 \<noteq> 0 then 0x8 else 0) = d AND 0x8"
    "(if d AND 0x10 \<noteq> 0 then 0x10 else 0) = d AND 0x10" "(if d AND 0x20 \<noteq> 0 then 0x20 else 0) = d AND 0x20"
    "(if d AND 0x80 \<noteq> 0 then 0x80 else 0) = d AND 0x80"
    using single_bit[of "0x100" 8 d] single_bit[of "0x2" 1 d] single_bit[of "0x4" 2 d] single_bit[of "0x8" 3 d]
      single_bit[of "0x10" 4 d] single_bit[of "0x20" 5 d] single_bit[of "0x80" 7 d] by simp_all
  have o: "((((((0 OR (d AND 0x100)) OR (d AND 0x2)) OR (d AND 0x4)) OR (d AND 0x8)) OR (d AND 0x10)) OR (d AND 0x20)) OR (d AND 0x80)
      = d AND 0x1BE"
    by (simp flip: bit.conj_disj_distrib)
  show ?thesis unfolding Acks_def Let_def hwc m o by (simp add: and.assoc)
qed

section \<open>What packet handling leaves alone\<close>

lemma PutUnusedPkts_aux [simp]: "aux (PutUnusedPkts e pp n s) = aux s" "static (PutUnusedPkts e pp n s) = static s"
  by (simp_all add: PutUnusedPkts_def Let_def)

lemma recv_round_aux [simp]: "aux (snd (recv_round e pp n s)) = aux s" "static (snd (recv_round e pp n s)) = static s"
proof -
  obtain r pkts t where g: "call_UserGetPkt e (pool_arr s pp) n s = (r, pkts, t)" by (metis prod_cases3)
  have f: "aux t = aux s" "static t = static s" using call_frame(3,4)[of e "pool_arr s pp" n s] g by simp_all
  show "aux (snd (recv_round e pp n s)) = aux s" "static (snd (recv_round e pp n s)) = static s"
    by (simp_all add: recv_round_def g Let_def f split: prod.split option.split)
qed

lemma recv_loop_aux [simp]: "aux (recv_loop k e pp n s) = aux s" "static (recv_loop k e pp n s) = static s"
proof -
  have "aux (recv_loop k e pp n s) = aux s \<and> static (recv_loop k e pp n s) = static s"
  proof (induction k arbitrary: n s)
    case (Suc k)
    obtain r t where r: "recv_round e pp n s = (r, t)" by (metis surj_pair)
    have "aux t = aux s" "static t = static s" using recv_round_aux[of e pp n s] r by simp_all
    then show ?case using Suc.IH by (cases r) (simp_all add: r Let_def)
  qed simp
  then show "aux (recv_loop k e pp n s) = aux s" "static (recv_loop k e pp n s) = static s" by simp_all
qed

lemma setup_aux [simp]: "aux (DmaSetupRecvBuffers e s) = aux s" "static (DmaSetupRecvBuffers e s) = static s"
proof -
  obtain pp t where d: "dq_pool s = (pp, t)" by (metis surj_pair)
  have f: "aux t = aux s" "static t = static s" using call_frame(5,6)[of s] d by simp_all
  show "aux (DmaSetupRecvBuffers e s) = aux s" "static (DmaSetupRecvBuffers e s) = static s"
    by (simp_all add: DmaSetupRecvBuffers_def d Let_def f split: option.split)
qed

lemma handle_done_aux [simp]: "aux (snd (handle_done e k p s)) = aux s" "static (snd (handle_done e k p s)) = static s"
proof -
  obtain pp t where d: "dq_pool s = (pp, t)" by (metis surj_pair)
  have f: "aux t = aux s" "static t = static s" using call_frame(5,6)[of s] d by simp_all
  show "aux (snd (handle_done e k p s)) = aux s" "static (snd (handle_done e k p s)) = static s"
    by (simp_all add: handle_done_def d Let_def f split: option.split prod.split)
qed

lemma PktHandler_aux [simp]: "aux (PktHandler e s) = aux s" "static (PktHandler e s) = static s"
proof -
  let ?s = "on_hw (spin_lock DmaLock) s"
  obtain n R p where f: "Dma_BdRingFromHw (ring_of ?s e) (of_nat DMA_BD_CNT) (hw ?s) = (n, R, p)" by (metis prod_cases3)
  obtain go t where g: "(if n > 0 then handle_done e (unat n) p (set_ring e R ?s) else (True, set_ring e R ?s)) = (go, t)"
    by (metis surj_pair)
  have t: "aux t = aux s" "static t = static s"
  proof -
    have "t = snd (if n > 0 then handle_done e (unat n) p (set_ring e R ?s) else (True, set_ring e R ?s))" using g by simp
    then show "aux t = aux s" "static t = static s" by simp_all
  qed
  have "PktHandler e s = (if go then on_hw (spin_unlock DmaLock)
      (if IsRxChannel (ring_of t e) \<noteq> 0 then DmaSetupRecvBuffers e t else t) else t)"
    unfolding PktHandler_def Let_def f prod.case g by (rule refl)
  then show "aux (PktHandler e s) = aux s" "static (PktHandler e s) = static s" by (simp_all add: t)
qed

section \<open>The kind of an engine never changes\<close>

definition eng_kind :: "'u drv \<Rightarrow> nat \<Rightarrow> u32" where
  "eng_kind s i = EngType (Dma s i)"

lemma kind_frame [simp]:
  "eng_kind (on_hw f s) = eng_kind s" "eng_kind (set_ring e R s) = eng_kind s"
  "eng_kind (s\<lparr>hw := m\<rparr>) = eng_kind s" "eng_kind (s\<lparr>usr := u\<rparr>) = eng_kind s" "eng_kind (s\<lparr>pool := P\<rparr>) = eng_kind s"
  "eng_kind (s\<lparr>SWrate := r\<rparr>) = eng_kind s" "eng_kind (set_pool_arr pp xs s) = eng_kind s"
  "eng_kind (set_eng e ((Dma s e)\<lparr>intrCount := ic\<rparr>) s) = eng_kind s"
  "eng_kind (snd (dq_pool s)) = eng_kind s" "eng_kind (eq_pool pp s) = eng_kind s"
  "eng_kind (call_UserPutPkt e p n s) = eng_kind s" "eng_kind (snd (snd (call_UserGetPkt e p n s))) = eng_kind s"
  by (simp_all add: fun_eq_iff eng_kind_def set_pool_arr_def dq_pool_def eq_pool_def call_UserPutPkt_def
      call_UserGetPkt_def Let_def split_beta split: option.splits)

lemma PutUnusedPkts_kind [simp]: "eng_kind (PutUnusedPkts e pp n s) = eng_kind s"
  by (simp add: PutUnusedPkts_def Let_def)

lemma recv_round_kind [simp]: "eng_kind (snd (recv_round e pp n s)) = eng_kind s"
proof -
  obtain r ps t where g: "call_UserGetPkt e (pool_arr s pp) n s = (r, ps, t)" by (metis prod_cases3)
  have f: "eng_kind t = eng_kind s" using kind_frame(12)[of e "pool_arr s pp" n s] g by simp
  show ?thesis using kind_frame(8)[where s = "set_pool_arr pp ps t"]
    by (simp add: recv_round_def g Let_def f split: prod.split option.split)
qed

lemma recv_loop_kind [simp]: "eng_kind (recv_loop k e pp n s) = eng_kind s"
proof (induction k arbitrary: n s)
  case (Suc k)
  obtain r t where r: "recv_round e pp n s = (r, t)" by (metis surj_pair)
  have "eng_kind t = eng_kind s" using recv_round_kind[of e pp n s] r by simp
  then show ?case using Suc.IH by (cases r) (simp_all add: r Let_def)
qed simp

lemma setup_kind [simp]: "eng_kind (DmaSetupRecvBuffers e s) = eng_kind s"
proof -
  obtain pp t where d: "dq_pool s = (pp, t)" by (metis surj_pair)
  have "eng_kind t = eng_kind s" using kind_frame(9)[of s] d by simp
  then show ?thesis by (simp add: DmaSetupRecvBuffers_def d Let_def split: option.split)
qed

lemma handle_done_kind [simp]: "eng_kind (snd (handle_done e k p s)) = eng_kind s"
proof -
  obtain pp t where d: "dq_pool s = (pp, t)" by (metis surj_pair)
  have "eng_kind t = eng_kind s" using kind_frame(9)[of s] d by simp
  then show ?thesis by (simp add: handle_done_def d Let_def split: option.split prod.split)
qed

lemma PktHandler_kind [simp]: "eng_kind (PktHandler e s) = eng_kind s"
proof -
  let ?s = "on_hw (spin_lock DmaLock) s"
  obtain n R p where f: "Dma_BdRingFromHw (ring_of ?s e) (of_nat DMA_BD_CNT) (hw ?s) = (n, R, p)" by (metis prod_cases3)
  obtain go t where g: "(if n > 0 then handle_done e (unat n) p (set_ring e R ?s) else (True, set_ring e R ?s)) = (go, t)"
    by (metis surj_pair)
  have "t = snd (if n > 0 then handle_done e (unat n) p (set_ring e R ?s) else (True, set_ring e R ?s))" using g by simp
  then have t: "eng_kind t = eng_kind s" by simp
  have "PktHandler e s = (if go then on_hw (spin_unlock DmaLock)
      (if IsRxChannel (ring_of t e) \<noteq> 0 then DmaSetupRecvBuffers e t else t) else t)"
    unfolding PktHandler_def Let_def f prod.case g by (rule refl)
  then show ?thesis by (simp add: t)
qed

section \<open>The bottom half serves every pending engine\<close>

lemma auxD: "aux s' = aux s \<Longrightarrow> PendingMask s' = PendingMask s" "aux s' = aux s \<Longrightarrow> LastIntr s' = LastIntr s"
  "aux s' = aux s \<Longrightarrow> jiffies s' = jiffies s" "aux s' = aux s \<Longrightarrow> HZ s' = HZ s"
  by (simp_all add: aux_def)

lemma mask_clear_idem: "w AND push_bit i 1 = 0 \<Longrightarrow> w AND NOT (push_bit i 1) = (w :: u64)"
proof -
  assume w: "w AND push_bit i 1 = 0"
  show ?thesis
  proof (rule bit_word_eqI)
    fix n assume n: "n < LENGTH(64)"
    have "\<not> (bit w n \<and> bit (push_bit i (1 :: u64)) n)" using arg_cong[OF w, of "\<lambda>x. bit x n"] by (simp add: bit_and_iff)
    then show "bit (w AND NOT (push_bit i 1)) n = bit w n" using n by (auto simp: bit_and_iff bit_not_iff)
  qed
qed

lemma pending_on_hw [simp]: "PendingMask (on_hw f s) = PendingMask s"
  by (simp add: on_hw_def)

lemma bh_one_pending: "PendingMask (intr_bh_one i s) = PendingMask s AND NOT (push_bit i 1)"
proof (cases "PendingMask s = 0 \<or> PendingMask s AND push_bit i 1 = 0")
  case True
  then show ?thesis using mask_clear_idem[of "PendingMask s" i] by (auto simp: intr_bh_one_def)
next
  case False
  define t where "t = on_hw (spin_unlock IntrLock) ((on_hw (spin_lock IntrLock) s)\<lparr>PendingMask := PendingMask s AND NOT (push_bit i 1)\<rparr>)"
  have p: "PendingMask (PktHandler i t) = PendingMask s AND NOT (push_bit i 1)"
    using auxD(1)[OF PktHandler_aux(1), of i t] by (simp add: t_def)
  have "intr_bh_one i s = (if EngineState (Dma t i) \<noteq> USER_ASSIGNED then t
      else on_hw (spin_unlock IntrLock) ((on_hw (Dma_mEngIntEnable (Dma (on_hw (spin_lock IntrLock) (PktHandler i t)) i))
        (on_hw (spin_lock IntrLock) (PktHandler i t)))\<lparr>LastIntr := (LastIntr (on_hw (Dma_mEngIntEnable (Dma (on_hw (spin_lock IntrLock) (PktHandler i t)) i))
        (on_hw (spin_lock IntrLock) (PktHandler i t))))(i := jiffies (on_hw (Dma_mEngIntEnable (Dma (on_hw (spin_lock IntrLock) (PktHandler i t)) i))
        (on_hw (spin_lock IntrLock) (PktHandler i t))))\<rparr>))"
    using False by (simp add: intr_bh_one_def Let_def t_def)
  then show ?thesis using p by (simp add: t_def)
qed

lemma bh_pending: "bit (PendingMask (fold intr_bh_one is s)) j \<longleftrightarrow> bit (PendingMask s) j \<and> j \<notin> set is"
proof (induction "is" arbitrary: s)
  case (Cons i "is")
  have "bit (push_bit i (1 :: u64)) j \<longleftrightarrow> j = i \<and> j < 64" by (auto simp: bit_simps)
  then show ?case using Cons[of "intr_bh_one i s"] bit_imp_le_length[of "PendingMask s" j]
    by (auto simp: bh_one_pending bit_and_iff bit_not_iff)
qed simp

lemma IntrBH_clears: "PendingMask (IntrBH s) = 0"
proof (rule bit_word_eqI)
  fix j assume "j < LENGTH(64)"
  then show "bit (PendingMask (IntrBH s)) j = bit (0 :: u64) j" by (simp add: IntrBH_def bh_pending hwc)
qed

section \<open>What the handler changes\<close>

definition intr_frame :: "nat set \<Rightarrow> 'u drv \<Rightarrow> 'u drv \<Rightarrow> bool" where
  "intr_frame J s t \<longleftrightarrow> Dma t = Dma s \<and> usr t = usr s \<and> pool t = pool s \<and> static t = static s
     \<and> moves 0 (hw s) (hw t) \<and> mem (hw t) = mem (hw s)
     \<and> (\<forall>j. bit (PendingMask t) j \<longleftrightarrow> bit (PendingMask s) j \<or> (j \<in> J \<and> bit (PendingMask t) j))
     \<and> (\<forall>j\<in>J. bit (PendingMask t) j \<longrightarrow> bit (PendingMask s) j \<or> engine_present s j)"

lemma intr_frame_refl [simp]: "intr_frame J s s"
  by (auto simp: intr_frame_def)

lemma intr_frame_trans: "intr_frame J s t \<Longrightarrow> intr_frame K t u \<Longrightarrow> intr_frame (J \<union> K) s u"
  unfolding intr_frame_def using moves_trans0[of "hw s" "hw t" 0 "hw u"] staticD(2)[of t s] by (simp, blast)

lemma static_pending [simp]: "static (s\<lparr>PendingMask := p\<rparr>) = static s"
  by (simp add: static_def)

lemma bit_or_push: "bit (w OR push_bit i 1) j \<longleftrightarrow> bit (w :: u64) j \<or> (j = i \<and> i < 64)"
  by (auto simp: bit_simps)

lemma bit_or_power: "bit (w OR 2 ^ i) j \<longleftrightarrow> bit (w :: u64) j \<or> (j = i \<and> i < 64)"
  using bit_or_push[of w i j] by simp

lemma check_s2c_frame: "intr_frame {i} s (snd (intr_check_s2c k i (ok, s)))"
proof (cases "k = 0 \<or> k AND push_bit i 1 = 0 \<or> \<not> engine_present s i")
  case True
  then show ?thesis by (auto simp: intr_check_s2c_def)
next
  case False
  then have p: "engine_present s i" by simp
  show ?thesis using False p
    by (auto simp: intr_check_s2c_def Let_def split_beta intr_frame_def moves_def Dma_mGetCrSr_def Dma_mSetCrSr_def bit_or_power)
qed

lemma check_c2s_frame: "intr_frame {i} s (snd (intr_check_c2s k i (ok, s)))"
proof (cases "k = 0 \<or> k AND push_bit (i - 32) 1 = 0 \<or> \<not> engine_present s i")
  case True
  then show ?thesis by (auto simp: intr_check_c2s_def)
next
  case False
  then have p: "engine_present s i" by simp
  show ?thesis using False p
    by (auto simp: intr_check_c2s_def Let_def split_beta intr_frame_def moves_def Dma_mGetCrSr_def Dma_mSetCrSr_def
        Dma_mEngIntAck_def Dma_mEngIntDisable_def bit_or_power)
qed

lemma fold_frame:
  assumes "\<And>i ok s. intr_frame {i} s (snd (f i (ok, s)))"
  shows "intr_frame (set is) s (snd (fold f is (ok, s)))"
proof (induction "is" arbitrary: ok s)
  case (Cons i "is")
  obtain ok' t where t: "f i (ok, s) = (ok', t)" by (metis surj_pair)
  have "intr_frame {i} s t" using assms[of i s ok] t by simp
  from intr_frame_trans[OF this Cons[of t ok']] show ?case by (simp add: t)
qed simp

lemma IntrCheck_frame: "intr_frame ({0..<7} \<union> {32..<39}) s (snd (IntrCheck s))"
proof -
  obtain g m where g: "Dma_mReadReg (baseVAddr s 0) REG_DMA_CTRL_STATUS (hw s) = (g, m)" by (metis surj_pair)
  define s1 where "s1 = s\<lparr>hw := m\<rparr>"
  have "m = snd (Dma_mReadReg (baseVAddr s 0) REG_DMA_CTRL_STATUS (hw s))" by (simp add: g)
  then have 1: "intr_frame {} s s1" by (auto simp: intr_frame_def s1_def moves_def)
  define a where "a = drop_bit 16 (g AND DMA_S2C_ENG_INT_VAL)"
  define b where "b = drop_bit 24 (g AND DMA_C2S_ENG_INT_VAL)"
  obtain ok2 s2 where s2: "fold (intr_check_s2c a) [0..<7] (False, s1) = (ok2, s2)" by (metis surj_pair)
  have 2: "intr_frame {0..<7} s1 s2" using fold_frame[of "intr_check_s2c a" "[0..<7]" s1 False, OF check_s2c_frame] unfolding s2 snd_conv set_upt .
  obtain ok3 s3 where s3: "fold (intr_check_c2s b) [32..<39] (ok2, s2) = (ok3, s3)" by (metis surj_pair)
  have 3: "intr_frame {32..<39} s2 s3" using fold_frame[of "intr_check_c2s b" "[32..<39]" s2 ok2, OF check_c2s_frame] unfolding s3 snd_conv set_upt .
  have 4: "intr_frame {} s3 (snd (IntrCheck s))"
  proof -
    define t where "t = on_hw (spin_lock IntrLock) s3"
    have "snd (IntrCheck s) = on_hw (spin_unlock IntrLock) (if PendingMask t \<noteq> 0 \<and> ok3 then t\<lparr>DmaBH := True\<rparr> else t)"
      unfolding IntrCheck_def Let_def g prod.case s1_def[symmetric] a_def[symmetric] s2 b_def[symmetric] s3 t_def[symmetric] by simp
    then show ?thesis by (auto simp: intr_frame_def t_def moves_def static_def on_hw_def)
  qed
  show ?thesis using intr_frame_trans[OF intr_frame_trans[OF intr_frame_trans[OF 1 2] 3] 4] by simp
qed

section \<open>The time test of the polling routine\<close>

lemma poll_one_skips:
  "TH_BH_ISR s \<Longrightarrow> jiffies s < LastIntr s i + HZ s div 50 \<Longrightarrow> poll_one i s = s"
  by (simp add: poll_one_def)

end
