(* ===== verification/XdmaProbe.thy ===== *)
theory XdmaProbe
  imports XdmaIntr
begin

text \<open>
  The life of the board in \<open>fc1553_dma/xdma/xdma_base.c\<close>: \<open>xdma_probe\<close> with the enumeration of the DMA
  engines, \<open>xdma_remove\<close>, \<open>xdma_cleanup\<close>, and opening and closing of the device file.
\<close>

section \<open>The kernel's side\<close>

text \<open>
  What the kernel answers to the calls of \<open>xdma_probe\<close>. An \<open>ioremap\<close> result of 0 is a failure;
  \<open>chrdev_ret\<close>, \<open>cdev_err\<close>, \<open>cdev_ret\<close> are the outcomes of registering the device file (an error
  pointer of \<open>cdev_alloc\<close> is \<open>cdev_err\<close>), and a result at least -4095 and below 0 is an error.
\<close>

record pci_env =
  enable_ret :: int
  kmalloc_ok :: bool
  regions_ret :: int
  dma_mask_ret :: int
  resource_len :: "nat \<Rightarrow> u32"
  resource_mem :: "nat \<Rightarrow> bool"
  ioremap :: "nat \<Rightarrow> u32"
  chrdev_ret :: int
  cdev_err :: bool
  cdev_ret :: int
  msi_ret :: int

text \<open>
  What the driver obtains from the kernel and gives back, newest event first; a call of \<open>kfree\<close> is
  recorded whether or not the memory is still allocated.
\<close>

datatype pci_event = EnableDevice | DisableDevice | RequestRegions | ReleaseRegions | Kmalloc | Kfree
  | Ioremap nat | Iounmap nat | AddCdev | DelCdev | RequestIrq | FreeIrq | EnableMsi | DisableMsi

text \<open>\<open>dmaData_set\<close>: the pointer \<open>dmaData\<close> is not \<open>NULL\<close>.\<close>

record pci_st =
  pci_log :: "pci_event list"
  dmaData_set :: bool
  xdmaCdev_set :: bool
  MSIEnabled :: bool

definition pci_ev :: "pci_event \<Rightarrow> pci_st \<Rightarrow> pci_st" where
  "pci_ev e k = k\<lparr>pci_log := e # pci_log k\<rparr>"

definition is_err :: "int \<Rightarrow> bool" where
  "is_err r \<longleftrightarrow> - 4095 \<le> r \<and> r < 0"

section \<open>Enumerating the engines\<close>

definition DMA_OFFSET :: u32 where [hwc]: "DMA_OFFSET = 0"
definition DMA_ENGINE_PER_SIZE :: u32 where [hwc]: "DMA_ENGINE_PER_SIZE = 0x100"

definition read_engine :: "nat \<Rightarrow> 'u drv \<Rightarrow> 'u drv" where
  "read_engine i s =
     (let base = baseVAddr s 0;
          offset = DMA_OFFSET + of_nat i * DMA_ENGINE_PER_SIZE;
          (val, m) = Dma_mReadReg (base + offset) REG_DMA_ENG_CAP (hw s);
          s = s\<lparr>hw := m\<rparr>
      in if val AND DMA_ENG_PRESENT_MASK \<noteq> 0
         then let dirn = val AND DMA_ENG_DIRECTION_MASK;
                  type = val AND DMA_ENG_TYPE_MASK
              in if type \<noteq> DMA_ENG_PACKET then s
                 else let (E, m) = Dma_Initialize (base + offset) dirn (hw s);
                          s = set_eng i E (s\<lparr>hw := m\<rparr>)
                      in s\<lparr>engineMask := engineMask s OR push_bit i 1\<rparr>
         else s)"

definition ReadDMAEngineConfiguration :: "'u drv \<Rightarrow> 'u drv" where
  "ReadDMAEngineConfiguration s =
     (let (v, m) = XIo_In32 (baseVAddr s 0 + 0x8000) (hw s)
      in fold read_engine [0..<MAX_DMA_ENGINES] (s\<lparr>hw := m\<rparr>))"

section \<open>Probing\<close>

definition pci_abort :: "pci_st \<Rightarrow> pci_st" where
  "pci_abort k = pci_ev DisableDevice (pci_ev Kfree (pci_ev ReleaseRegions k))"

text \<open>The BAR loop; \<open>False\<close> where the code aborts.\<close>

fun probe_bars :: "pci_env \<Rightarrow> nat list \<Rightarrow> 'u drv \<times> pci_st \<Rightarrow> bool \<times> 'u drv \<times> pci_st" where
  "probe_bars p [] (s, k) = (True, s, k)"
| "probe_bars p (i # is) (s, k) =
     (if resource_len p i = 0
      then (if i = 0 then (False, s, pci_abort k) else probe_bars p is (s, k))
      else
        let s = s\<lparr>barMask := barMask s OR push_bit i 1\<rparr>
        in if \<not> resource_mem p i then (False, s, pci_abort k)
        else
          let s = s\<lparr>baseVAddr := (baseVAddr s)(i := ioremap p i)\<rparr>
          in if ioremap p i = 0
             then probe_bars p is (s\<lparr>barMask := barMask s AND NOT (push_bit i 1)\<rparr>, k)
             else probe_bars p is (s, pci_ev (Ioremap i) k))"

text \<open>Registration of the device file; the result is the code's \<open>chrRet\<close>.\<close>

definition probe_cdev :: "pci_env \<Rightarrow> pci_st \<Rightarrow> int \<times> pci_st" where
  "probe_cdev p k =
     (if is_err (chrdev_ret p) then (chrdev_ret p, k)
      else if cdev_err p then (- 1, k\<lparr>xdmaCdev_set := True\<rparr>)
      else (cdev_ret p, (if cdev_ret p < 0 then k\<lparr>xdmaCdev_set := True\<rparr>
                         else pci_ev AddCdev (k\<lparr>xdmaCdev_set := True\<rparr>))))"

definition reset_stats :: "'u drv \<Rightarrow> 'u drv" where
  "reset_stats s =
     s\<lparr>DStats := (\<lambda>i. if i < MAX_DMA_ENGINES then stats_reset (DStats s i) else DStats s i),
       SStats := (\<lambda>i. if i < MAX_DMA_ENGINES then stats_reset (SStats s i) else SStats s i),
       SWrate := (\<lambda>i. if i < MAX_DMA_ENGINES then 0 else SWrate s i), TStats := stats_reset (TStats s)\<rparr>"

definition xdma_probe :: "pci_env \<Rightarrow> 'u drv \<times> pci_st \<Rightarrow> int \<times> 'u drv \<times> pci_st" where
  "xdma_probe p = (\<lambda>(s, k).
     if enable_ret p < 0 then (enable_ret p, s, k)
     else
       let k = pci_ev EnableDevice k;
           s = s\<lparr>pool := init_pools (pool s)\<rparr>
       in if \<not> kmalloc_ok p then (XST_FAILURE, s, pci_ev DisableDevice (k\<lparr>dmaData_set := False\<rparr>))
       else
         let k = pci_ev Kmalloc (k\<lparr>dmaData_set := True\<rparr>);
             s = s\<lparr>barMask := 0, engineMask := 0, userCount := 0\<rparr>
         in if regions_ret p < 0 then (regions_ret p, s, pci_ev DisableDevice (pci_ev Kfree k))
         else
           let k = pci_ev RequestRegions k
           in if dma_mask_ret p < 0 then (dma_mask_ret p, s, pci_abort k)
           else
             let (ok, s, k) = probe_bars p [0..<MAX_BARS] (s, k)
             in if \<not> ok then (XST_FAILURE, s, k)
             else
               let s = on_hw (Dma_mIntDisable (baseVAddr s 0)) s;
                   s = ReadDMAEngineConfiguration s;
                   (chrRet, k) = probe_cdev p k;
                   s = (if \<not> is_err chrRet
                        then let s = reset_stats s in s\<lparr>stats_timer := Some (jiffies s + HZ s)\<rparr> else s);
                   s = s\<lparr>DriverState := INITIALIZED\<rparr>;
                   s = s\<lparr>poll_timer := Some (jiffies s + HZ s div 500)\<rparr>;
                   (s, k) = (if TH_BH_ISR s
                     then let k = (if msi_ret p = 0 then pci_ev EnableMsi (k\<lparr>MSIEnabled := True\<rparr>) else k);
                              k = pci_ev RequestIrq k;
                              s = s\<lparr>LastIntr := (\<lambda>i. if i < MAX_DMA_ENGINES then jiffies s else LastIntr s i)\<rparr>;
                              s = on_hw (Dma_mIntEnable (baseVAddr s 0)) s
                          in (s, k)
                     else (s, k))
               in (0, s, k))"

section \<open>Removal\<close>

definition AXI_MIG_RST_SHIFT :: nat where [hwc]: "AXI_MIG_RST_SHIFT = 1"

definition reset_one :: "nat \<Rightarrow> 'u drv \<Rightarrow> 'u drv" where
  "reset_one i s =
     (if engine_present s i
      then let (E, m) = Dma_Reset (Dma s i) (hw s) in set_eng i E (s\<lparr>hw := m\<rparr>)
      else s)"

definition unmap_bar :: "u32 \<Rightarrow> nat \<Rightarrow> pci_st \<Rightarrow> pci_st" where
  "unmap_bar bm i k = (if bm AND push_bit i 1 \<noteq> 0 then pci_ev (Iounmap i) k else k)"

definition xdma_remove :: "'u drv \<times> pci_st \<Rightarrow> 'u drv \<times> pci_st" where
  "xdma_remove = (\<lambda>(s, k).
     let s = on_hw (spin_lock DmaStatsLock) s;
         s = s\<lparr>stats_timer := None\<rparr>;
         s = on_hw (spin_unlock DmaStatsLock) s;
         s = on_hw (spin_lock DmaLock) s;
         s = s\<lparr>poll_timer := None\<rparr>;
         s = on_hw (spin_unlock DmaLock) s;
         (s, k) = (if TH_BH_ISR s
           then let base = baseVAddr s 0;
                    s = on_hw (Dma_mIntDisable base) s;
                    k = pci_ev FreeIrq k;
                    k = (if MSIEnabled k then pci_ev DisableMsi k else k);
                    s = on_hw (\<lambda>m. snd (Dma_mReadReg base REG_DMA_CTRL_STATUS m)) s
                in (s, k)
           else (s, k));
         s = snd (DmaFifoEmptyWait HANDLE_0 DIR_TYPE_S2C s);
         s = snd (DmaFifoEmptyWait HANDLE_1 DIR_TYPE_S2C s);
         s = snd (DmaFifoEmptyWait HANDLE_0 DIR_TYPE_C2S s);
         s = snd (DmaFifoEmptyWait HANDLE_1 DIR_TYPE_C2S s);
         s = on_hw (spin_lock DmaLock) s;
         s = on_hw (XIo_Out32 (baseVAddr s 0 + STATUS_REG_OFFSET) (push_bit AXI_MIG_RST_SHIFT 1)) s;
         s = fold reset_one [0..<MAX_DMA_ENGINES] s;
         k = fold (unmap_bar (barMask s)) [0..<MAX_BARS] k;
         s = on_hw (spin_unlock DmaLock) s;
         k = (if xdmaCdev_set k then pci_ev DelCdev k else k);
         k = pci_ev ReleaseRegions k;
         k = pci_ev DisableDevice k
     in (s, k))"

text \<open>
  Unloading: the kernel calls \<open>xdma_remove\<close> if the board was successfully probed (\<open>bound\<close>).
\<close>

definition xdma_cleanup :: "bool \<Rightarrow> 'u drv \<times> pci_st \<Rightarrow> 'u drv \<times> pci_st" where
  "xdma_cleanup bound = (\<lambda>(s, k).
     let s = on_hw (spin_lock DmaLock) s;
         s = s\<lparr>DriverState := UNREGISTERING\<rparr>;
         s = on_hw (spin_unlock DmaLock) s;
         (s, k) = (if bound then xdma_remove (s, k) else (s, k));
         k = (if dmaData_set k then pci_ev Kfree k else k)
     in (s, k))"

section \<open>The device file\<close>

definition EBUSY :: int where [hwc]: "EBUSY = 16"
definition EFAULT :: int where [hwc]: "EFAULT = 14"

definition xdma_dev_open :: "'u drv \<Rightarrow> int \<times> 'u drv" where
  "xdma_dev_open s =
     (if DriverState s \<noteq> INITIALIZED then (- 1, s)
      else if UserOpen s \<noteq> 0 then (- EBUSY, s)
      else
        let s = on_hw (spin_lock DmaStatsLock) s;
            s = s\<lparr>UserOpen := UserOpen s + 1\<rparr>
        in (0, on_hw (spin_unlock DmaStatsLock) s))"

definition xdma_dev_release :: "'u drv \<Rightarrow> int \<times> 'u drv" where
  "xdma_dev_release s =
     (if UserOpen s = 0 then (- EFAULT, s)
      else
        let s = on_hw (spin_lock DmaStatsLock) s;
            s = s\<lparr>UserOpen := UserOpen s - 1\<rparr>
        in (0, on_hw (spin_unlock DmaStatsLock) s))"

end
