(* ===== verification/Sguser.thy ===== *)
theory Sguser
  imports BufPool XdmaUser XdmaProbe
begin

text \<open>
  The raw data driver \<open>fc1553_dma/xrawdata0/sguser.c\<close> (\<open>xrawdata1\<close> holds the same text; it is built
  without \<open>XRAWDATA0\<close>, which is a field of the state here). It is an application driver in the
  sense of \<open>xdma_user.h\<close>: \<open>myInit\<close>, \<open>myGetRxPkt\<close>, \<open>myPutRxPkt\<close>, \<open>myPutTxPkt\<close>, \<open>mySetState\<close>, \<open>myGetState\<close>
  are its callbacks, \<open>DmaSetupTransmit\<close> and \<open>poll_routine\<close> drive the base driver. Built with
  \<open>K7_TRD\<close> and without \<open>DATA_VERIFY\<close>, as the \<open>Makefile\<close>s say.
\<close>

section \<open>Constants\<close>

definition POLLING :: int where [hwc]: "POLLING = 2"
definition REGISTERED :: int where [hwc]: "REGISTERED = 3"
definition RAW_UNINITIALIZED :: int where [hwc]: "RAW_UNINITIALIZED = 0"
definition RAW_INITIALIZED :: int where [hwc]: "RAW_INITIALIZED = 1"

definition MYBAR :: int where [hwc]: "MYBAR = 0"
definition PAGE_SIZE :: int where [hwc]: "PAGE_SIZE = 4096"
definition BUFSIZE :: int where [hwc]: "BUFSIZE = PAGE_SIZE"
definition MAXPKTSIZE :: u32 where [hwc]: "MAXPKTSIZE = 8 * word_of_int PAGE_SIZE"
definition MINPKTSIZE :: u32 where [hwc]: "MINPKTSIZE = 64"
definition BYTEMULTIPLE :: int where [hwc]: "BYTEMULTIPLE = 8"

definition LOOPBACK :: u32 where [hwc]: "LOOPBACK = 2"
definition PKTCHKR :: u32 where [hwc]: "PKTCHKR = 1"
definition PKTGENR :: u32 where [hwc]: "PKTGENR = 1"

definition TEST_STOP :: u32 where [hwc]: "TEST_STOP = 0"
definition TEST_START :: u32 where [hwc]: "TEST_START = 0x8000"
definition TEST_IN_PROGRESS :: u32 where [hwc]: "TEST_IN_PROGRESS = 0x4000"
definition ENABLE_PKTCHK :: u32 where [hwc]: "ENABLE_PKTCHK = 0x100"
definition ENABLE_PKTGEN :: u32 where [hwc]: "ENABLE_PKTGEN = 0x400"
definition ENABLE_LOOPBACK :: u32 where [hwc]: "ENABLE_LOOPBACK = 0x200"
definition LINK_UP :: int where [hwc]: "LINK_UP = 1"

definition EBADF :: int where [hwc]: "EBADF = 9"
definition EBADRQC :: int where [hwc]: "EBADRQC = 56"

definition TX_privdata :: u32 where [hwc]: "TX_privdata = 0x54545454"
definition RX_privdata :: u32 where [hwc]: "RX_privdata = 0x54545456"

section \<open>State\<close>

text \<open>
  \<open>bufmem\<close> is the memory of the packet buffers; the descriptor memory of the base driver is
  apart from it. The only elements of \<open>handle\<close> the code uses are 0 and 2. \<open>testmode\<close>, \<open>pktsize\<close>, \<open>iter\<close>
  are the static variables of \<open>mySetState\<close>, \<open>DmaSetupTransmit\<close>, \<open>myGetState\<close>; \<open>raw_timer\<close> is \<open>poll_timer\<close>.
\<close>

record raw =
  XRAWDATA0 :: bool
  raw_DriverState :: int
  handle0 :: "nat option"
  handle2 :: "nat option"
  TXbarbase :: u32
  RXbarbase :: u32
  RawTestMode :: u32
  RawMinPktSize :: u32
  RawMaxPktSize :: u32
  TxBufs :: Buffer
  RxBufs :: Buffer
  pkts :: "PktBuf list"
  TxBufCnt :: u32
  RxBufCnt :: u32
  ErrCnt :: u32
  TxSeqNo :: u16
  RxSeqNo :: u16
  testmode :: u32
  pktsize :: int
  iter :: int
  bufmem :: "u32 \<Rightarrow> u8"
  raw_timer :: "u32 option"

definition raw_zero :: "bool \<Rightarrow> (u32 \<Rightarrow> u8) \<Rightarrow> raw" where
  "raw_zero x0 bm = \<lparr>XRAWDATA0 = x0, raw_DriverState = RAW_UNINITIALIZED, handle0 = None, handle2 = None,
     TXbarbase = 0, RXbarbase = 0, RawTestMode = TEST_STOP, RawMinPktSize = MINPKTSIZE,
     RawMaxPktSize = MAXPKTSIZE, TxBufs = Buffer_zero, RxBufs = Buffer_zero,
     pkts = replicate NUM_BUFS PktBuf_zero, TxBufCnt = 0, RxBufCnt = 0, ErrCnt = 0, TxSeqNo = 0, RxSeqNo = 0,
     testmode = 0, pktsize = 0, iter = 0, bufmem = bm, raw_timer = None\<rparr>"

definition TX_CONFIG_ADDRESS :: "raw \<Rightarrow> u32" where
  "TX_CONFIG_ADDRESS r = (if XRAWDATA0 r then 0x9108 else 0x9208)"
definition RX_CONFIG_ADDRESS :: "raw \<Rightarrow> u32" where
  "RX_CONFIG_ADDRESS r = (if XRAWDATA0 r then 0x9100 else 0x9200)"
definition PKT_SIZE_ADDRESS :: "raw \<Rightarrow> u32" where
  "PKT_SIZE_ADDRESS r = (if XRAWDATA0 r then 0x9104 else 0x9204)"
definition STATUS_ADDRESS :: "raw \<Rightarrow> u32" where
  "STATUS_ADDRESS r = (if XRAWDATA0 r then 0x910C else 0x920C)"
definition MYHANDLE :: "raw \<Rightarrow> nat" where
  "MYHANDLE r = (if XRAWDATA0 r then HANDLE_0 else HANDLE_1)"
definition ENGINE_TX :: "raw \<Rightarrow> int" where
  "ENGINE_TX r = (if XRAWDATA0 r then 0 else 1)"
definition ENGINE_RX :: "raw \<Rightarrow> int" where
  "ENGINE_RX r = (if XRAWDATA0 r then 32 else 33)"

section \<open>Callbacks\<close>

definition PrintSummary :: "raw \<Rightarrow> mach \<Rightarrow> mach" where
  "PrintSummary r m = snd (XIo_In32 (TXbarbase r + STATUS_ADDRESS r) m)"

definition myInit :: "u32 \<Rightarrow> u32 \<Rightarrow> raw \<times> mach \<Rightarrow> int \<times> raw \<times> mach" where
  "myInit barbase privdata = (\<lambda>(r, m).
     let m = spin_lock RawLock m;
         r = (if privdata = TX_privdata then r\<lparr>TXbarbase := barbase\<rparr>
              else if privdata = RX_privdata then r\<lparr>RXbarbase := barbase\<rparr> else r);
         r = r\<lparr>TxBufCnt := 0, RxBufCnt := 0, ErrCnt := 0, TxSeqNo := 0, RxSeqNo := 0\<rparr>;
         m = XIo_Out32 (TXbarbase r + TX_CONFIG_ADDRESS r) 0 m;
         m = XIo_Out32 (TXbarbase r + RX_CONFIG_ADDRESS r) 0 m;
         m = spin_unlock RawLock m
     in (0, r, m))"

text \<open>
  The loop of \<open>myPutRxPkt\<close> over the packets: it stops at the first unused one, and counts the
  packets and ends of packets before it.
\<close>

fun put_rx_loop :: "PktBuf list \<Rightarrow> raw \<Rightarrow> bool \<times> raw" where
  "put_rx_loop [] r = (False, r)"
| "put_rx_loop (p # ps) r =
     (if pkt_flags p AND PKT_UNUSED \<noteq> 0 then (True, r)
      else let r = (if pkt_flags p AND PKT_EOP \<noteq> 0 then r\<lparr>RxSeqNo := RxSeqNo r + 1\<rparr> else r);
               r = r\<lparr>RxBufCnt := RxBufCnt r + 1\<rparr>
           in put_rx_loop ps r)"

definition myPutRxPkt :: "nat \<Rightarrow> PktBuf list \<Rightarrow> int \<Rightarrow> u32 \<Rightarrow> raw \<times> mach \<Rightarrow> int \<times> raw \<times> mach" where
  "myPutRxPkt hndl vaddr numpkts privdata = (\<lambda>(r, m).
     if raw_DriverState r \<noteq> REGISTERED then (- 1, r, m)
     else if Some hndl \<noteq> handle2 r then (- 1, r, m)
     else
       let m = spin_lock RawLock m;
           (unused, r) = put_rx_loop (take (nat numpkts) vaddr) r;
           r = (if unused then r\<lparr>RxBufs := FreeUnusedBuf numpkts (RxBufs r)\<rparr>
                else r\<lparr>RxBufs := FreeUsedBuf numpkts (RxBufs r)\<rparr>);
           m = spin_unlock RawLock m
       in (0, r, m))"

fun get_rx_loop :: "nat \<Rightarrow> nat \<Rightarrow> PktBuf list \<Rightarrow> Buffer \<Rightarrow> nat \<times> PktBuf list \<times> Buffer" where
  "get_rx_loop 0 i vaddr b = (i, vaddr, b)"
| "get_rx_loop (Suc k) i vaddr b =
     (let (bufVA, b) = AllocBuf b
      in if bufVA = 0 then (i, vaddr, b)
         else get_rx_loop k (Suc i)
           (vaddr[i := (vaddr ! i)\<lparr>pktBuf := bufVA, bufInfo := bufVA, pkt_size := word_of_int BUFSIZE\<rparr>]) b)"

definition myGetRxPkt :: "nat \<Rightarrow> PktBuf list \<Rightarrow> u32 \<Rightarrow> int \<Rightarrow> u32 \<Rightarrow> raw \<times> mach \<Rightarrow> int \<times> PktBuf list \<times> raw \<times> mach" where
  "myGetRxPkt hndl vaddr bsize numpkts privdata = (\<lambda>(r, m).
     if raw_DriverState r \<noteq> REGISTERED then (0, vaddr, r, m)
     else if Some hndl \<noteq> handle2 r then (0, vaddr, r, m)
     else
       let m = spin_lock RawLock m;
           (i, vaddr, b) = get_rx_loop (nat numpkts) 0 vaddr (RxBufs r);
           r = r\<lparr>RxBufs := b\<rparr>;
           m = spin_unlock RawLock m
       in (int i, vaddr, r, m))"

definition myPutTxPkt :: "nat \<Rightarrow> PktBuf list \<Rightarrow> int \<Rightarrow> u32 \<Rightarrow> raw \<times> mach \<Rightarrow> int \<times> raw \<times> mach" where
  "myPutTxPkt hndl vaddr numpkts privdata = (\<lambda>(r, m).
     if raw_DriverState r \<noteq> REGISTERED then (- 1, r, m)
     else if Some hndl \<noteq> handle0 r then (- 1, r, m)
     else
       let nomore = list_ex (\<lambda>p. pkt_flags p AND PKT_UNUSED \<noteq> 0) (take (nat numpkts) vaddr);
           m = spin_lock RawLock m;
           r = (if nomore then r\<lparr>TxBufs := FreeUnusedBuf numpkts (TxBufs r)\<rparr>
                else r\<lparr>TxBufs := FreeUsedBuf numpkts (TxBufs r)\<rparr>);
           m = spin_unlock RawLock m
       in (0, r, m))"


section \<open>State callbacks\<close>

text \<open>
  The packet size of a test: both limits become the requested maximum, which is then clamped. The
  requested minimum has no influence.
\<close>

definition set_sizes :: "UserState \<Rightarrow> raw \<Rightarrow> raw" where
  "set_sizes ustate r =
     (let r = r\<lparr>RawMinPktSize := word_of_int (MinPktSize ustate), RawMaxPktSize := word_of_int (MaxPktSize ustate)\<rparr>;
          val = sint (RawMaxPktSize r);
          r = r\<lparr>RawMinPktSize := word_of_int val, RawMaxPktSize := word_of_int val\<rparr>;
          r = (if RawMaxPktSize r > MAXPKTSIZE then r\<lparr>RawMinPktSize := MAXPKTSIZE, RawMaxPktSize := MAXPKTSIZE\<rparr> else r);
          r = (if RawMinPktSize r < MINPKTSIZE then r\<lparr>RawMinPktSize := MINPKTSIZE, RawMaxPktSize := MINPKTSIZE\<rparr> else r)
      in if RawMinPktSize r > RawMaxPktSize r then r\<lparr>RawMinPktSize := RawMaxPktSize r\<rparr> else r)"

definition set_testmode :: "raw \<Rightarrow> raw" where
  "set_testmode r =
     (if RawTestMode r AND TEST_START \<noteq> 0 then
        let r = r\<lparr>testmode := 0\<rparr>;
            r = (if RawTestMode r AND ENABLE_LOOPBACK \<noteq> 0 then r\<lparr>testmode := testmode r OR LOOPBACK\<rparr> else r);
            r = (if RawTestMode r AND ENABLE_PKTCHK \<noteq> 0 then r\<lparr>testmode := testmode r OR PKTCHKR\<rparr> else r)
        in if RawTestMode r AND ENABLE_PKTGEN \<noteq> 0 then r\<lparr>testmode := testmode r OR PKTGENR\<rparr> else r
      else
        let r = (if RawTestMode r AND ENABLE_PKTCHK \<noteq> 0 then r\<lparr>testmode := testmode r AND NOT PKTCHKR\<rparr> else r)
        in if RawTestMode r AND ENABLE_PKTGEN \<noteq> 0 then r\<lparr>testmode := testmode r AND NOT PKTGENR\<rparr> else r)"

definition start_test :: "raw \<times> mach \<Rightarrow> raw \<times> mach" where
  "start_test = (\<lambda>(r, m).
     let m = XIo_Out32 (TXbarbase r + PKT_SIZE_ADDRESS r) (RawMaxPktSize r) m;
         m = XIo_Out32 (TXbarbase r + TX_CONFIG_ADDRESS r) 0 m;
         (r, m) = (if RawTestMode r AND (ENABLE_PKTCHK OR ENABLE_LOOPBACK) \<noteq> 0 then
             let r = r\<lparr>TxSeqNo := 0\<rparr>;
                 r = (if RawTestMode r AND ENABLE_LOOPBACK \<noteq> 0 then r\<lparr>RxSeqNo := 0\<rparr> else r)
             in (r, XIo_Out32 (TXbarbase r + TX_CONFIG_ADDRESS r) (testmode r) m)
           else (r, m))
     in if RawTestMode r AND ENABLE_PKTGEN \<noteq> 0 then
          let r = r\<lparr>RxSeqNo := 0\<rparr> in (r, XIo_Out32 (TXbarbase r + RX_CONFIG_ADDRESS r) (testmode r) m)
        else (r, m))"

definition mySetState :: "nat \<Rightarrow> UserState \<Rightarrow> u32 \<Rightarrow> raw \<times> mach \<Rightarrow> int \<times> raw \<times> mach" where
  "mySetState hndl ustate privdata = (\<lambda>(r, m).
     if raw_DriverState r \<noteq> REGISTERED then (EFAULT, r, m)
     else if Some hndl \<noteq> handle0 r \<and> Some hndl \<noteq> handle2 r then (EBADF, r, m)
     else if privdata = TX_privdata then
       let m = spin_lock RawLock m;
           r = set_testmode (r\<lparr>RawTestMode := TestMode ustate\<rparr>)
       in if RawTestMode r AND TEST_START \<noteq> 0
          then if RawTestMode r AND (ENABLE_PKTCHK OR ENABLE_PKTGEN OR ENABLE_LOOPBACK) = 0
               then (EBADRQC, r\<lparr>RawTestMode := 0\<rparr>, spin_unlock RawLock m)
               else
                 let (r, m) = start_test (set_sizes ustate r, m);
                     m = spin_unlock RawLock (PrintSummary r m)
                 in (0, r, m)
          else
            let m = XIo_Out32 (TXbarbase r + TX_CONFIG_ADDRESS r) (testmode r) m;
                m = XIo_Out32 (TXbarbase r + RX_CONFIG_ADDRESS r) (testmode r) m;
                m = spin_unlock RawLock (PrintSummary r m)
            in (0, r, m)
     else (0, r, m))"

definition myGetState :: "nat \<Rightarrow> UserState \<Rightarrow> u32 \<Rightarrow> raw \<times> mach \<Rightarrow> int \<times> UserState \<times> raw \<times> mach" where
  "myGetState hndl ustate privdata = (\<lambda>(r, m).
     let ustate = ustate\<lparr>LinkState := LINK_UP, Errors := 0, MinPktSize := sint (RawMinPktSize r),
           MaxPktSize := sint (RawMaxPktSize r), TestMode := RawTestMode r\<rparr>;
         ustate = (if privdata = TX_privdata then ustate\<lparr>Buffers := TotalNum (TxBufs r)\<rparr>
                   else ustate\<lparr>Buffers := TotalNum (RxBufs r)\<rparr>);
         old = iter r;
         r = r\<lparr>iter := iter r + 1\<rparr>;
         (r, m) = (if old \<ge> 4 then (r\<lparr>iter := 0\<rparr>, PrintSummary r m) else (r, m))
     in (0, ustate, r, m))"

section \<open>Transmission\<close>

definition put16 :: "u32 \<Rightarrow> u16 \<Rightarrow> (u32 \<Rightarrow> u8) \<Rightarrow> u32 \<Rightarrow> u8" where
  "put16 a v bm = bm(a := ucast v, a + 1 := ucast (drop_bit 8 v))"

function format_loop :: "int \<Rightarrow> u32 \<Rightarrow> u16 \<Rightarrow> int \<Rightarrow> (u32 \<Rightarrow> u8) \<Rightarrow> u32 \<Rightarrow> u8" where
  "format_loop i buf v bufsize bm =
     (if i < bufsize - 1 then format_loop (i + 2) buf v bufsize (put16 (buf + word_of_int i) v bm) else bm)"
  by pat_completeness auto
termination by (relation "measure (\<lambda>(i, buf, v, bufsize, bm). nat (bufsize - i))") auto

declare format_loop.simps [simp del]

definition FormatBuffer :: "u32 \<Rightarrow> int \<Rightarrow> int \<Rightarrow> int \<Rightarrow> raw \<Rightarrow> raw" where
  "FormatBuffer buf psize bufsize fragment r =
     (let bm = format_loop 0 buf (TxSeqNo r) bufsize (bufmem r);
          bm = (if fragment = 0
                then put16 (buf + 2) (TxSeqNo r) (put16 (buf + 0) (word_of_int psize) bm) else bm);
          bm = (if bufsize mod 2 \<noteq> 0 then bm(buf + word_of_int bufsize - 1 := ucast (TxSeqNo r)) else bm)
      in r\<lparr>bufmem := bm\<rparr>)"

text \<open>
  The fragments of one packet. The fragment loop stops when the packet is complete or the buffers
  are used up; it makes progress in every round.
\<close>

definition fill_fragment :: "u32 \<Rightarrow> int \<Rightarrow> int \<Rightarrow> int \<Rightarrow> int \<Rightarrow> nat \<Rightarrow> raw \<Rightarrow> raw" where
  "fill_fragment bufVA psize bufsize tot fragment bufindex r =
     (let r = FormatBuffer bufVA psize bufsize fragment r;
          flags = PKT_ALL OR (if fragment = 0 then PKT_SOP else 0) OR (if tot = psize then PKT_EOP else 0)
      in r\<lparr>pkts := (pkts r)[bufindex := \<lparr>pktBuf = bufVA, bufInfo = bufVA, pkt_size = word_of_int bufsize,
             pkt_flags = flags, userInfo = ucast (TxSeqNo r)\<rparr>]\<rparr>)"

function frag_loop :: "int \<Rightarrow> int \<Rightarrow> int \<Rightarrow> nat \<Rightarrow> raw \<Rightarrow> int \<times> int \<times> nat \<times> raw" where
  "frag_loop psize tot fragment bufindex r =
     (if tot < psize then
        let (bufVA, b) = AllocBuf (TxBufs r);
            r = r\<lparr>TxBufs := b\<rparr>
        in if bufVA = 0 then (tot, fragment, bufindex, r)
           else
             let bufsize = (if tot + BUFSIZE > psize then psize - tot else BUFSIZE);
                 tot = tot + bufsize
             in frag_loop psize tot (fragment + 1) (bufindex + 1)
                  (fill_fragment bufVA psize bufsize tot fragment bufindex r)
      else (tot, fragment, bufindex, r))"
  by pat_completeness auto
termination
  by (relation "measure (\<lambda>(psize, tot, fragment, bufindex, r). nat (psize - tot))")
     (auto simp: BUFSIZE_def PAGE_SIZE_def)

declare frag_loop.simps [simp del]

text \<open>The loop over the packets; \<open>k\<close> are left, and the number of those completed is returned.\<close>

fun packet_loop :: "nat \<Rightarrow> nat \<Rightarrow> nat \<Rightarrow> raw \<Rightarrow> nat \<times> nat \<times> raw" where
  "packet_loop 0 i bufindex r = (i, bufindex, r)"
| "packet_loop (Suc k) i bufindex r =
     (let r = r\<lparr>pktsize := sint (RawMaxPktSize r)\<rparr>;
          (tot, fragment, bufindex, r) = frag_loop (pktsize r) 0 0 bufindex r
      in if tot < pktsize r
         then if fragment \<noteq> 0
              then (i, bufindex - nat fragment, r\<lparr>TxBufs := FreeUnusedBuf fragment (TxBufs r)\<rparr>)
              else (i, bufindex, r)
         else packet_loop k (Suc i) bufindex (r\<lparr>TxSeqNo := TxSeqNo r + 1\<rparr>))"

definition with_usr :: "(raw \<Rightarrow> raw) \<Rightarrow> raw drv \<Rightarrow> raw drv" where
  "with_usr f s = s\<lparr>usr := f (usr s)\<rparr>"

definition DmaSetupTransmit :: "nat option \<Rightarrow> int \<Rightarrow> raw drv \<Rightarrow> int \<times> raw drv" where
  "DmaSetupTransmit hndl num s =
     (if raw_DriverState (usr s) \<noteq> REGISTERED then (0, s)
      else if hndl \<noteq> handle0 (usr s) then (0, s)
      else if num = 0 then (0, s)
      else
        let s = on_hw (spin_lock RawLock) s;
            origseqno = TxSeqNo (usr s);
            (i, bufindex, r) = packet_loop (nat num) 0 0 (usr s);
            s = on_hw (spin_unlock RawLock) (s\<lparr>usr := r\<rparr>)
        in if i = 0 then (0, s)
           else
             let (result, s) = DmaSendPkt hndl (pkts (usr s)) (int bufindex) s;
                 s = with_usr (\<lambda>r. r\<lparr>TxBufCnt := TxBufCnt r + word_of_int result\<rparr>) s
             in if result \<noteq> int bufindex then
                  let s = with_usr (\<lambda>r. r\<lparr>TxSeqNo :=
                        (if result \<noteq> 0 then ucast (userInfo (pkts r ! nat result)) else origseqno)\<rparr>) s;
                      s = on_hw (spin_lock RawLock) s;
                      s = with_usr (\<lambda>r. r\<lparr>TxBufs := FreeUnusedBuf (int bufindex - result) (TxBufs r)\<rparr>) s;
                      s = on_hw (spin_unlock RawLock) s
                  in (0, s)
                else (1, s))"


section \<open>The polling routine\<close>

text \<open>
  \<open>poll_routine\<close> of the raw data driver. \<open>ufuncs\<close> is the content of the uninitialised local variable of
  that name: the callbacks the code does not set keep it, among them \<open>UserGetPkt\<close> of the transmit
  engine.
\<close>

definition tx_ufuncs :: "raw UserPtrs \<Rightarrow> raw UserPtrs" where
  "tx_ufuncs ufuncs = ufuncs\<lparr>UserInit := Some myInit, UserPutPkt := Some myPutTxPkt,
     UserSetState := Some mySetState, UserGetState := Some myGetState, privData := TX_privdata\<rparr>"

definition rx_ufuncs :: "raw UserPtrs \<Rightarrow> raw UserPtrs" where
  "rx_ufuncs ufuncs = ufuncs\<lparr>UserInit := Some myInit, UserPutPkt := Some myPutRxPkt,
     UserGetPkt := Some myGetRxPkt, UserSetState := Some mySetState, UserGetState := Some myGetState,
     privData := RX_privdata\<rparr>"

definition raw_set_state :: "int \<Rightarrow> raw drv \<Rightarrow> raw drv" where
  "raw_set_state d s = on_hw (spin_unlock RawLock)
     (with_usr (\<lambda>r. r\<lparr>raw_DriverState := d\<rparr>) (on_hw (spin_lock RawLock) s))"

definition raw_reschedule :: "u32 \<Rightarrow> raw drv \<Rightarrow> raw drv" where
  "raw_reschedule offset s = with_usr (\<lambda>r. r\<lparr>raw_timer := Some (jiffies s + offset)\<rparr>) s"

definition raw_register :: "raw UserPtrs \<Rightarrow> raw drv \<Rightarrow> raw drv outcome" where
  "raw_register ufuncs s =
     (let s = raw_set_state REGISTERED s;
          ufuncs = tx_ufuncs ufuncs;
          (late, s) = DmaFifoEmptyWait (MYHANDLE (usr s)) DIR_TYPE_S2C s
      in case DmaRegister (ENGINE_TX (usr s)) MYBAR ufuncs BUFSIZE s of
           Undefined \<Rightarrow> Undefined
         | Returned (h, s) \<Rightarrow>
             let s = with_usr (\<lambda>r. r\<lparr>handle0 := h\<rparr>) s
             in if h = None then Returned (raw_set_state RAW_UNINITIALIZED s)
             else
               let s = on_hw (spin_unlock RawLock) (on_hw (spin_lock RawLock) s);
                   ufuncs = rx_ufuncs ufuncs;
                   (late, s) = DmaFifoEmptyWait (MYHANDLE (usr s)) DIR_TYPE_C2S s
               in case DmaRegister (ENGINE_RX (usr s)) MYBAR ufuncs BUFSIZE s of
                    Undefined \<Rightarrow> Undefined
                  | Returned (h, s) \<Rightarrow>
                      let s = with_usr (\<lambda>r. r\<lparr>handle2 := h\<rparr>) s
                      in if h = None then Returned (raw_set_state RAW_UNINITIALIZED s)
                      else Returned (raw_reschedule (2 * HZ s) s))"

fun send_rounds :: "nat \<Rightarrow> raw drv \<Rightarrow> raw drv" where
  "send_rounds 0 s = s"
| "send_rounds (Suc k) s =
     (if TotalNum (TxBufs (usr s)) - AllocNum (TxBufs (usr s)) \<le> 0 then s
      else let (r, s) = DmaSetupTransmit (handle0 (usr s)) 100 s
           in if r = 0 then s else send_rounds k s)"

definition raw_poll_routine :: "raw UserPtrs \<Rightarrow> raw drv \<Rightarrow> raw drv outcome" where
  "raw_poll_routine ufuncs s =
     (if raw_DriverState (usr s) < POLLING then raw_register ufuncs s
      else if raw_DriverState (usr s) = REGISTERED then
        let mode = RawTestMode (usr s);
            offset = 2 * HZ s;
            (offset, s) =
              (if mode AND TEST_START \<noteq> 0 \<and> mode AND (ENABLE_PKTCHK OR ENABLE_LOOPBACK) \<noteq> 0 then
                 let s = on_hw (spin_lock RawLock) s;
                     s = with_usr (\<lambda>r. r\<lparr>RawTestMode := RawTestMode r AND NOT TEST_START\<rparr>) s;
                     s = with_usr (\<lambda>r. r\<lparr>RawTestMode := RawTestMode r OR TEST_IN_PROGRESS\<rparr>) s;
                     s = on_hw (spin_unlock RawLock) s;
                     (r, s) = DmaSetupTransmit (handle0 (usr s)) 1 s
                 in (HZ s, s)
               else if mode AND TEST_IN_PROGRESS \<noteq> 0 then (0, send_rounds 9 s)
               else (offset, s))
        in Returned (raw_reschedule offset s)
      else Returned s)"

section \<open>Loading and unloading\<close>

text \<open>\<open>tx_page\<close> and \<open>rx_page\<close> are the answers of \<open>__get_free_pages\<close> for the two pools.\<close>

definition rawdata_init :: "(nat \<Rightarrow> u32) \<Rightarrow> (nat \<Rightarrow> u32) \<Rightarrow> raw drv \<Rightarrow> int \<times> raw drv" where
  "rawdata_init tx_page rx_page s =
     (let s = with_usr (\<lambda>r. r\<lparr>raw_DriverState := RAW_INITIALIZED\<rparr>) s;
          s = with_usr (\<lambda>r. r\<lparr>TxBufs := InitBuffers tx_page (TxBufs r)\<rparr>) s;
          s = with_usr (\<lambda>r. r\<lparr>RxBufs := InitBuffers rx_page (RxBufs r)\<rparr>) s;
          s = raw_reschedule (HZ s div 5) s
      in (0, s))"

fun free_pages :: "nat \<Rightarrow> nat \<Rightarrow> u32 list \<Rightarrow> mach \<Rightarrow> mach" where
  "free_pages 0 i va m = m"
| "free_pages (Suc k) i va m = free_pages k (Suc i) va (log_ev (FreePage (va ! i)) m)"

definition rawdata_cleanup :: "raw drv \<Rightarrow> raw drv" where
  "rawdata_cleanup s =
     (let s = with_usr (\<lambda>r. r\<lparr>raw_timer := None\<rparr>) s;
          s = on_hw (XIo_Out32 (TXbarbase (usr s) + TX_CONFIG_ADDRESS (usr s)) 0) s;
          s = on_hw (XIo_Out32 (TXbarbase (usr s) + RX_CONFIG_ADDRESS (usr s)) 0) s;
          (late, s) = DmaFifoEmptyWait (MYHANDLE (usr s)) DIR_TYPE_S2C s;
          (ret, s) = DmaUnregister (handle0 (usr s)) s;
          (late, s) = DmaFifoEmptyWait (MYHANDLE (usr s)) DIR_TYPE_C2S s;
          (ret, s) = DmaUnregister (handle2 (usr s)) s;
          s = on_hw (PrintSummary (usr s)) s;
          s = on_hw (spin_lock RawLock) s;
          s = on_hw (free_pages (nat (TotalNum (TxBufs (usr s)))) 0 (origVA (TxBufs (usr s)))) s;
          s = on_hw (free_pages (nat (TotalNum (RxBufs (usr s)))) 0 (origVA (RxBufs (usr s)))) s
      in on_hw (spin_unlock RawLock) s)"

end
