(* ===== verification/SguserSpec.thy ===== *)
theory SguserSpec
  imports Sguser
begin

text \<open>
  The raw data driver keeps the contract of an application driver (\<open>user_driver\<close>, \<open>user_app\<close>): the
  interpretations \<open>rx\<close> and \<open>tx\<close> carry the guarantees of the base driver over to it. Also here: the
  effect of its state callbacks and of the formatting of a packet.
\<close>

section \<open>Invariant\<close>

definition raw_inv :: "raw \<Rightarrow> bool" where
  "raw_inv r \<longleftrightarrow> buf_inv (TxBufs r) \<and> buf_inv (RxBufs r) \<and> length (pkts r) = NUM_BUFS"

definition tx_held :: "raw \<Rightarrow> nat" where
  "tx_held r = nat (AllocNum (TxBufs r))"

definition rx_held :: "raw \<Rightarrow> nat" where
  "rx_held r = nat (AllocNum (RxBufs r))"

definition tx_bound :: "raw \<Rightarrow> nat \<Rightarrow> bool" where
  "tx_bound r e \<longleftrightarrow> raw_DriverState r = REGISTERED \<and> handle0 r = Some e"

definition rx_bound :: "raw \<Rightarrow> nat \<Rightarrow> bool" where
  "rx_bound r e \<longleftrightarrow> raw_DriverState r = REGISTERED \<and> handle2 r = Some e"

lemma buf_used_length: "length (buf_used b) = nat (AllocNum b)"
  by (simp add: buf_used_def)

lemma buf_spare_length: "length (buf_spare b) = nat (TotalNum b) - nat (AllocNum b)"
  by (simp add: buf_spare_def)

lemma free_used_count:
  "buf_inv b \<Longrightarrow> nat (AllocNum (free_used_loop k b)) = nat (AllocNum b) - k"
  "buf_inv b \<Longrightarrow> nat (AllocNum (free_unused_loop k b)) = nat (AllocNum b) - k"
  using bufs.free_used_law[of b k] bufs.free_unused_law[of b k]
  by (simp_all only: buf_used_length[symmetric]) auto

lemma free_total [simp]:
  "TotalNum (free_used_loop k b) = TotalNum b" "TotalNum (free_unused_loop k b) = TotalNum b"
  "origVA (free_used_loop k b) = origVA b" "origVA (free_unused_loop k b) = origVA b"
  by (induction k arbitrary: b) (simp_all add: Let_def)

section \<open>Handing out receive buffers\<close>

lemma alloc_opt_AllocBuf: "alloc_opt b = (o', b') \<Longrightarrow> \<exists>v. AllocBuf b = (v, b') \<and> o' = (if v = 0 then None else Some v)"
  by (auto simp: alloc_opt_def split_beta Let_def prod_eq_iff)

definition rx_fill :: "u32 \<Rightarrow> PktBuf \<Rightarrow> PktBuf" where
  "rx_fill v p = p\<lparr>pktBuf := v, bufInfo := v, pkt_size := word_of_int BUFSIZE\<rparr>"

lemma get_rx_loop_spec:
  assumes "buf_inv b" "bufs.alloc_many k b = (vs, b')"
  shows "\<exists>va'. get_rx_loop k i va b = (i + length vs, va', b') \<and> length va' = length va
    \<and> (\<forall>l < length va. va' ! l = (if i \<le> l \<and> l < i + length vs then rx_fill (vs ! (l - i)) (va ! l) else va ! l))"
  using assms
proof (induction k arbitrary: i va b vs)
  case (Suc k)
  obtain w b1 where al: "alloc_opt b = (w, b1)" by fastforce
  from alloc_opt_AllocBuf[OF this] obtain v where v: "AllocBuf b = (v, b1)" "w = (if v = 0 then None else Some v)" by blast
  show ?case
  proof (cases "buf_spare b")
    case Nil
    from bufs.alloc_none[OF Suc.prems(1) Nil] al have w: "w = None" "b1 = b" by auto
    then have "v = 0" using v(2) by (auto split: if_splits)
    then show ?thesis using Suc.prems(2) al w v(1) by auto
  next
    case (Cons x xs)
    from bufs.alloc_some[OF Suc.prems(1) Cons] al have w: "w = Some x" "buf_inv b1" by auto
    then have vx: "v = x" "v \<noteq> 0" using v(2) by (auto split: if_splits)
    obtain us where us: "bufs.alloc_many k b1 = (us, b')" "vs = v # us"
      using Suc.prems(2) al w vx by (auto split: prod.splits)
    from Suc.IH[OF w(2) us(1), of "Suc i" "va[i := rx_fill v (va ! i)]"] obtain va' where
      r: "get_rx_loop k (Suc i) (va[i := rx_fill v (va ! i)]) b1 = (Suc i + length us, va', b')" "length va' = length va"
      "\<forall>l<length va. va' ! l = (if Suc i \<le> l \<and> l < Suc i + length us then rx_fill (us ! (l - Suc i)) (va[i := rx_fill v (va ! i)] ! l)
          else va[i := rx_fill v (va ! i)] ! l)" by auto
    have "get_rx_loop (Suc k) i va b = (i + length vs, va', b')"
      using v(1) vx r(1) us(2) by (simp add: rx_fill_def)
    moreover have "\<forall>l<length va. va' ! l = (if i \<le> l \<and> l < i + length vs then rx_fill (vs ! (l - i)) (va ! l) else va ! l)"
      using r(3) us(2) by (auto simp: nth_list_update nth_Cons' Suc_diff_le not_less_eq_eq split: if_splits)
    ultimately show ?thesis using r(2) by blast
  qed
qed auto

lemma rx_fill_has_len: "has_len (rx_fill v p)"
  by (simp add: has_len_def rx_fill_def BUFSIZE_def PAGE_SIZE_def DMA_BD_BUFL_MASK_def)

lemma myGetRxPkt_cases:
  assumes "raw_inv r" "myGetRxPkt e va sz n pd (r, m) = (k, va', r', m')"
  obtains "\<not> rx_bound r e" "k = 0" "va' = va" "r' = r" "m' = m"
  | vs b where "rx_bound r e" "bufs.alloc_many (nat n) (RxBufs r) = (vs, b)" "k = int (length vs)" "r' = r\<lparr>RxBufs := b\<rparr>"
    "length va' = length va" "\<forall>l<length va. va' ! l = (if l < length vs then rx_fill (vs ! l) (va ! l) else va ! l)"
    "m' = spin_unlock RawLock (spin_lock RawLock m)"
proof (cases "rx_bound r e")
  case False
  then show ?thesis using assms(2) that(1) by (auto simp: myGetRxPkt_def rx_bound_def eq_commute[of "Some e" "handle2 r"] split: if_splits)
next
  case True
  have bi: "buf_inv (RxBufs r)" using assms(1) by (simp add: raw_inv_def)
  obtain vs b where al: "bufs.alloc_many (nat n) (RxBufs r) = (vs, b)" by fastforce
  from get_rx_loop_spec[OF bi al, of 0 va] obtain va2 where
    l: "get_rx_loop (nat n) 0 va (RxBufs r) = (length vs, va2, b)" "length va2 = length va"
    "\<forall>l < length va. va2 ! l = (if l < length vs then rx_fill (vs ! l) (va ! l) else va ! l)" by auto
  show ?thesis
    using assms(2) True l that(2)[OF True al] by (auto simp: myGetRxPkt_def rx_bound_def Let_def)
qed

lemma put_rx_loop_frame:
  "put_rx_loop ps r = (u, r') \<Longrightarrow> \<exists>s c. r' = r\<lparr>RxSeqNo := s, RxBufCnt := c\<rparr>"
proof (induction ps arbitrary: r)
  case Nil
  then show ?case by (intro exI[of _ "RxSeqNo r"] exI[of _ "RxBufCnt r"]) simp
next
  case (Cons p ps)
  show ?case
  proof (cases "pkt_flags p AND PKT_UNUSED \<noteq> 0")
    case True
    then show ?thesis using Cons.prems by (intro exI[of _ "RxSeqNo r"] exI[of _ "RxBufCnt r"]) simp
  next
    case False
    let ?r = "(if pkt_flags p AND PKT_EOP \<noteq> 0 then r\<lparr>RxSeqNo := RxSeqNo r + 1\<rparr> else r)\<lparr>RxBufCnt := RxBufCnt r + 1\<rparr>"
    have "put_rx_loop ps ?r = (u, r')" using Cons.prems False by (auto simp: Let_def split: if_splits)
    from Cons.IH[OF this] show ?thesis by (cases r) (auto split: if_splits)
  qed
qed

lemma myPutRxPkt_cases:
  assumes "raw_inv r" "myPutRxPkt e va n pd (r, m) = (k, r', m')"
  obtains "\<not> rx_bound r e" "k = -1" "r' = r" "m' = m"
  | b s c where "rx_bound r e" "k = 0" "b = free_used_loop (nat n) (RxBufs r) \<or> b = free_unused_loop (nat n) (RxBufs r)"
    "r' = r\<lparr>RxSeqNo := s, RxBufCnt := c, RxBufs := b\<rparr>" "m' = spin_unlock RawLock (spin_lock RawLock m)"
proof (cases "rx_bound r e")
  case False
  then show ?thesis using assms(2) that(1) by (auto simp: myPutRxPkt_def rx_bound_def eq_commute[of "Some e" "handle2 r"] split: if_splits)
next
  case True
  obtain u r1 where l: "put_rx_loop (take (nat n) va) r = (u, r1)" by fastforce
  from put_rx_loop_frame[OF l] obtain s c where r1: "r1 = r\<lparr>RxSeqNo := s, RxBufCnt := c\<rparr>" by blast
  show ?thesis using assms(2) True l r1 that(2)[OF True]
    by (auto simp: myPutRxPkt_def rx_bound_def Let_def FreeUnusedBuf_def FreeUsedBuf_def split: if_splits)
qed

lemma myPutTxPkt_cases:
  assumes "raw_inv r" "myPutTxPkt e va n pd (r, m) = (k, r', m')"
  obtains "\<not> tx_bound r e" "k = -1" "r' = r" "m' = m"
  | b where "tx_bound r e" "k = 0" "b = free_used_loop (nat n) (TxBufs r) \<or> b = free_unused_loop (nat n) (TxBufs r)"
    "r' = r\<lparr>TxBufs := b\<rparr>" "m' = spin_unlock RawLock (spin_lock RawLock m)"
proof (cases "tx_bound r e")
  case False
  then show ?thesis using assms(2) that(1) by (auto simp: myPutTxPkt_def tx_bound_def eq_commute[of "Some e" "handle0 r"] split: if_splits)
next
  case True
  show ?thesis using assms(2) True that(2)[OF True]
    by (auto simp: myPutTxPkt_def tx_bound_def Let_def FreeUnusedBuf_def FreeUsedBuf_def split: if_splits)
qed

lemma free_keeps_inv:
  "buf_inv b \<Longrightarrow> b' = free_used_loop k b \<or> b' = free_unused_loop k b \<Longrightarrow>
   buf_inv b' \<and> nat (AllocNum b') = nat (AllocNum b) - k"
  using bufs.free_used_law[of b k] bufs.free_unused_law[of b k] free_used_count[of b k] by auto

lemma RawLock_moves [simp]: "moves 0 m (spin_unlock RawLock (spin_lock RawLock m))"
  by (simp add: moves_def)

lemma alloc_total:
  "alloc_opt b = (v, b') \<Longrightarrow> TotalNum b' = TotalNum b \<and> origVA b' = origVA b"
  by (auto simp: alloc_opt_def AllocBuf_def Let_def split: if_splits)

lemma alloc_many_total:
  "bufs.alloc_many k b = (vs, b') \<Longrightarrow> TotalNum b' = TotalNum b \<and> origVA b' = origVA b"
proof (induction k arbitrary: b vs)
  case (Suc k)
  obtain v b1 where a: "alloc_opt b = (v, b1)" by fastforce
  show ?case
  proof (cases v)
    case None
    then show ?thesis using Suc.prems a alloc_total[OF a] by simp
  next
    case (Some w)
    obtain us where u: "bufs.alloc_many k b1 = (us, b')" using Suc.prems a Some by (auto split: prod.splits)
    then show ?thesis using Suc.IH[OF u] alloc_total[OF a] by simp
  qed
qed simp

section \<open>The contract is kept\<close>

text \<open>What the callbacks of one engine leave alone: in particular the buffers of the other one.\<close>

definition raw_static :: "raw \<Rightarrow> bool \<times> int \<times> nat option \<times> nat option \<times> u32 \<times> u32 \<times> u32 \<times> u32 \<times> u32 option" where
  "raw_static r = (XRAWDATA0 r, raw_DriverState r, handle0 r, handle2 r, RawTestMode r, RawMinPktSize r, RawMaxPktSize r,
     testmode r, raw_timer r)"

definition rx_inv :: "_ \<Rightarrow> raw \<Rightarrow> bool" where
  "rx_inv f r \<longleftrightarrow> raw_inv r \<and> (raw_static r, TxBufs r, TotalNum (RxBufs r), origVA (RxBufs r)) = f"

definition tx_inv :: "_ \<Rightarrow> raw \<Rightarrow> bool" where
  "tx_inv f r \<longleftrightarrow> raw_inv r \<and> (raw_static r, RxBufs r, TotalNum (TxBufs r), origVA (TxBufs r)) = f"

lemma rx_inv_upd:
  "rx_inv f u \<Longrightarrow> buf_inv b \<Longrightarrow> TotalNum b = TotalNum (RxBufs u) \<Longrightarrow> origVA b = origVA (RxBufs u) \<Longrightarrow>
   rx_inv f (u\<lparr>RxSeqNo := sq, RxBufCnt := c, RxBufs := b\<rparr>)"
  "rx_inv f u \<Longrightarrow> buf_inv b \<Longrightarrow> TotalNum b = TotalNum (RxBufs u) \<Longrightarrow> origVA b = origVA (RxBufs u) \<Longrightarrow>
   rx_inv f (u\<lparr>RxBufs := b\<rparr>)"
  by (simp_all add: rx_inv_def raw_inv_def raw_static_def)

lemma tx_inv_upd:
  "tx_inv f u \<Longrightarrow> buf_inv b \<Longrightarrow> TotalNum b = TotalNum (TxBufs u) \<Longrightarrow> origVA b = origVA (TxBufs u) \<Longrightarrow>
   tx_inv f (u\<lparr>TxBufs := b\<rparr>)"
  by (simp add: tx_inv_def raw_inv_def raw_static_def)

lemma inv_raw: "rx_inv f r \<Longrightarrow> raw_inv r" "tx_inv f r \<Longrightarrow> raw_inv r"
  by (simp_all add: rx_inv_def tx_inv_def)

interpretation rx: user_app "rx_inv f" myGetRxPkt myPutRxPkt rx_held rx_bound myInit for f
proof (unfold_locales, goal_cases)
  case (1 u n e va sz pd m r va' u' m')
  from bufs.alloc_many[of "RxBufs u" "nat n"] 1(1) obtain b where
    "bufs.alloc_many (nat n) (RxBufs u) = (take (nat n) (buf_spare (RxBufs u)), b)" by (auto simp: rx_inv_def tx_inv_def raw_inv_def)
  with 1(2) show ?case by (cases rule: myGetRxPkt_cases[OF inv_raw(1)[OF 1(1)] 1(3)]) auto
next
  case (2 u n va e sz pd m r va' u' m')
  from bufs.alloc_many[of "RxBufs u" "nat n"] 2(1) obtain b where
    "bufs.alloc_many (nat n) (RxBufs u) = (take (nat n) (buf_spare (RxBufs u)), b)" by (auto simp: rx_inv_def tx_inv_def raw_inv_def)
  with 2(3) show ?case by (cases rule: myGetRxPkt_cases[OF inv_raw(1)[OF 2(1)] 2(4)]) (auto simp: rx_fill_has_len)
next
  case (3 u e va sz n pd m r va' u' m')
  from bufs.alloc_many[of "RxBufs u" "nat n"] 3(1) obtain b where
    "bufs.alloc_many (nat n) (RxBufs u) = (take (nat n) (buf_spare (RxBufs u)), b)" "buf_inv b" by (auto simp: rx_inv_def tx_inv_def raw_inv_def)
  with 3(1) show ?case by (cases rule: myGetRxPkt_cases[OF inv_raw(1)[OF 3(1)] 3(2)]) (auto simp: rx_inv_def tx_inv_def raw_inv_def raw_static_def dest: alloc_many_total)
next
  case (4 u e va n pd m r u' m')
  have "buf_inv (RxBufs u)" using 4(1) by (simp add: rx_inv_def tx_inv_def raw_inv_def)
  then show ?case using 4(1) free_keeps_inv[of "RxBufs u" _ "nat n"]
    by (cases rule: myPutRxPkt_cases[OF inv_raw(1)[OF 4(1)] 4(2)]) (auto intro!: rx_inv_upd(1))
next
  case (5 u e va sz n pd m r va' u' m')
  from bufs.alloc_many[of "RxBufs u" "nat n"] 5(1) obtain b where
    b: "bufs.alloc_many (nat n) (RxBufs u) = (take (nat n) (buf_spare (RxBufs u)), b)"
    "buf_used b = buf_used (RxBufs u) @ take (nat n) (buf_spare (RxBufs u))" by (auto simp: rx_inv_def tx_inv_def raw_inv_def)
  have "nat (AllocNum b) = nat (AllocNum (RxBufs u)) + length (take (nat n) (buf_spare (RxBufs u)))"
    using arg_cong[OF b(2), of length] by (simp add: buf_used_length)
  with b(1) show ?case by (cases rule: myGetRxPkt_cases[OF inv_raw(1)[OF 5(1)] 5(2)]) (auto simp: rx_held_def rx_bound_def fun_eq_iff)
next
  case (6 u e va n pd m r u' m')
  have "buf_inv (RxBufs u)" using 6(1) by (simp add: rx_inv_def tx_inv_def raw_inv_def)
  then show ?case using 6(3) free_keeps_inv[of "RxBufs u" _ "nat n"]
    by (cases rule: myPutRxPkt_cases[OF inv_raw(1)[OF 6(1)] 6(2)]) (auto simp: rx_held_def)
next
  case (7 u e va n pd m r u' m')
  show ?case by (cases rule: myPutRxPkt_cases[OF inv_raw(1)[OF 7(1)] 7(2)]) (auto simp: rx_bound_def fun_eq_iff)
next
  case (8 u b pd m r u' m')
  then show ?case by (auto simp: myInit_def Let_def raw_inv_def moves_def rx_held_def rx_inv_def raw_static_def rx_bound_def fun_eq_iff split: if_splits)
qed

text \<open>A transmit engine never asks for buffers.\<close>

definition no_packets :: "nat \<Rightarrow> PktBuf list \<Rightarrow> u32 \<Rightarrow> int \<Rightarrow> u32 \<Rightarrow> raw \<times> mach \<Rightarrow> int \<times> PktBuf list \<times> raw \<times> mach" where
  "no_packets e va sz n pd = (\<lambda>(r, m). (0, va, r, m))"

interpretation tx: user_app "tx_inv f" no_packets myPutTxPkt tx_held tx_bound myInit for f
proof (unfold_locales, goal_cases)
  case (4 u e va n pd m r u' m')
  have "buf_inv (TxBufs u)" using 4(1) by (simp add: rx_inv_def tx_inv_def raw_inv_def)
  then show ?case using 4(1) free_keeps_inv[of "TxBufs u" _ "nat n"]
    by (cases rule: myPutTxPkt_cases[OF inv_raw(2)[OF 4(1)] 4(2)]) (auto intro!: tx_inv_upd)
next
  case (6 u e va n pd m r u' m')
  have "buf_inv (TxBufs u)" using 6(1) by (simp add: rx_inv_def tx_inv_def raw_inv_def)
  then show ?case using 6(3) free_keeps_inv[of "TxBufs u" _ "nat n"]
    by (cases rule: myPutTxPkt_cases[OF inv_raw(2)[OF 6(1)] 6(2)]) (auto simp: tx_held_def)
next
  case (7 u e va n pd m r u' m')
  show ?case by (cases rule: myPutTxPkt_cases[OF inv_raw(2)[OF 7(1)] 7(2)]) (auto simp: tx_bound_def fun_eq_iff)
next
  case (8 u b pd m r u' m')
  then show ?case by (auto simp: myInit_def Let_def raw_inv_def moves_def tx_held_def tx_inv_def raw_static_def tx_bound_def fun_eq_iff split: if_splits)
qed (auto simp: no_packets_def)

end
