(* ===== verification/SguserSend.thy ===== *)
theory SguserSend
  imports SguserSpec
begin

text \<open>
  \<open>DmaSetupTransmit\<close>: the packets it builds, their split into buffers of a page, and what remains
  after the base driver took some of them.
\<close>

section \<open>One packet\<close>

text \<open>The number of buffers of a packet, and its fragment number \<open>j\<close> in the buffer at address \<open>v\<close>.\<close>

definition nfrags :: "int \<Rightarrow> nat" where
  "nfrags psize = nat ((psize + BUFSIZE - 1) div BUFSIZE)"

definition frag :: "int \<Rightarrow> u16 \<Rightarrow> nat \<Rightarrow> u32 \<Rightarrow> PktBuf" where
  "frag psize seq j v = \<lparr>pktBuf = v, bufInfo = v,
     pkt_size = word_of_int (min BUFSIZE (psize - int j * BUFSIZE)),
     pkt_flags = PKT_ALL OR (if j = 0 then PKT_SOP else 0) OR (if Suc j = nfrags psize then PKT_EOP else 0),
     userInfo = ucast seq\<rparr>"

lemma nfrags_step:
  assumes "0 < psize"
  shows "int j * BUFSIZE < psize \<longleftrightarrow> j < nfrags psize" "0 < nfrags psize"
proof -
  have "i < (psize + 4096 - 1) div 4096 \<longleftrightarrow> i * 4096 < psize" for i by (rule iffI; linarith)
  then have "int j < (psize + BUFSIZE - 1) div BUFSIZE \<longleftrightarrow> int j * BUFSIZE < psize"
    by (simp add: BUFSIZE_def PAGE_SIZE_def)
  then show g: "int j * BUFSIZE < psize \<longleftrightarrow> j < nfrags psize" by (auto simp: nfrags_def)
  have "0 < (psize + BUFSIZE - 1) div BUFSIZE" using assms by (simp add: BUFSIZE_def PAGE_SIZE_def)
  then show "0 < nfrags psize" by (simp add: nfrags_def)
qed

text \<open>The position in the packet after \<open>j\<close> fragments.\<close>

definition pos :: "int \<Rightarrow> nat \<Rightarrow> int" where
  "pos psize j = min psize (int j * BUFSIZE)"

lemma pos_step:
  assumes "0 < psize" "j < nfrags psize"
  shows "pos psize j = int j * BUFSIZE" "pos psize j < psize"
    "(if pos psize j + BUFSIZE > psize then psize - pos psize j else BUFSIZE) = min BUFSIZE (psize - int j * BUFSIZE)"
    "pos psize j + min BUFSIZE (psize - int j * BUFSIZE) = pos psize (Suc j)"
    "pos psize (Suc j) = psize \<longleftrightarrow> Suc j = nfrags psize"
proof -
  have l: "int j * BUFSIZE < psize" using assms nfrags_step by blast
  then show p: "pos psize j = int j * BUFSIZE" by (simp add: pos_def)
  then show "pos psize j < psize" using l by simp
  show "(if pos psize j + BUFSIZE > psize then psize - pos psize j else BUFSIZE) = min BUFSIZE (psize - int j * BUFSIZE)"
    unfolding p by (simp add: min_def)
  show "pos psize j + min BUFSIZE (psize - int j * BUFSIZE) = pos psize (Suc j)"
    unfolding p by (simp add: pos_def min_def algebra_simps)
  have "int (Suc j) * BUFSIZE < psize \<longleftrightarrow> Suc j < nfrags psize" using assms(1) nfrags_step by blast
  then show "pos psize (Suc j) = psize \<longleftrightarrow> Suc j = nfrags psize" using assms(2) by (auto simp: pos_def min_def)
qed

lemma FormatBuffer_frame: "\<exists>bm. FormatBuffer b ps bs f r = r\<lparr>bufmem := bm\<rparr>"
  unfolding FormatBuffer_def Let_def by (rule exI) (rule refl)

lemma fill_fragment_eq:
  assumes "0 < psize" "j < nfrags psize"
  shows "\<exists>bm. fill_fragment v psize (min BUFSIZE (psize - int j * BUFSIZE)) (pos psize (Suc j)) (int j) bi r
    = r\<lparr>bufmem := bm, pkts := (pkts r)[bi := frag psize (TxSeqNo r) j v]\<rparr>"
proof -
  define bs where "bs = min BUFSIZE (psize - int j * BUFSIZE)"
  obtain bm where f: "FormatBuffer v psize bs (int j) r = r\<lparr>bufmem := bm\<rparr>" using FormatBuffer_frame by blast
  have "pos psize (Suc j) = psize \<longleftrightarrow> Suc j = nfrags psize" by (rule pos_step(5)[OF assms])
  then have "fill_fragment v psize bs (pos psize (Suc j)) (int j) bi r
    = r\<lparr>bufmem := bm, pkts := (pkts r)[bi := frag psize (TxSeqNo r) j v]\<rparr>"
    unfolding fill_fragment_def f Let_def frag_def bs_def[symmetric] by simp
  then show ?thesis unfolding bs_def by blast
qed

section \<open>The fragment loop\<close>

text \<open>
  The loop takes buffers until the packet is complete or none is left, and describes each taken
  buffer by its fragment.
\<close>

lemma frag_loop_spec:
  assumes "0 < psize" "buf_inv (TxBufs r)" "j \<le> nfrags psize"
    "n = min (nfrags psize - j) (length (buf_spare (TxBufs r)))"
  shows "\<exists>b bm ps. frag_loop psize (pos psize j) (int j) (bi + j) r
      = (pos psize (j + n), int (j + n), bi + j + n, r\<lparr>TxBufs := b, bufmem := bm, pkts := ps\<rparr>)
    \<and> buf_inv b \<and> buf_used b = buf_used (TxBufs r) @ take n (buf_spare (TxBufs r)) \<and> buf_spare b = drop n (buf_spare (TxBufs r))
    \<and> TotalNum b = TotalNum (TxBufs r) \<and> origVA b = origVA (TxBufs r) \<and> length ps = length (pkts r)
    \<and> (\<forall>l<length ps. ps ! l = (if bi + j \<le> l \<and> l < bi + j + n
         then frag psize (TxSeqNo r) (l - bi) (buf_spare (TxBufs r) ! (l - bi - j)) else pkts r ! l))"
  using assms(2-)
proof (induction "nfrags psize - j" arbitrary: j r n)
  case 0
  then have j: "j = nfrags psize" "n = 0" by simp_all
  have "\<not> pos psize j < psize" using nfrags_step(1)[OF assms(1), of j] j by (simp add: pos_def)
  then have run: "frag_loop psize (pos psize j) (int j) (bi + j) r = (pos psize j, int j, bi + j, r)"
    by (simp add: frag_loop.simps)
  show ?case unfolding run j(2) using 0
    by (intro exI[of _ "TxBufs r"] exI[of _ "bufmem r"] exI[of _ "pkts r"]) auto
next
  case (Suc d)
  then have j: "j < nfrags psize" by simp
  note P = pos_step[OF assms(1) j]
  show ?case
  proof (cases "buf_spare (TxBufs r)")
    case Nil
    from bufs.alloc_none[OF Suc.prems(1) Nil] have "AllocBuf (TxBufs r) = (0, TxBufs r)"
      using alloc_opt_AllocBuf[of "TxBufs r" None "TxBufs r"] by (auto split: if_splits)
    then have run: "frag_loop psize (pos psize j) (int j) (bi + j) r = (pos psize j, int j, bi + j, r)"
      using P(2) by (simp add: frag_loop.simps)
    have "n = 0" using Nil Suc.prems(3) by simp
    then show ?thesis using Suc.prems(1) run by (intro exI[of _ "TxBufs r"] exI[of _ "bufmem r"] exI[of _ "pkts r"]) auto
  next
    case (Cons v vs)
    from bufs.alloc_some[OF Suc.prems(1) Cons] obtain b1 where b1: "alloc_opt (TxBufs r) = (Some v, b1)" "buf_inv b1"
      "buf_used b1 = buf_used (TxBufs r) @ [v]" "buf_spare b1 = vs" by blast
    from alloc_opt_AllocBuf[OF b1(1)] have al: "AllocBuf (TxBufs r) = (v, b1)" "v \<noteq> 0" by (auto split: if_splits)
    obtain bm where f: "fill_fragment v psize (min BUFSIZE (psize - int j * BUFSIZE)) (pos psize (Suc j)) (int j) (bi + j) (r\<lparr>TxBufs := b1\<rparr>)
      = r\<lparr>TxBufs := b1, bufmem := bm, pkts := (pkts r)[bi + j := frag psize (TxSeqNo r) j v]\<rparr>" (is "_ = ?r1")
      using fill_fragment_eq[OF assms(1) j, of v "bi + j" "r\<lparr>TxBufs := b1\<rparr>"] by auto
    have step: "frag_loop psize (pos psize j) (int j) (bi + j) r = frag_loop psize (pos psize (Suc j)) (int (Suc j)) (bi + Suc j) ?r1"
    proof -
      have n: "int (Suc j) = int j + 1" "bi + Suc j = bi + j + 1" by simp_all
      show ?thesis unfolding n f[symmetric] by (subst frag_loop.simps) (simp only: P(2-4) al Let_def prod.case if_True if_False)
    qed
    obtain n' where n': "n = Suc n'" "n' = min (nfrags psize - Suc j) (length vs)"
      using Suc.prems(3) Cons j by (auto simp: min_Suc_Suc Suc_diff_Suc[symmetric])
    have "d = nfrags psize - Suc j" using Suc.hyps(2) by simp
    from Suc.hyps(1)[OF this, of ?r1 n'] b1(2,4) j n'(2) obtain b bm' ps where
      R: "frag_loop psize (pos psize (Suc j)) (int (Suc j)) (bi + Suc j) ?r1
        = (pos psize (Suc j + n'), int (Suc j + n'), bi + Suc j + n', ?r1\<lparr>TxBufs := b, bufmem := bm', pkts := ps\<rparr>)"
      "buf_inv b" "buf_used b = buf_used b1 @ take n' vs" "buf_spare b = drop n' vs"
      "TotalNum b = TotalNum b1" "origVA b = origVA b1" "length ps = length (pkts r)"
      "\<forall>l<length ps. ps ! l = (if bi + Suc j \<le> l \<and> l < bi + Suc j + n'
         then frag psize (TxSeqNo r) (l - bi) (vs ! (l - bi - Suc j)) else (pkts r)[bi + j := frag psize (TxSeqNo r) j v] ! l)"
      by auto
    have "\<forall>l<length ps. ps ! l = (if bi + j \<le> l \<and> l < bi + j + n
         then frag psize (TxSeqNo r) (l - bi) (buf_spare (TxBufs r) ! (l - bi - j)) else pkts r ! l)"
    proof (intro allI impI)
      fix l assume l: "l < length ps"
      show "ps ! l = (if bi + j \<le> l \<and> l < bi + j + n
         then frag psize (TxSeqNo r) (l - bi) (buf_spare (TxBufs r) ! (l - bi - j)) else pkts r ! l)"
      proof (cases "l = bi + j")
        case True
        then show ?thesis using R(7,8) l n'(1) Cons by simp
      next
        case False
        then have "bi + Suc j \<le> l \<longleftrightarrow> bi + j \<le> l" "l < bi + Suc j + n' \<longleftrightarrow> l < bi + j + n" using n'(1) by auto
        moreover have "bi + j \<le> l \<Longrightarrow> vs ! (l - bi - Suc j) = buf_spare (TxBufs r) ! (l - bi - j)"
          using False unfolding Cons by (simp add: nth_Cons')
        ultimately show ?thesis using R(7,8) l False by auto
      qed
    qed
    then show ?thesis using R(1-7) step b1(3) Cons n'(1) alloc_total[OF b1(1)]
      by (intro exI[of _ b] exI[of _ bm'] exI[of _ ps]) simp
  qed
qed


section \<open>The packet loop\<close>

definition psize_of :: "raw \<Rightarrow> int" where
  "psize_of r = sint (RawMaxPktSize r)"

text \<open>
  Whole packets are built as long as the buffers last; the buffers of a packet that could not be
  completed are given back. Packet number \<open>q\<close> of the call carries sequence number \<open>TxSeqNo + q\<close>.
\<close>

definition built :: "raw \<Rightarrow> nat \<Rightarrow> nat" where
  "built r k = min k (length (buf_spare (TxBufs r)) div nfrags (psize_of r))"

definition packets :: "raw \<Rightarrow> nat \<Rightarrow> PktBuf" where
  "packets r l = (let F = nfrags (psize_of r) in
     frag (psize_of r) (TxSeqNo r + of_nat (l div F)) (l mod F) (buf_spare (TxBufs r) ! l))"

definition pkt_result :: "raw \<Rightarrow> nat \<Rightarrow> nat \<Rightarrow> raw \<Rightarrow> bool" where
  "pkt_result r bi c r' \<longleftrightarrow> (let F = nfrags (psize_of r); sp = buf_spare (TxBufs r) in
     buf_inv (TxBufs r') \<and> buf_used (TxBufs r') = buf_used (TxBufs r) @ take (c * F) sp \<and> buf_spare (TxBufs r') = drop (c * F) sp
     \<and> TotalNum (TxBufs r') = TotalNum (TxBufs r) \<and> origVA (TxBufs r') = origVA (TxBufs r)
     \<and> length (pkts r') = length (pkts r) \<and> TxSeqNo r' = TxSeqNo r + of_nat c
     \<and> (\<forall>l<length (pkts r). l < bi + c * F \<longrightarrow> pkts r' ! l = (if l < bi then pkts r ! l else packets r (l - bi)))
     \<and> (\<exists>b bm ps sq sz. r' = r\<lparr>TxBufs := b, bufmem := bm, pkts := ps, TxSeqNo := sq, pktsize := sz\<rparr>))"

lemma pkt_result_0: "buf_inv (TxBufs r) \<Longrightarrow> pkt_result r bi 0 r"
  unfolding pkt_result_def Let_def
  by (auto intro!: exI[of _ "TxBufs r"] exI[of _ "bufmem r"] exI[of _ "pkts r"] exI[of _ "TxSeqNo r"] exI[of _ "pktsize r"])

text \<open>A completed packet, followed by others.\<close>

lemma pkt_result_step:
  assumes F: "F = nfrags (psize_of r)" "0 < F" "F \<le> length (buf_spare (TxBufs r))"
    and r1: "r1 = r\<lparr>pktsize := sz, TxBufs := b, bufmem := bm, pkts := ps, TxSeqNo := TxSeqNo r + 1\<rparr>"
    and b: "buf_inv b" "buf_used b = buf_used (TxBufs r) @ take F (buf_spare (TxBufs r))" "buf_spare b = drop F (buf_spare (TxBufs r))"
      "TotalNum b = TotalNum (TxBufs r)" "origVA b = origVA (TxBufs r)"
    and ps: "length ps = length (pkts r)" "\<forall>l<length ps. ps ! l = (if bi \<le> l \<and> l < bi + F
         then frag (psize_of r) (TxSeqNo r) (l - bi) (buf_spare (TxBufs r) ! (l - bi)) else pkts r ! l)"
    and rest: "pkt_result r1 (bi + F) c r'"
  shows "pkt_result r bi (Suc c) r'"
proof -
  let ?sp = "buf_spare (TxBufs r)"
  have P: "psize_of r1 = psize_of r" "TxBufs r1 = b" "TxSeqNo r1 = TxSeqNo r + 1" "pkts r1 = ps" by (simp_all add: psize_of_def r1)
  have Q: "buf_inv (TxBufs r')" "buf_used (TxBufs r') = buf_used b @ take (c * F) (buf_spare b)" "buf_spare (TxBufs r') = drop (c * F) (buf_spare b)"
    "TotalNum (TxBufs r') = TotalNum b" "origVA (TxBufs r') = origVA b" "length (pkts r') = length ps"
    "TxSeqNo r' = TxSeqNo r + 1 + of_nat c"
    "\<forall>l<length ps. l < bi + F + c * F \<longrightarrow> pkts r' ! l = (if l < bi + F then ps ! l else packets r1 (l - (bi + F)))"
    "\<exists>b bm ps sq sz. r' = r1\<lparr>TxBufs := b, bufmem := bm, pkts := ps, TxSeqNo := sq, pktsize := sz\<rparr>"
    using rest unfolding pkt_result_def P F(1)[symmetric] Let_def by auto
  have tk: "take F ?sp @ take (c * F) (drop F ?sp) = take (Suc c * F) ?sp" using F(3) by (simp add: take_add[symmetric])
  have dr: "drop (c * F) (drop F ?sp) = drop (Suc c * F) ?sp" by (simp add: add.commute)
  have el: "pkts r' ! l = (if l < bi then pkts r ! l else packets r (l - bi))" if l: "l < length (pkts r)" "l < bi + Suc c * F" for l
  proof (cases "l < bi + F")
    case True
    then have "pkts r' ! l = ps ! l" using Q(8) l ps(1) by simp
    then show ?thesis using ps l(1) True F(1) by (simp add: packets_def Let_def)
  next
    case False
    define d where "d = l - (bi + F)"
    have d: "l - bi = d + F" using False by (simp add: d_def)
    have "pkts r' ! l = packets r1 d" using Q(8) l ps(1) False by (simp add: d_def)
    moreover have "drop F ?sp ! d = ?sp ! (d + F)" using F(3) by (simp add: add.commute)
    moreover have "(d + F) div F = Suc (d div F)" "(d + F) mod F = d mod F" using F(2) by (simp_all add: div_add_self2)
    ultimately show ?thesis using False unfolding d packets_def P F(1)[symmetric] Let_def b(3) by (simp add: add.assoc)
  qed
  have "\<exists>b bm ps sq sz. r' = r\<lparr>TxBufs := b, bufmem := bm, pkts := ps, TxSeqNo := sq, pktsize := sz\<rparr>"
    using Q(9) unfolding r1 by auto
  moreover have "TxSeqNo r + 1 + of_nat c = TxSeqNo r + of_nat (Suc c)" by simp
  ultimately show ?thesis using Q(1-7) b ps(1) el tk dr unfolding pkt_result_def F(1)[symmetric] Let_def by (simp only:) simp
qed

lemma packet_loop_spec:
  assumes "0 < psize_of r" "buf_inv (TxBufs r)"
  shows "\<exists>r'. packet_loop k i bi r = (i + built r k, bi + built r k * nfrags (psize_of r), r') \<and> pkt_result r bi (built r k) r'"
  using assms
proof (induction k arbitrary: i bi r)
  case 0
  then show ?case using pkt_result_0[of r bi] by (auto simp: built_def)
next
  case (Suc k)
  define F where "F = nfrags (psize_of r)"
  define sp where "sp = buf_spare (TxBufs r)"
  define r0 where "r0 = r\<lparr>pktsize := psize_of r\<rparr>"
  define n where "n = min F (length sp)"
  have F0: "0 < F" using nfrags_step(2)[OF Suc.prems(1)] by (simp add: F_def)
  have "pos (psize_of r) 0 = 0" using Suc.prems(1) by (simp add: pos_def)
  with frag_loop_spec[OF Suc.prems(1), of r0 0 n bi] Suc.prems(2) obtain b bm ps where
    fl: "frag_loop (psize_of r) 0 0 bi r0 = (pos (psize_of r) n, int n, bi + n, r0\<lparr>TxBufs := b, bufmem := bm, pkts := ps\<rparr>)"
    "buf_inv b" "buf_used b = buf_used (TxBufs r) @ take n sp" "buf_spare b = drop n sp" "TotalNum b = TotalNum (TxBufs r)"
    "origVA b = origVA (TxBufs r)" "length ps = length (pkts r)"
    "\<forall>l<length ps. ps ! l = (if bi \<le> l \<and> l < bi + n then frag (psize_of r) (TxSeqNo r) (l - bi) (sp ! (l - bi)) else pkts r ! l)"
    by (auto simp: r0_def n_def F_def sp_def)
  have r0: "r\<lparr>pktsize := sint (RawMaxPktSize r)\<rparr> = r0" "pktsize r0 = psize_of r" by (simp_all add: r0_def psize_of_def)
  have lt: "pos (psize_of r) n < psize_of r \<longleftrightarrow> n < F"
    using nfrags_step(1)[OF Suc.prems(1), of n] by (auto simp: pos_def F_def)
  show ?case
  proof (cases "F \<le> length sp")
    case True
    then have n: "n = F" by (simp add: n_def)
    define r1 where "r1 = r\<lparr>pktsize := psize_of r, TxBufs := b, bufmem := bm, pkts := ps, TxSeqNo := TxSeqNo r + 1\<rparr>"
    have step: "packet_loop (Suc k) i bi r = packet_loop k (Suc i) (bi + F) r1"
      using fl(1) lt n by (simp add: r0 r1_def Let_def) (simp add: r0_def)
    have P: "psize_of r1 = psize_of r" "TxBufs r1 = b" by (simp_all add: r1_def psize_of_def)
    from Suc.IH[of r1 "Suc i" "bi + F"] Suc.prems(1) fl(2) obtain r' where
      IH: "packet_loop k (Suc i) (bi + F) r1 = (Suc i + built r1 k, bi + F + built r1 k * F, r')" "pkt_result r1 (bi + F) (built r1 k) r'"
      unfolding P F_def[symmetric] by auto
    have "length sp div F = Suc (length (drop F sp) div F)" using True F0 by (simp add: le_div_geq)
    then have bu: "built r (Suc k) = Suc (built r1 k)"
      unfolding built_def P F_def[symmetric] sp_def[symmetric] using fl(4) n by simp
    have "pkt_result r bi (Suc (built r1 k)) r'"
      using pkt_result_step[OF F_def F0 _ r1_def fl(2)] True fl(3-8) IH(2) n by (simp add: sp_def)
    then show ?thesis using step IH(1) unfolding bu F_def[symmetric] by simp
  next
    case False
    then have n: "n = length sp" "n < F" by (simp_all add: n_def)
    then have bu: "built r (Suc k) = 0" unfolding built_def F_def[symmetric] sp_def[symmetric] by simp
    define b' where "b' = free_unused_loop n b"
    have fb: "buf_inv b'" "buf_used b' = buf_used (TxBufs r)" "buf_spare b' = sp" "TotalNum b' = TotalNum (TxBufs r)" "origVA b' = origVA (TxBufs r)"
      using bufs.free_unused_law[OF fl(2), of n] fl(3-6) n(1) by (simp_all add: b'_def)
    have "n = 0 \<Longrightarrow> b' = b" by (simp add: b'_def)
    then have step: "packet_loop (Suc k) i bi r = (i, bi, r0\<lparr>TxBufs := b', bufmem := bm, pkts := ps\<rparr>)"
      using fl(1) lt n by (cases "n = 0") (simp_all add: r0 Let_def FreeUnusedBuf_def b'_def)
    have "pkt_result r bi 0 (r0\<lparr>TxBufs := b', bufmem := bm, pkts := ps\<rparr>)"
      unfolding pkt_result_def Let_def sp_def[symmetric] using fb fl(7,8)
      by (auto simp: r0_def sp_def intro!: exI[of _ b'] exI[of _ bm] exI[of _ ps] exI[of _ "TxSeqNo r"] exI[of _ "psize_of r"])
    then show ?thesis using step bu by simp
  qed
qed


section \<open>What the base driver takes\<close>

lemma trim_blocks:
  assumes "0 < F" "\<forall>l<length xs. P (xs ! l) \<longleftrightarrow> Suc l mod F = 0"
  shows "length (trim P xs) = length xs div F * F"
  using assms(2)
proof (induction xs rule: rev_induct)
  case Nil
  then show ?case by (simp add: trim_def)
next
  case (snoc x xs)
  have h: "P x \<longleftrightarrow> Suc (length xs) mod F = 0" using snoc.prems[rule_format, of "length xs"] by simp
  have t: "\<forall>l<length xs. P (xs ! l) \<longleftrightarrow> Suc l mod F = 0"
    using snoc.prems by (auto simp: nth_append dest: less_SucI)
  show ?case
  proof (cases "P x")
    case True
    then have "Suc (length xs) div F * F = Suc (length xs)" using h div_mult_mod_eq[of "Suc (length xs)" F] by simp
    then show ?thesis using True by (simp add: trim_def)
  next
    case False
    then have "Suc (length xs) div F = length xs div F" using h by (simp add: div_Suc)
    then show ?thesis using False snoc.IH[OF t] by (simp add: trim_def)
  qed
qed

lemma flag_bits:
  "(PKT_ALL OR (if p then PKT_SOP else 0) OR (if q then PKT_EOP else 0)) AND DMA_BD_SOP_MASK \<noteq> 0 \<longleftrightarrow> p"
  "(PKT_ALL OR (if p then PKT_SOP else 0) OR (if q then PKT_EOP else 0)) AND DMA_BD_EOP_MASK \<noteq> 0 \<longleftrightarrow> q"
  by (simp_all add: PKT_ALL_def PKT_SOP_def PKT_EOP_def DMA_BD_SOP_MASK_def DMA_BD_EOP_MASK_def)

lemma frag_flags:
  "is_sop (frag psize seq j v) \<longleftrightarrow> j = 0" "is_eop (frag psize seq j v) \<longleftrightarrow> Suc j = nfrags psize"
  unfolding is_sop_def is_eop_def frag_def PktBuf.select_convs by (rule flag_bits)+

lemma small_len:
  assumes "0 < x" "x \<le> BUFSIZE"
  shows "(word_of_int x :: u32) AND DMA_BD_BUFL_MASK \<noteq> 0"
proof -
  have m: "DMA_BD_BUFL_MASK = mask 20" by (simp add: DMA_BD_BUFL_MASK_def mask_eq_exp_minus_1)
  have "uint (word_of_int x :: u32) = x" using assms by (simp add: uint_word_of_int BUFSIZE_def PAGE_SIZE_def take_bit_int_eq_self)
  moreover have "uint ((word_of_int x :: u32) AND mask 20) = take_bit 20 (uint (word_of_int x :: u32))"
    by (simp add: take_bit_eq_mask[symmetric] unsigned_take_bit_eq)
  moreover have "take_bit 20 x = x" using assms by (simp add: BUFSIZE_def PAGE_SIZE_def take_bit_int_eq_self)
  ultimately show ?thesis using assms(1) m by auto
qed

lemma frag_has_len:
  assumes "0 < psize" "j < nfrags psize"
  shows "has_len (frag psize seq j v)"
proof -
  have "0 < min BUFSIZE (psize - int j * BUFSIZE)" using nfrags_step(1)[OF assms(1), of j] assms(2)
    by (simp add: BUFSIZE_def PAGE_SIZE_def)
  then show ?thesis using small_len[of "min BUFSIZE (psize - int j * BUFSIZE)"] by (simp add: has_len_def frag_def)
qed

text \<open>The base driver queues the whole packets that fit.\<close>

lemma sent_packets:
  assumes "0 < psize_of r" "F = nfrags (psize_of r)" "\<forall>l<bi. ps ! l = packets r l" "bi \<le> length ps"
  shows "sent s e ps (int bi) = min bi (unat (FreeCnt (ring_of s e)) - 2) div F * F"
proof -
  define f where "f = unat (FreeCnt (ring_of s e))"
  define w where "w = min bi (f - 2)"
  define xs where "xs = take w ps"
  have F0: "0 < F" using nfrags_step(2)[OF assms(1)] assms(2) by simp
  have x: "length xs = w" "\<forall>l<w. xs ! l = packets r l" using assms(3,4) by (auto simp: xs_def w_def)
  have "is_eop (packets r l) \<longleftrightarrow> Suc l mod F = 0" for l
    unfolding packets_def Let_def frag_flags assms(2)[symmetric] using F0 by (simp add: mod_Suc)
  then have "\<forall>l<length xs. is_eop (xs ! l) \<longleftrightarrow> Suc l mod F = 0" using x by simp
  from trim_blocks[OF F0 this] have L: "length (send_set xs) = w div F * F" by (simp add: send_set_def x)
  have "send_valid (send_set xs)"
  proof (cases "send_set xs = []")
    case False
    then have w0: "0 < w" using L by (cases "w = 0") auto
    have hd: "hd (send_set xs) = packets r 0" using False x(2) w0 send_set_take[of xs] by (metis hd_conv_nth hd_take length_0_conv length_greater_0_conv x(1))
    have "has_len p" if p: "p \<in> set (send_set xs)" for p
    proof -
      have "p \<in> set xs" using p send_set_take[of xs] by (metis in_set_takeD)
      then obtain l where "l < w" "p = packets r l" using x by (metis in_set_conv_nth)
      then show ?thesis using frag_has_len[OF assms(1)] F0 by (simp add: packets_def Let_def assms(2)[symmetric])
    qed
    then show ?thesis using hd by (simp add: send_valid_def list_all_iff packets_def Let_def frag_flags)
  qed (simp add: send_valid_def)
  then have cnt: "send_count xs = w div F * F" by (simp add: send_count_def L)
  have win: "send_window (ring_of s e) ps (int bi) = xs" by (simp add: send_window_def xs_def w_def f_def)
  have small: "FreeCnt (ring_of s e) \<le> 2 \<longleftrightarrow> f \<le> 2" unfolding f_def by (simp add: word_le_nat_alt)
  show ?thesis
  proof (cases "int bi \<le> 0 \<or> f \<le> 2")
    case True
    then show ?thesis using small unfolding sent_def f_def[symmetric] by auto
  next
    case False
    then show ?thesis using small cnt unfolding sent_def win f_def[symmetric] w_def by auto
  qed
qed


section \<open>The whole routine\<close>

lemma raw_frame_sel [simp]:
  "raw_static (r\<lparr>TxBufs := b\<rparr>) = raw_static r" "raw_static (r\<lparr>RxBufs := b\<rparr>) = raw_static r"
  "raw_static (r\<lparr>bufmem := bm\<rparr>) = raw_static r" "raw_static (r\<lparr>pkts := ps\<rparr>) = raw_static r"
  "raw_static (r\<lparr>TxSeqNo := sq\<rparr>) = raw_static r" "raw_static (r\<lparr>pktsize := sz\<rparr>) = raw_static r"
  "raw_static (r\<lparr>TxBufCnt := c\<rparr>) = raw_static r"
  by (simp_all add: raw_static_def)

text \<open>The buffers queued by a call: as many whole packets as there are buffers, descriptors and requests.\<close>

definition queued :: "raw drv \<Rightarrow> nat \<Rightarrow> int \<Rightarrow> nat" where
  "queued s e num = (let F = nfrags (psize_of (usr s)) in
     min (built (usr s) (nat num) * F) (unat (FreeCnt (ring_of s e)) - 2) div F * F)"

text \<open>The state after a call that queued \<open>k\<close> buffers.\<close>

definition tx_done :: "nat \<Rightarrow> nat \<Rightarrow> raw drv \<Rightarrow> raw drv \<Rightarrow> bool" where
  "tx_done e k s s' \<longleftrightarrow> idle s' e \<and> done_core e s s' \<and> moves (int k) (hw s) (hw s') \<and> pool s' = pool s \<and> aux s' = aux s
     \<and> EngType (Dma s' e) = EngType (Dma s e) \<and> raw_inv (usr s')
     \<and> (let G = ring_groups (ring_of s e) in ring_groups (ring_of s' e) = G\<lparr>ghw := ghw G @ take k (gfree G), gfree := drop k (gfree G)\<rparr>)
     \<and> (let b = TxBufs (usr s); b' = TxBufs (usr s') in buf_used b' = buf_used b @ take k (buf_spare b) \<and> buf_spare b' = drop k (buf_spare b)
          \<and> TotalNum b' = TotalNum b \<and> origVA b' = origVA b)
     \<and> TxSeqNo (usr s') = TxSeqNo (usr s) + of_nat (k div nfrags (psize_of (usr s)))
     \<and> TxBufCnt (usr s') = TxBufCnt (usr s) + of_nat k \<and> raw_static (usr s') = raw_static (usr s) \<and> RxBufs (usr s') = RxBufs (usr s)"

lemma queued_le: "0 < F \<Longrightarrow> F = nfrags (psize_of (usr s)) \<Longrightarrow>
   queued s e num \<le> built (usr s) (nat num) * F \<and> queued s e num mod F = 0 \<and> queued s e num div F \<le> built (usr s) (nat num)
   \<and> queued s e num \<le> unat (FreeCnt (ring_of s e)) - 2"
proof -
  assume a: "0 < F" "F = nfrags (psize_of (usr s))"
  let ?m = "min (built (usr s) (nat num) * F) (unat (FreeCnt (ring_of s e)) - 2)"
  have q: "queued s e num = ?m div F * F" by (simp add: queued_def a(2) Let_def)
  have "?m div F * F \<le> ?m" by (rule div_times_less_eq_dividend)
  moreover have "?m div F \<le> built (usr s) (nat num)" using a(1) by (metis div_le_mono min.cobounded1 nonzero_mult_div_cancel_right not_less0)
  ultimately show ?thesis using a(1) unfolding q by simp
qed

lemma built_le: "built r k * nfrags (psize_of r) \<le> length (buf_spare (TxBufs r))"
proof -
  have "built r k * nfrags (psize_of r) \<le> length (buf_spare (TxBufs r)) div nfrags (psize_of r) * nfrags (psize_of r)"
    unfolding built_def by (rule mult_le_mono1) simp
  also have "\<dots> \<le> length (buf_spare (TxBufs r))" by (rule div_times_less_eq_dividend)
  finally show ?thesis .
qed

lemma ucast_u16: "(ucast (ucast (x :: u16) :: u64) :: u16) = x"
  by (rule bit_word_eqI) (auto simp: bit_simps)

lemma DmaSetupTransmit_spec:
  assumes ri: "raw_inv (usr s)" and bd: "tx_bound (usr s) e" and ps: "0 < psize_of (usr s)" and nz: "num \<noteq> 0"
    and idl: "idle s e" and st: "DriverState s = INITIALIZED" "EngineState (Dma s e) = USER_ASSIGNED" "IsRxChannel (ring_of s e) = 0"
  shows "\<exists>s'. DmaSetupTransmit (Some e) num s =
      (if built (usr s) (nat num) \<noteq> 0 \<and> queued s e num = built (usr s) (nat num) * nfrags (psize_of (usr s)) then 1 else 0, s')
    \<and> tx_done e (queued s e num) s s'"
proof -
  define r where "r = usr s"
  define F where "F = nfrags (psize_of r)"
  define i where "i = built r (nat num)"
  define bi where "bi = i * F"
  define k where "k = queued s e num"
  have F0: "0 < F" using nfrags_step(2)[OF ps] by (simp add: F_def r_def)
  have bt: "buf_inv (TxBufs r)" "length (pkts r) = NUM_BUFS" using ri by (simp_all add: raw_inv_def r_def)
  have lsp: "bi \<le> length (buf_spare (TxBufs r))" using built_le[of r "nat num"] by (simp add: bi_def i_def F_def)
  also have "\<dots> \<le> nat (TotalNum (TxBufs r))" by (simp add: buf_spare_length)
  also have "\<dots> \<le> NUM_BUFS" using bt(1) by (simp add: buf_inv_def nat_le_iff)
  finally have bn: "bi \<le> length (pkts r)" using bt(2) by simp
  have k: "k \<le> bi" "k mod F = 0" "k div F \<le> i" using queued_le[OF F0, of s e num] by (simp_all add: F_def r_def k_def bi_def i_def)
  have kq: "k = min bi (unat (FreeCnt (ring_of s e)) - 2) div F * F"
    by (simp add: k_def queued_def Let_def bi_def i_def F_def r_def)
  obtain r1 where pl: "packet_loop (nat num) 0 0 r = (i, bi, r1)" "pkt_result r 0 i r1"
    using packet_loop_spec[OF _ bt(1), of "nat num" 0 0] ps by (auto simp: i_def bi_def F_def r_def)
  have R: "buf_inv (TxBufs r1)" "buf_used (TxBufs r1) = buf_used (TxBufs r) @ take bi (buf_spare (TxBufs r))"
    "buf_spare (TxBufs r1) = drop bi (buf_spare (TxBufs r))" "TotalNum (TxBufs r1) = TotalNum (TxBufs r)" "origVA (TxBufs r1) = origVA (TxBufs r)"
    "length (pkts r1) = length (pkts r)" "TxSeqNo r1 = TxSeqNo r + of_nat i" "\<forall>l<bi. pkts r1 ! l = packets r l"
    "\<exists>b bm ps sq sz. r1 = r\<lparr>TxBufs := b, bufmem := bm, pkts := ps, TxSeqNo := sq, pktsize := sz\<rparr>"
    using pl(2) bn unfolding pkt_result_def F_def[symmetric] bi_def[symmetric] Let_def by auto
  have R2: "RxBufs r1 = RxBufs r" "raw_static r1 = raw_static r" "TxBufCnt r1 = TxBufCnt r" using R(9) by auto
  have ri1: "raw_inv r1" using ri R(1,6) R2(1) by (simp add: raw_inv_def r_def)
  define s1 where "s1 = on_hw (spin_unlock RawLock) ((on_hw (spin_lock RawLock) s)\<lparr>usr := r1\<rparr>)"
  have s1: "usr s1 = r1" "Dma s1 = Dma s" "DriverState s1 = DriverState s" "pool s1 = pool s" "static s1 = static s" "aux s1 = aux s"
    "moves 0 (hw s) (hw s1)" by (simp_all add: s1_def)
  have rg: "ring_of s1 = ring_of s" using s1(2) by (simp add: ring_of_def fun_eq_iff)
  show ?thesis
  proof (cases "i = 0")
    case True
    then have k0: "bi = 0" "k = 0" using k(1) by (simp_all add: bi_def)
    have run: "DmaSetupTransmit (Some e) num s = (0, s1)"
      using bd nz pl(1) True by (simp add: DmaSetupTransmit_def tx_bound_def Let_def s1_def r_def)
    have "tx_done e 0 s s1"
      using idl R R2 s1 rg ri1 True k0 by (simp add: tx_done_def idle_def done_core_def r_def Let_def)
    then show ?thesis using run True k0 by (simp add: i_def r_def k_def)
  next
    case False
    have "sent s1 e (pkts r1) (int bi) = k"
      using sent_packets[of r F bi "pkts r1" s1 e] ps F_def R(6,8) bn kq by (simp add: rg r_def)
    moreover have "idle s1 e" using idl by (simp add: idle_def rg)
    ultimately obtain s2 where s2: "DmaSendPkt (Some e) (pkts r1) (int bi) s1 = (int k, s2)" "idle s2 e" "done_core e s1 s2"
      "moves (int k) (hw s1) (hw s2)"
      "ring_groups (ring_of s2 e) = (ring_groups (ring_of s e))\<lparr>ghw := ghw (ring_groups (ring_of s e)) @ take k (gfree (ring_groups (ring_of s e))),
         gfree := drop k (gfree (ring_groups (ring_of s e)))\<rparr>"
      "usr s2 = r1" "pool s2 = pool s" "aux s2 = aux s" "EngType (Dma s2 e) = EngType (Dma s e)"
      using send_idle[of s1 e "int bi" "pkts r1"] st s1 rg bn R(6) by auto
    define s3 where "s3 = with_usr (\<lambda>r. r\<lparr>TxBufCnt := TxBufCnt r + word_of_int (int k)\<rparr>) s2"
    have s3: "usr s3 = r1\<lparr>TxBufCnt := TxBufCnt r + of_nat k\<rparr>" by (simp add: s3_def with_usr_def s2(6) R2)
    have mv: "moves (int k) (hw s) (hw s2)" using moves_trans0[OF s1(7) s2(4)] .
    have dc: "done_core e s s2" using s2(3) s1 rg by (simp add: done_core_def)
    have fin: "tx_done e k s s'" if same: "Dma s' = Dma s2" "pool s' = pool s2" "aux s' = aux s2" "static s' = static s2" "moves 0 (hw s2) (hw s')"
      and u: "usr s' = r1\<lparr>TxBufCnt := TxBufCnt r + of_nat k, TxSeqNo := TxSeqNo r + of_nat (k div F), TxBufs := free_unused_loop (bi - k) (TxBufs r1)\<rparr>" for s'
    proof -
      have rs: "ring_of s' = ring_of s2" using same(1) by (simp add: ring_of_def fun_eq_iff)
      have bk: "length (buf_used (TxBufs r1)) - (bi - k) = length (buf_used (TxBufs r)) + k" using R(2) lsp k(1) by simp
      have b: "buf_used (TxBufs (usr s')) = buf_used (TxBufs r) @ take k (buf_spare (TxBufs r))"
        "buf_spare (TxBufs (usr s')) = drop k (buf_spare (TxBufs r))" "buf_inv (TxBufs (usr s'))"
      proof -
        note L = bufs.free_unused_law[OF R(1), of "bi - k", unfolded bk]
        have t: "TxBufs (usr s') = free_unused_loop (bi - k) (TxBufs r1)" by (simp add: u)
        show "buf_used (TxBufs (usr s')) = buf_used (TxBufs r) @ take k (buf_spare (TxBufs r))"
          unfolding t using L R(2) k(1) by (simp add: take_take min_absorb1)
        show "buf_inv (TxBufs (usr s'))" unfolding t using L by simp
        have "drop k (take bi (buf_spare (TxBufs r))) @ drop bi (buf_spare (TxBufs r)) = drop k (buf_spare (TxBufs r))"
          using k(1) lsp by (metis append_take_drop_id drop_append drop_eq_Nil diff_is_0_eq drop0 length_take min.absorb2)
        then show "buf_spare (TxBufs (usr s')) = drop k (buf_spare (TxBufs r))" unfolding t using L R(2,3) by simp
      qed
      have "raw_inv (usr s')" using ri1 b(3) by (simp add: raw_inv_def u)
      moreover have "done_core e s s'" using dc same by (simp add: done_core_def rs)
      moreover have "idle s' e" using s2(2) by (simp add: idle_def rs)
      moreover have "moves (int k) (hw s) (hw s')" using moves_trans[OF mv same(5)] by simp
      ultimately show ?thesis using s2 b R R2 same unfolding tx_done_def r_def[symmetric] F_def[symmetric]
        by (simp add: rs Let_def u)
    qed
    show ?thesis
    proof (cases "k = bi")
      case True
      have run: "DmaSetupTransmit (Some e) num s = (1, s3)"
        using bd nz pl(1) False True s2(1) s1(1)
        by (simp add: DmaSetupTransmit_def tx_bound_def Let_def s1_def[symmetric] r_def[symmetric] s3_def)
      have "bi div F = i" using F0 by (simp add: bi_def)
      then have "usr s3 = r1\<lparr>TxBufCnt := TxBufCnt r + of_nat k, TxSeqNo := TxSeqNo r + of_nat (k div F), TxBufs := free_unused_loop (bi - k) (TxBufs r1)\<rparr>"
        using True R(7) by (simp add: s3)
      then have "tx_done e k s s3" by (intro fin) (simp_all add: s3_def with_usr_def)
      then show ?thesis using run True False by (auto simp: i_def r_def k_def bi_def F_def)
    next
      case False
      define sq where "sq = (if k \<noteq> 0 then ucast (userInfo (pkts r1 ! k)) else TxSeqNo r)"
      have sq: "sq = TxSeqNo r + of_nat (k div F)"
      proof (cases "k = 0")
        case False
        have "k < bi" using k(1) \<open>k \<noteq> bi\<close> by simp
        then have "pkts r1 ! k = packets r k" using R(8) by simp
        then show ?thesis using False by (simp add: sq_def packets_def Let_def frag_def F_def ucast_u16)
      qed (simp add: sq_def)
      define s' where "s' = on_hw (spin_unlock RawLock) (with_usr (\<lambda>r. r\<lparr>TxBufs := FreeUnusedBuf (int bi - int k) (TxBufs r)\<rparr>)
         (on_hw (spin_lock RawLock) (with_usr (\<lambda>r. r\<lparr>TxSeqNo := sq\<rparr>) s3)))"
      have "pkts (usr s3) = pkts r1" by (simp add: s3)
      then have run: "DmaSetupTransmit (Some e) num s = (0, s')"
        using bd nz pl(1) \<open>i \<noteq> 0\<close> False s2(1) s1(1)
        by (simp add: DmaSetupTransmit_def tx_bound_def Let_def s1_def[symmetric] r_def[symmetric] s3_def s'_def sq_def with_usr_def s2(6))
      have "nat (int bi - int k) = bi - k" by simp
      then have "usr s' = r1\<lparr>TxBufCnt := TxBufCnt r + of_nat k, TxSeqNo := TxSeqNo r + of_nat (k div F), TxBufs := free_unused_loop (bi - k) (TxBufs r1)\<rparr>"
        by (simp add: s'_def with_usr_def s3 FreeUnusedBuf_def sq)
      then have "tx_done e k s s'" by (intro fin) (simp_all add: s'_def s3_def with_usr_def moves_def)
      then show ?thesis using run False by (auto simp: i_def r_def k_def bi_def F_def)
    qed
  qed
qed

end
