(* ===== verification/XdmaIoctl.thy ===== *)
theory XdmaIoctl
  imports XdmaProbe
begin

text \<open>
  The device file of the base driver: \<open>xdma_dev_ioctl\<close> and \<open>ReadPCIState\<close> of
  \<open>fc1553_dma/xdma/xdma_base.c\<close> with the command numbers and structures of
  \<open>fc1553_dma/include/xpmon_be.h\<close>. Each command is a definition of its own; memory of the calling
  process is an argument and a result, and \<open>copy_from_user\<close>, \<open>copy_to_user\<close> and \<open>access_ok\<close> may fail.
\<close>

section \<open>Commands\<close>

definition IOC :: "u32 \<Rightarrow> u32 \<Rightarrow> u32 \<Rightarrow> u32 \<Rightarrow> u32" where
  "IOC dir type nr sz = push_bit 30 dir OR push_bit 8 type OR nr OR push_bit 16 sz"

definition IOC_TYPE :: "u32 \<Rightarrow> u32" where "IOC_TYPE cmd = drop_bit 8 cmd AND 0xFF"
definition IOC_NR :: "u32 \<Rightarrow> u32" where "IOC_NR cmd = cmd AND 0xFF"
definition IOC_DIR :: "u32 \<Rightarrow> u32" where "IOC_DIR cmd = drop_bit 30 cmd AND 3"
definition IOC_WRITE :: u32 where "IOC_WRITE = 1"
definition IOC_READ :: u32 where "IOC_READ = 2"

definition XPMON_MAGIC :: u32 where "XPMON_MAGIC = 0x43"
definition XPMON_MAX_CMD :: u32 where "XPMON_MAX_CMD = 8"

definition IGET_TEST_STATE :: u32 where "IGET_TEST_STATE = IOC IOC_READ XPMON_MAGIC 1 16"
definition ISTART_TEST :: u32 where "ISTART_TEST = IOC IOC_WRITE XPMON_MAGIC 2 16"
definition ISTOP_TEST :: u32 where "ISTOP_TEST = IOC IOC_WRITE XPMON_MAGIC 3 16"
definition IGET_PCI_STATE :: u32 where "IGET_PCI_STATE = IOC IOC_READ XPMON_MAGIC 4 60"
definition IGET_ENG_STATE :: u32 where "IGET_ENG_STATE = IOC IOC_READ XPMON_MAGIC 5 36"
definition IGET_DMA_STATISTICS :: u32 where "IGET_DMA_STATISTICS = IOC IOC_READ XPMON_MAGIC 6 8"
definition IGET_TRN_STATISTICS :: u32 where "IGET_TRN_STATISTICS = IOC IOC_READ XPMON_MAGIC 7 8"
definition IGET_SW_STATISTICS :: u32 where "IGET_SW_STATISTICS = IOC IOC_READ XPMON_MAGIC 8 8"

lemmas ioc_defs = IOC_def IOC_TYPE_def IOC_NR_def IOC_DIR_def IOC_WRITE_def IOC_READ_def XPMON_MAGIC_def XPMON_MAX_CMD_def
  IGET_TEST_STATE_def ISTART_TEST_def ISTOP_TEST_def IGET_PCI_STATE_def IGET_ENG_STATE_def
  IGET_DMA_STATISTICS_def IGET_TRN_STATISTICS_def IGET_SW_STATISTICS_def

definition ENOTTY :: int where [hwc]: "ENOTTY = 25"

section \<open>Structures\<close>

record TestCmd =
  tc_Engine :: int
  tc_TestMode :: u32
  tc_MinPktSize :: u32
  tc_MaxPktSize :: u32

record EngState =
  es_Engine :: int
  es_BDs :: int
  es_Buffers :: int
  es_MinPktSize :: u32
  es_MaxPktSize :: u32
  es_BDerrs :: int
  es_BDSerrs :: int
  es_IntEnab :: int
  es_TestMode :: u32

record PCIState =
  ps_Version :: u32
  ps_LinkState :: int
  ps_LinkSpeed :: int
  ps_LinkWidth :: int
  ps_VendorId :: u32
  ps_DeviceId :: u32
  ps_IntMode :: int
  ps_MPS :: int
  ps_MRRS :: int
  ps_InitFC :: "u32 list"

text \<open>
  The calling process: whether its argument can be read, whether the \<open>n\<close>-th copy back succeeds,
  and whether the access check passes.
\<close>

record uaccess =
  from_ok :: bool
  to_ok :: "nat \<Rightarrow> bool"
  access_ok :: bool

section \<open>Test control\<close>

text \<open>
  The check of the engine number. It has no lower bound; for a negative number the shift is
  undefined (\<open>None\<close>).
\<close>

definition eng_invalid :: "'u drv \<Rightarrow> int \<Rightarrow> bool option" where
  "eng_invalid s i =
     (if i \<ge> int MAX_DMA_ENGINES then Some True
      else if i < 0 then None
      else Some (\<not> engine_present s (nat i)))"

definition no_user_state :: "'u drv \<Rightarrow> nat \<Rightarrow> bool" where
  "no_user_state s e \<longleftrightarrow> EngineState (Dma s e) \<noteq> USER_ASSIGNED \<or> UserGetState (user (Dma s e)) = None"

text \<open>\<open>us0\<close> is the uninitialised local structure handed to the callback.\<close>

definition ioctl_get_test_state ::
  "uaccess \<Rightarrow> UserState \<Rightarrow> TestCmd \<Rightarrow> 'u drv \<Rightarrow> (int \<times> TestCmd option \<times> 'u drv) outcome" where
  "ioctl_get_test_state ua us0 tc s =
     (if \<not> from_ok ua then Returned (- EFAULT, None, s)
      else case eng_invalid s (tc_Engine tc) of
        None \<Rightarrow> Undefined
      | Some True \<Rightarrow> Returned (- EFAULT, None, s)
      | Some False \<Rightarrow>
          let e = nat (tc_Engine tc)
          in if no_user_state s e then Returned (- EFAULT, None, s)
          else
            let (r, us, s) = call_UserGetState e us0 s
            in if r = 0
               then let tc = tc\<lparr>tc_TestMode := TestMode us, tc_MinPktSize := word_of_int (MinPktSize us),
                                tc_MaxPktSize := word_of_int (MaxPktSize us)\<rparr>
                    in if to_ok ua 0 then Returned (0, Some tc, s) else Returned (- EFAULT, None, s)
               else Returned (- EFAULT, None, s))"

definition ioctl_set_test ::
  "uaccess \<Rightarrow> UserState \<Rightarrow> TestCmd \<Rightarrow> 'u drv \<Rightarrow> (int \<times> 'u drv) outcome" where
  "ioctl_set_test ua us0 tc s =
     (if \<not> from_ok ua then Returned (- EFAULT, s)
      else case eng_invalid s (tc_Engine tc) of
        None \<Rightarrow> Undefined
      | Some True \<Rightarrow> Returned (- EFAULT, s)
      | Some False \<Rightarrow>
          let e = nat (tc_Engine tc)
          in if no_user_state s e then Returned (- EFAULT, s)
          else
            let us = us0\<lparr>TestMode := tc_TestMode tc, MinPktSize := sint (tc_MinPktSize tc),
                         MaxPktSize := sint (tc_MaxPktSize tc)\<rparr>
            in Returned (call_UserSetState e us s))"

definition ioctl_get_eng_state ::
  "uaccess \<Rightarrow> UserState \<Rightarrow> EngState \<Rightarrow> 'u drv \<Rightarrow> (int \<times> EngState option \<times> 'u drv) outcome" where
  "ioctl_get_eng_state ua us0 eng s =
     (if \<not> from_ok ua then Returned (- EFAULT, None, s)
      else case eng_invalid s (es_Engine eng) of
        None \<Rightarrow> Undefined
      | Some True \<Rightarrow> Returned (- EFAULT, None, s)
      | Some False \<Rightarrow>
          let e = nat (es_Engine eng)
          in if no_user_state s e then Returned (- EFAULT, None, s)
          else
            let (r, us, s) = call_UserGetState e us0 s
            in if r = 0
               then let eng = eng\<lparr>es_Buffers := Buffers us, es_MinPktSize := word_of_int (MinPktSize us),
                                  es_MaxPktSize := word_of_int (MaxPktSize us), es_TestMode := TestMode us,
                                  es_BDs := int DMA_BD_CNT, es_BDerrs := sint (BDerrs (ring_of s e)),
                                  es_BDSerrs := sint (BDSerrs (ring_of s e)),
                                  es_IntEnab := (if TH_BH_ISR s then 1 else 0)\<rparr>
                    in if to_ok ua 0 then Returned (0, Some eng, s) else Returned (- EFAULT, None, s)
               else Returned (- EFAULT, None, s))"

section \<open>PCI state\<close>

text \<open>What the configuration space of the board holds; a missing capability is position 0.\<close>

record pci_cfg =
  interrupt_pin :: u8
  cap_msix :: bool
  cap_msi :: bool
  cap_exp :: bool
  lnksta :: u16
  devctl :: u16

definition ReadPCIState :: "pci_cfg \<Rightarrow> 'u drv \<Rightarrow> PCIState \<times> 'u drv" where
  "ReadPCIState c s =
     (let valb = interrupt_pin c;
          mode = (if valb = 0
                  then (if cap_msix c then 3 else if cap_msi c then 2 else 0)
                  else if valb \<ge> 1 \<and> valb \<le> 4 then 1 else 0);
          (speed, width, mps, mrrs) =
            (if cap_exp c
             then (uint (lnksta c AND 0x0003), uint (drop_bit 4 (lnksta c AND 0x03f0)),
                   128 * 2 ^ unat (drop_bit 5 (devctl c AND 0x00e0)),
                   128 * 2 ^ unat (drop_bit 12 (devctl c AND 0x7000)))
             else (0, 0, 0, 0));
          base = baseVAddr s 0;
          (a, m) = XIo_In32 (base + 0x901c) (hw s);
          (b, m) = XIo_In32 (base + 0x9020) m;
          (c1, m) = XIo_In32 (base + 0x9024) m;
          (d, m) = XIo_In32 (base + 0x9028) m;
          (e, m) = XIo_In32 (base + 0x902c) m;
          (f, m) = XIo_In32 (base + 0x9030) m;
          (v, m) = XIo_In32 (base + 0x9000) m
      in (\<lparr>ps_Version = v, ps_LinkState = 1, ps_LinkSpeed = speed, ps_LinkWidth = width, ps_VendorId = 0x10EE,
           ps_DeviceId = 0x7042, ps_IntMode = mode, ps_MPS = mps, ps_MRRS = mrrs,
           ps_InitFC = [a AND 0x00000FFF, b AND 0x000000FF, c1 AND 0x00000FFF, d AND 0x000000FF,
                        e AND 0x00000FFF, f AND 0x000000FF]\<rparr>, s\<lparr>hw := m\<rparr>))"

definition ioctl_get_pci_state :: "uaccess \<Rightarrow> pci_cfg \<Rightarrow> 'u drv \<Rightarrow> int \<times> PCIState option \<times> 'u drv" where
  "ioctl_get_pci_state ua c s =
     (let (ps, s) = ReadPCIState c s in if to_ok ua 0 then (0, Some ps, s) else (- EFAULT, None, s))"

section \<open>Statistics\<close>

text \<open>
  The inner loop over the engines: loop counter, records written to the caller's array so far (in
  order), state; the flag tells that a copy failed. \<open>takej\<close> fetches the oldest sample of an engine.
\<close>

fun stats_inner ::
  "uaccess \<Rightarrow> ('u drv \<Rightarrow> nat \<Rightarrow> nat) \<Rightarrow> (nat \<Rightarrow> 'u drv \<Rightarrow> 'r \<times> 'u drv) \<Rightarrow> int \<Rightarrow> nat list
     \<Rightarrow> int \<times> 'r list \<times> 'u drv \<Rightarrow> bool \<times> int \<times> 'r list \<times> 'u drv" where
  "stats_inner ua num takej Count [] (i, out, s) = (False, i, out, s)"
| "stats_inner ua num takej Count (j # js) (i, out, s) =
     (if num s j = 0 then stats_inner ua num takej Count js (i, out, s)
      else
        let s = on_hw (spin_lock DmaStatsLock) s;
            (frm, s) = takej j s;
            s = on_hw (spin_unlock DmaStatsLock) s
        in if \<not> to_ok ua (length out) then (True, i, out, s)
        else
          let out = out @ [frm];
              i = i + 1
          in if i \<ge> Count then (False, i, out, s)
             else stats_inner ua num takej Count js (i, out, s))"

text \<open>
  The outer loop. Its counter grows in every round, so \<open>nat Count\<close> rounds are enough
  (\<open>stats_outer_enough\<close>).
\<close>

fun stats_outer ::
  "nat \<Rightarrow> uaccess \<Rightarrow> ('u drv \<Rightarrow> nat \<Rightarrow> nat) \<Rightarrow> (nat \<Rightarrow> 'u drv \<Rightarrow> 'r \<times> 'u drv) \<Rightarrow> int
     \<Rightarrow> int \<times> 'r list \<times> 'u drv \<Rightarrow> bool \<times> int \<times> 'r list \<times> 'u drv" where
  "stats_outer 0 ua num takej Count (i, out, s) = (False, i, out, s)"
| "stats_outer (Suc k) ua num takej Count (i, out, s) =
     (if i \<ge> Count then (False, i, out, s)
      else
        let (failed, i, out, s) = stats_inner ua num takej Count [0..<MAX_DMA_ENGINES] (i, out, s)
        in if failed then (True, i, out, s)
           else stats_outer k ua num takej Count (i + 1, out, s))"

definition dma_take :: "nat \<Rightarrow> 'u drv \<Rightarrow> DMAStatistics \<times> 'u drv" where
  "dma_take j s = (let (frm, q) = stats_get (DStats s j)
                   in (frm\<lparr>D_Engine := int j\<rparr>, s\<lparr>DStats := (DStats s)(j := q)\<rparr>))"

definition sw_take :: "nat \<Rightarrow> 'u drv \<Rightarrow> SWStatistics \<times> 'u drv" where
  "sw_take j s = (let (frm, q) = stats_get (SStats s j)
                  in (frm\<lparr>S_Engine := int j\<rparr>, s\<lparr>SStats := (SStats s)(j := q)\<rparr>))"

definition dma_num :: "'u drv \<Rightarrow> nat \<Rightarrow> nat" where "dma_num s j = statsNum (DStats s j)"
definition sw_num :: "'u drv \<Rightarrow> nat \<Rightarrow> nat" where "sw_num s j = statsNum (SStats s j)"

text \<open>The result, the records written, the count written back (if that copy succeeded).\<close>

definition ioctl_dma_statistics :: "uaccess \<Rightarrow> int \<Rightarrow> 'u drv \<Rightarrow> int \<times> DMAStatistics list \<times> int option \<times> 'u drv" where
  "ioctl_dma_statistics ua Count s =
     (if \<not> from_ok ua then (- 1, [], None, s)
      else
        let (failed, i, out, s) = stats_outer (nat Count) ua dma_num dma_take Count (0, [], s)
        in if to_ok ua (length out + (if failed then 1 else 0)) then (if failed then - EFAULT else 0, out, Some (int (length out)), s)
           else (- EFAULT, out, None, s))"

definition ioctl_sw_statistics :: "uaccess \<Rightarrow> int \<Rightarrow> 'u drv \<Rightarrow> int \<times> SWStatistics list \<times> int option \<times> 'u drv" where
  "ioctl_sw_statistics ua Count s =
     (if \<not> from_ok ua then (- 1, [], None, s)
      else
        let (failed, i, out, s) = stats_outer (nat Count) ua sw_num sw_take Count (0, [], s)
        in if to_ok ua (length out + (if failed then 1 else 0)) then (if failed then - EFAULT else 0, out, Some (int (length out)), s)
           else (- EFAULT, out, None, s))"

text \<open>The loop over the transaction-layer samples: at most \<open>k\<close> of them.\<close>

fun trn_loop :: "uaccess \<Rightarrow> nat \<Rightarrow> TRNStatistics list \<times> 'u drv \<Rightarrow> bool \<times> TRNStatistics list \<times> 'u drv" where
  "trn_loop ua 0 (out, s) = (False, out, s)"
| "trn_loop ua (Suc k) (out, s) =
     (if statsNum (TStats s) = 0 then (False, out, s)
      else
        let s = on_hw (spin_lock DmaStatsLock) s;
            (frm, q) = stats_get (TStats s);
            s = s\<lparr>TStats := q\<rparr>;
            s = on_hw (spin_unlock DmaStatsLock) s
        in if \<not> to_ok ua (length out) then (True, out, s)
           else trn_loop ua k (out @ [frm], s))"

definition ioctl_trn_statistics :: "uaccess \<Rightarrow> int \<Rightarrow> 'u drv \<Rightarrow> int \<times> TRNStatistics list \<times> int option \<times> 'u drv" where
  "ioctl_trn_statistics ua Count s =
     (if \<not> from_ok ua then (- 1, [], None, s)
      else
        let (failed, out, s) = trn_loop ua (nat Count) ([], s)
        in if to_ok ua (length out + (if failed then 1 else 0)) then (if failed then - EFAULT else 0, out, Some (int (length out)), s)
           else (- EFAULT, out, None, s))"

section \<open>The entry point\<close>

text \<open>
  The memory the argument points to, as each command reads it, and what is written back, by the
  structure the command works on.
\<close>

record ioctl_arg =
  as_TestCmd :: TestCmd
  as_EngState :: EngState
  as_Count :: int

datatype ioctl_out = NoOut | OutTest TestCmd | OutPci PCIState | OutEng EngState
  | OutDma "DMAStatistics list" "int option" | OutTrn "TRNStatistics list" "int option"
  | OutSw "SWStatistics list" "int option"

fun map_outcome :: "('a \<Rightarrow> 'b) \<Rightarrow> 'a outcome \<Rightarrow> 'b outcome" where
  "map_outcome f Undefined = Undefined"
| "map_outcome f (Returned x) = Returned (f x)"

definition opt_out :: "('a \<Rightarrow> ioctl_out) \<Rightarrow> 'a option \<Rightarrow> ioctl_out" where
  "opt_out f x = (case x of None \<Rightarrow> NoOut | Some y \<Rightarrow> f y)"

definition xdma_dev_ioctl ::
  "uaccess \<Rightarrow> pci_cfg \<Rightarrow> UserState \<Rightarrow> u32 \<Rightarrow> ioctl_arg \<Rightarrow> 'u drv \<Rightarrow> (int \<times> ioctl_out \<times> 'u drv) outcome" where
  "xdma_dev_ioctl ua c us0 cmd arg s =
     (if DriverState s \<noteq> INITIALIZED then Returned (- 1, NoOut, s)
      else if IOC_TYPE cmd \<noteq> XPMON_MAGIC then Returned (- ENOTTY, NoOut, s)
      else if IOC_NR cmd > XPMON_MAX_CMD then Returned (- ENOTTY, NoOut, s)
      else if IOC_DIR cmd AND IOC_READ \<noteq> 0 \<and> \<not> access_ok ua then Returned (- EFAULT, NoOut, s)
      else if IOC_DIR cmd AND IOC_WRITE \<noteq> 0 \<and> \<not> access_ok ua then Returned (- EFAULT, NoOut, s)
      else if cmd = IGET_TEST_STATE
      then map_outcome (\<lambda>(r, x, s). (r, opt_out OutTest x, s)) (ioctl_get_test_state ua us0 (as_TestCmd arg) s)
      else if cmd = ISTART_TEST \<or> cmd = ISTOP_TEST
      then map_outcome (\<lambda>(r, s). (r, NoOut, s)) (ioctl_set_test ua us0 (as_TestCmd arg) s)
      else if cmd = IGET_PCI_STATE
      then Returned (let (r, x, s) = ioctl_get_pci_state ua c s in (r, opt_out OutPci x, s))
      else if cmd = IGET_ENG_STATE
      then map_outcome (\<lambda>(r, x, s). (r, opt_out OutEng x, s)) (ioctl_get_eng_state ua us0 (as_EngState arg) s)
      else if cmd = IGET_DMA_STATISTICS
      then Returned (let (r, l, n, s) = ioctl_dma_statistics ua (as_Count arg) s in (r, OutDma l n, s))
      else if cmd = IGET_TRN_STATISTICS
      then Returned (let (r, l, n, s) = ioctl_trn_statistics ua (as_Count arg) s in (r, OutTrn l n, s))
      else if cmd = IGET_SW_STATISTICS
      then Returned (let (r, l, n, s) = ioctl_sw_statistics ua (as_Count arg) s in (r, OutSw l n, s))
      else Returned (- 1, NoOut, s))"

section \<open>The statistics loops\<close>

lemma stats_inner_bounds:
  "stats_inner ua num takej Count js (i, out, s) = (failed, i', out', s') \<Longrightarrow> i < Count \<Longrightarrow> int (length out) \<le> i \<Longrightarrow>
   i \<le> i' \<and> i' \<le> Count \<and> int (length out') \<le> i' \<and> int (length out') - int (length out) = i' - i"
proof (induction js arbitrary: i out s)
  case (Cons j js)
  show ?case
  proof (cases "num s j = 0")
    case True
    then show ?thesis using Cons by simp
  next
    case False
    obtain frm t where t: "takej j (on_hw (spin_lock DmaStatsLock) s) = (frm, t)" by (metis surj_pair)
    show ?thesis
    proof (cases "to_ok ua (length out) \<and> i + 1 < Count")
      case True
      then have "stats_inner ua num takej Count js (i + 1, out @ [frm], on_hw (spin_unlock DmaStatsLock) t) = (failed, i', out', s')"
        using Cons.prems(1) False t by (simp add: Let_def)
      from Cons.IH[OF this] True Cons.prems(3) show ?thesis by simp
    next
      case stop: False
      then show ?thesis using Cons.prems False t by (auto simp: Let_def split: if_splits)
    qed
  qed
qed simp

text \<open>The caller's array of \<open>Count\<close> records is never overrun.\<close>

lemma stats_outer_bounds:
  "stats_outer k ua num takej Count (i, out, s) = (failed, i', out', s') \<Longrightarrow> int (length out) \<le> i \<Longrightarrow> int (length out) \<le> max 0 Count \<Longrightarrow>
   int (length out') \<le> max 0 Count"
proof (induction k arbitrary: i out s)
  case (Suc k)
  show ?case
  proof (cases "i \<ge> Count")
    case True
    then show ?thesis using Suc.prems by simp
  next
    case False
    obtain f i1 o1 s1 where r: "stats_inner ua num takej Count [0..<MAX_DMA_ENGINES] (i, out, s) = (f, i1, o1, s1)"
      by (metis prod_cases4)
    have b: "i \<le> i1" "i1 \<le> Count" "int (length o1) \<le> i1" using stats_inner_bounds[OF r] False Suc.prems(2) by auto
    show ?thesis
    proof (cases f)
      case True
      then show ?thesis using Suc.prems(1) False r b by simp
    next
      case nf: False
      then have "stats_outer k ua num takej Count (i1 + 1, o1, s1) = (failed, i', out', s')"
        using Suc.prems(1) False r by simp
      from Suc.IH[OF this] show ?thesis using b by simp
    qed
  qed
qed simp

text \<open>More rounds than \<open>nat (Count - i)\<close> change nothing.\<close>

lemma stats_outer_enough:
  "int (length out) \<le> i \<Longrightarrow> nat (Count - i) \<le> k \<Longrightarrow> stats_outer k ua num takej Count (i, out, s) = stats_outer (nat (Count - i)) ua num takej Count (i, out, s)"
proof (induction "nat (Count - i)" arbitrary: i out s k rule: less_induct)
  case less
  show ?case
  proof (cases "i \<ge> Count")
    case True
    then show ?thesis by (cases k) simp_all
  next
    case False
    then obtain n k' where n: "nat (Count - i) = Suc n" "k = Suc k'" using less.prems(2) by (cases k; cases "nat (Count - i)") auto
    obtain f i1 o1 s1 where r: "stats_inner ua num takej Count [0..<MAX_DMA_ENGINES] (i, out, s) = (f, i1, o1, s1)"
      by (metis prod_cases4)
    have b: "i \<le> i1" "int (length o1) \<le> i1" using stats_inner_bounds[OF r] False less.prems(1) by auto
    have m: "nat (Count - (i1 + 1)) < nat (Count - i)" "nat (Count - (i1 + 1)) \<le> k'" "nat (Count - (i1 + 1)) \<le> n"
      using b False n less.prems(2) by auto
    have l: "int (length o1) \<le> i1 + 1" using b by simp
    from less.hyps[OF m(1) l m(2)] less.hyps[OF m(1) l m(3)] show ?thesis
      unfolding n by (simp add: r False)
  qed
qed

section \<open>The transaction-layer statistics\<close>

lemma trn_loop_spec:
  assumes "\<forall>n. to_ok ua n" "stats_inv (TStats s)"
  shows "\<exists>s'. trn_loop ua k (out, s) = (False, out @ take k (stats_contents (TStats s)), s')
     \<and> stats_inv (TStats s') \<and> stats_contents (TStats s') = drop k (stats_contents (TStats s)) \<and> moves 0 (hw s) (hw s')"
  using assms(2)
proof (induction k arbitrary: out s)
  case 0
  then show ?case by simp
next
  case (Suc k)
  show ?case
  proof (cases "statsNum (TStats s) = 0")
    case True
    then show ?thesis using Suc.prems by (simp add: stats_contents_def)
  next
    case False
    then have "stats_contents (TStats s) \<noteq> []" by (simp add: stats_contents_def flip: length_0_conv)
    then obtain x xs where c: "stats_contents (TStats s) = x # xs" by (cases "stats_contents (TStats s)") auto
    obtain q where q: "stats_get (TStats s) = (x, q)" "stats_inv q" "stats_contents q = xs"
      using stats.get_law[OF Suc.prems c] by blast
    define t where "t = on_hw (spin_unlock DmaStatsLock) ((on_hw (spin_lock DmaStatsLock) s)\<lparr>TStats := q\<rparr>)"
    have "TStats (on_hw (spin_lock DmaStatsLock) s) = TStats s" by (simp add: on_hw_def)
    then have r: "trn_loop ua (Suc k) (out, s) = trn_loop ua k (out @ [x], t)"
      using False q(1) assms(1) by (simp add: Let_def t_def)
    have t: "TStats t = q" "moves 0 (hw s) (hw t)" by (simp_all add: t_def on_hw_def moves_def)
    have "stats_inv (TStats t)" using q(2) t(1) by simp
    from Suc.IH[OF this, of "out @ [x]"] t q(3) c moves_trans0[OF t(2)] show ?thesis unfolding r by auto
  qed
qed

section \<open>The command word\<close>

definition xpmon_cmds :: "u32 list" where
  "xpmon_cmds = [IGET_TEST_STATE, ISTART_TEST, ISTOP_TEST, IGET_PCI_STATE, IGET_ENG_STATE, IGET_DMA_STATISTICS,
     IGET_TRN_STATISTICS, IGET_SW_STATISTICS]"

lemma xpmon_cmds_pass: "distinct xpmon_cmds \<and> list_all (\<lambda>c. IOC_TYPE c = XPMON_MAGIC \<and> IOC_NR c \<le> XPMON_MAX_CMD) xpmon_cmds"
  by (simp add: xpmon_cmds_def ioc_defs)

lemma ioctl_unknown:
  "cmd \<notin> set xpmon_cmds \<Longrightarrow> \<exists>r. xdma_dev_ioctl ua c us0 cmd arg s = Returned (r, NoOut, s) \<and> r < 0"
  by (simp add: xdma_dev_ioctl_def xpmon_cmds_def hwc)

end
