(* ===== verification/System.thy ===== *)
theory System
  imports SguserSend XdmaIoctl
begin

text \<open>
  The base driver and the raw data driver together: the invariant of the running system, the step
  relation over all entry points that run concurrently with the hardware, and the proof that the
  invariant holds in every reachable state. Entry points are atomic here; the parts the driver
  runs outside its locks (the callbacks) take their own lock.
\<close>

section \<open>The running system\<close>

definition etx :: "raw \<Rightarrow> nat" where
  "etx r = nat (ENGINE_TX r)"

definition erx :: "raw \<Rightarrow> nat" where
  "erx r = nat (ENGINE_RX r)"

lemma etx_erx: "etx r \<noteq> erx r" "etx r < 64" "erx r < 64" "int (etx r) = ENGINE_TX r" "int (erx r) = ENGINE_RX r"
  by (simp_all add: etx_def erx_def ENGINE_TX_def ENGINE_RX_def)

text \<open>One engine in service: its descriptors queued are exactly the buffers its user has handed out.\<close>

definition in_service :: "raw drv \<Rightarrow> nat \<Rightarrow> nat \<Rightarrow> bool" where
  "in_service s e h \<longleftrightarrow> engine_present s e \<and> EngineState (Dma s e) = USER_ASSIGNED \<and> idle s e
     \<and> 2 \<le> unat (FreeCnt (ring_of s e)) \<and> h = unat (HwCnt (ring_of s e))
     \<and> (IsRxChannel (ring_of s e) \<noteq> 0 \<longleftrightarrow> eng_kind s e AND DMA_ENG_DIRECTION_MASK = DMA_ENG_C2S)"

text \<open>Only present engines are marked by the interrupt handler.\<close>

definition pending_ok :: "raw drv \<Rightarrow> bool" where
  "pending_ok s \<longleftrightarrow> (\<forall>i. bit (PendingMask s) i \<longrightarrow> engine_present s i)"

definition running :: "raw drv \<Rightarrow> bool" where
  "running s \<longleftrightarrow> (let r = usr s; t = etx r; x = erx r in
     DriverState s = INITIALIZED \<and> raw_DriverState r = REGISTERED \<and> handle0 r = Some t \<and> handle2 r = Some x
     \<and> raw_inv r \<and> MINPKTSIZE \<le> RawMaxPktSize r \<and> RawMaxPktSize r \<le> MAXPKTSIZE \<and> pool_ok s
     \<and> in_service s t (tx_held r) \<and> in_service s x (rx_held r)
     \<and> IsRxChannel (ring_of s t) = 0 \<and> IsRxChannel (ring_of s x) \<noteq> 0
     \<and> (\<exists>u. user (Dma s t) = tx_ufuncs u) \<and> (\<exists>u. user (Dma s x) = rx_ufuncs u)
     \<and> pending_ok s
     \<and> (\<forall>i. i \<noteq> t \<and> i \<noteq> x \<and> engine_present s i \<longrightarrow> EngineState (Dma s i) \<noteq> USER_ASSIGNED))"

text \<open>
  Locks and DMA mappings against a reference: one mapping for every buffer handed out. The pages
  of the two pools stay the ones the kernel gave.
\<close>

definition pages :: "raw \<Rightarrow> u32 list \<times> u32 list" where
  "pages r = (take (nat (TotalNum (TxBufs r))) (origVA (TxBufs r)), take (nat (TotalNum (RxBufs r))) (origVA (RxBufs r)))"

lemma pages_cong:
  "TotalNum (TxBufs r') = TotalNum (TxBufs r) \<Longrightarrow> origVA (TxBufs r') = origVA (TxBufs r) \<Longrightarrow>
   TotalNum (RxBufs r') = TotalNum (RxBufs r) \<Longrightarrow> origVA (RxBufs r') = origVA (RxBufs r) \<Longrightarrow> pages r' = pages r"
  by (simp add: pages_def)

definition balanced :: "(spinlock \<Rightarrow> int) \<Rightarrow> int \<Rightarrow> u32 list \<times> u32 list \<Rightarrow> raw drv \<Rightarrow> bool" where
  "balanced d c g s \<longleftrightarrow> (\<forall>l. lock_depth l (evs (hw s)) = d l) \<and> pages (usr s) = g
     \<and> map_count (evs (hw s)) = c + int (tx_held (usr s)) + int (rx_held (usr s))"

definition sys_inv :: "(spinlock \<Rightarrow> int) \<Rightarrow> int \<Rightarrow> u32 list \<times> u32 list \<Rightarrow> raw drv \<Rightarrow> bool" where
  "sys_inv d c g s \<longleftrightarrow> running s \<and> balanced d c g s"


section \<open>Packet handling keeps the invariant\<close>

text \<open>What two states of one driver have in common when only the service of engine \<open>e\<close> differs.\<close>

lemma in_service_other:
  assumes "in_service s i h" "Dma s' i = Dma s i" "static s' = static s"
  shows "in_service s' i h"
proof -
  have "ring_of s' i = ring_of s i" "eng_kind s' i = eng_kind s i" using assms(2) by (simp_all add: ring_of_def eng_kind_def)
  then show ?thesis using assms staticD(2)[OF assms(3)] by (simp add: in_service_def idle_def)
qed

lemma in_service_done:
  assumes "in_service s e h" "done_core e s s'" "idle s' e" "2 \<le> unat (FreeCnt (ring_of s' e))" "h' = unat (HwCnt (ring_of s' e))"
    "eng_kind s' = eng_kind s"
  shows "in_service s' e h'"
  using assms staticD(2)[of s' s e] by (simp add: in_service_def done_core_def)

lemma raw_staticD:
  "raw_static r' = raw_static r \<Longrightarrow> etx r' = etx r" "raw_static r' = raw_static r \<Longrightarrow> erx r' = erx r"
  "raw_static r' = raw_static r \<Longrightarrow> raw_DriverState r' = raw_DriverState r"
  "raw_static r' = raw_static r \<Longrightarrow> handle0 r' = handle0 r" "raw_static r' = raw_static r \<Longrightarrow> handle2 r' = handle2 r"
  "raw_static r' = raw_static r \<Longrightarrow> RawMaxPktSize r' = RawMaxPktSize r"
  by (simp_all add: raw_static_def etx_def erx_def ENGINE_TX_def ENGINE_RX_def)

lemma running_step:
  assumes run: "running s" and core: "done_core e s s'" "raw_static (usr s') = raw_static (usr s)" "raw_inv (usr s')" "pool_ok s'" "PendingMask s' = PendingMask s"
    and e: "e = etx (usr s) \<or> e = erx (usr s)"
    and sv: "in_service s' (etx (usr s)) (tx_held (usr s'))" "in_service s' (erx (usr s)) (rx_held (usr s'))"
  shows "running s'"
proof -
  let ?t = "etx (usr s)" and ?x = "erx (usr s)"
  have D: "\<And>i. i \<noteq> e \<Longrightarrow> Dma s' i = Dma s i" "user (Dma s' e) = user (Dma s e)" "DriverState s' = DriverState s"
    "IsRxChannel (ring_of s' e) = IsRxChannel (ring_of s e)" using core(1) staticD(1)[of s' s] by (auto simp: done_core_def)
  have u: "user (Dma s' i) = user (Dma s i)" for i using D(1,2) by (cases "i = e") auto
  have rx: "IsRxChannel (ring_of s' i) = IsRxChannel (ring_of s i)" for i using D(1,4) by (cases "i = e") (auto simp: ring_of_def)
  have pr: "engine_present s' i = engine_present s i" for i using core(1) staticD(2) by (auto simp: done_core_def)
  have "EngineState (Dma s' i) \<noteq> USER_ASSIGNED" if "i \<noteq> ?t \<and> i \<noteq> ?x \<and> engine_present s i" for i
    using run that e D(1)[of i] by (auto simp: running_def Let_def)
  then show ?thesis using run core sv D(3) raw_staticD[OF core(2)] unfolding running_def Let_def u rx pending_ok_def pr by simp
qed

lemma rx_handler:
  assumes "sys_inv d c g s"
  shows "sys_inv d c g (PktHandler (erx (usr s)) s)"
proof -
  define x where "x = erx (usr s)"
  define t where "t = etx (usr s)"
  define f where "f = (raw_static (usr s), TxBufs (usr s), TotalNum (RxBufs (usr s)), origVA (RxBufs (usr s)))"
  define C where "C = hw_complete (ring_of s x) (hw s) DMA_BD_CNT"
  define F where "F = gfree (ring_groups (ring_of s x)) @ C"
  define s' where "s' = PktHandler x s"
  have run: "running s" and bal: "balanced d c g s" using assms by (simp_all add: sys_inv_def)
  have ne: "x \<noteq> t" using etx_erx(1)[of "usr s"] by (simp add: x_def t_def)
  have R: "in_service s x (rx_held (usr s))" "in_service s t (tx_held (usr s))" "IsRxChannel (ring_of s x) \<noteq> 0" "pool_ok s"
    "raw_inv (usr s)" "rx_bound (usr s) x" "\<exists>u. user (Dma s x) = rx_ufuncs u"
    using run by (simp_all add: running_def Let_def x_def t_def rx_bound_def)
  have sv: "rx.served f s x" using R(3,5,7) by (auto simp: rx.served_def rx_inv_def f_def rx_ufuncs_def)
  have idl: "idle s x" using R(1) by (simp add: in_service_def)
  obtain k v where H: "ring_groups (ring_of s' x) = \<lparr>gpost = [], ghw = drop (length C) (ghw (ring_groups (ring_of s x))) @ take k F, gpre = [], gfree = drop k F\<rparr>"
    "k \<le> length F - 2" "moves (int k - int (length C)) (hw s) (hw s')" "idle s' x" "rx.served f s' x" "pool_ok s'" "done_core x s s'"
    "rx.gave x (length C) s v" "rx.got k v s'"
    using rx.pkt_handler[OF sv idl R(4)] R(3) unfolding C_def[symmetric] F_def[symmetric] s'_def by (auto simp: F_def C_def)
  have pm: "PendingMask s' = PendingMask s" using auxD(1)[OF PktHandler_aux(1)] by (simp add: s'_def)
  have us: "rx_inv f (usr s')" using H(5) by (simp add: rx.served_def)
  then have fr: "raw_static (usr s') = raw_static (usr s)" "TxBufs (usr s') = TxBufs (usr s)" "raw_inv (usr s')"
    and pg: "pages (usr s') = pages (usr s)"
    by (auto simp: rx_inv_def f_def intro!: pages_cong)
  have lenC: "length C \<le> rx_held (usr s)"
  proof -
    have "length C \<le> length (ghw (ring_groups (ring_of s x)))"
      unfolding C_def by (metis hw_complete_prefix length_take min.cobounded1)
    then show ?thesis using R(1) by (simp add: in_service_def)
  qed
  have held: "rx_held (usr s') = rx_held (usr s) - length C + k"
    using H(8,9) lenC R(6) by (simp add: rx.gave_def rx.got_def)
  have hc: "unat (HwCnt (ring_of s' x)) = rx_held (usr s')"
  proof -
    have "unat (HwCnt (ring_of s' x)) = length (ghw (ring_groups (ring_of s' x)))" by simp
    also have "\<dots> = rx_held (usr s) - length C + min k (length F)"
      unfolding H(1) using R(1) by (simp add: in_service_def)
    finally show ?thesis using held H(2) by simp
  qed
  have F2: "2 \<le> length F" using R(1) by (simp add: F_def in_service_def)
  have "unat (FreeCnt (ring_of s' x)) = length (gfree (ring_groups (ring_of s' x)))" by simp
  then have "2 \<le> unat (FreeCnt (ring_of s' x))" unfolding H(1) using H(2) F2 by simp
  then have sx: "in_service s' x (rx_held (usr s'))"
    using in_service_done[OF R(1) H(7,4)] hc by (simp add: s'_def)
  have "Dma s' t = Dma s t" "static s' = static s" using H(7) ne by (auto simp: done_core_def)
  moreover have txh: "tx_held (usr s') = tx_held (usr s)" using fr(2) by (simp add: tx_held_def)
  ultimately have st: "in_service s' t (tx_held (usr s'))" using in_service_other[OF R(2)] by simp
  have "running s'" using running_step[OF run H(7) fr(1,3) H(6) pm] st sx by (simp add: x_def t_def)
  moreover have "balanced d c g s'"
    using bal H(3) held lenC txh pg by (auto simp: balanced_def moves_def)
  ultimately show ?thesis by (simp add: sys_inv_def s'_def x_def)
qed

lemma tx_handler:
  assumes "sys_inv d c g s"
  shows "sys_inv d c g (PktHandler (etx (usr s)) s)"
proof -
  define x where "x = erx (usr s)"
  define t where "t = etx (usr s)"
  define f where "f = (raw_static (usr s), RxBufs (usr s), TotalNum (TxBufs (usr s)), origVA (TxBufs (usr s)))"
  define C where "C = hw_complete (ring_of s t) (hw s) DMA_BD_CNT"
  define s' where "s' = PktHandler t s"
  have run: "running s" and bal: "balanced d c g s" using assms by (simp_all add: sys_inv_def)
  have ne: "x \<noteq> t" using etx_erx(1)[of "usr s"] by (simp add: x_def t_def)
  have R: "in_service s t (tx_held (usr s))" "in_service s x (rx_held (usr s))" "IsRxChannel (ring_of s t) = 0" "pool_ok s"
    "raw_inv (usr s)" "tx_bound (usr s) t" "\<exists>u. user (Dma s t) = tx_ufuncs u"
    using run by (simp_all add: running_def Let_def x_def t_def tx_bound_def)
  have sv: "tx.served f s t" using R(3,5,7) by (auto simp: tx.served_def tx_inv_def f_def tx_ufuncs_def)
  have idl: "idle s t" using R(1) by (simp add: in_service_def)
  obtain v where H: "ring_groups (ring_of s' t) = \<lparr>gpost = [], ghw = drop (length C) (ghw (ring_groups (ring_of s t))), gpre = [],
      gfree = gfree (ring_groups (ring_of s t)) @ C\<rparr>"
    "moves (- int (length C)) (hw s) (hw s')" "idle s' t" "tx.served f s' t" "pool_ok s'" "done_core t s s'"
    "tx.gave t (length C) s v" "tx.got 0 v s'"
    using tx.pkt_handler[OF sv idl R(4)] R(3) unfolding C_def[symmetric] s'_def by (auto simp: C_def)
  have pm: "PendingMask s' = PendingMask s" using auxD(1)[OF PktHandler_aux(1)] by (simp add: s'_def)
  have us: "tx_inv f (usr s')" using H(4) by (simp add: tx.served_def)
  then have fr: "raw_static (usr s') = raw_static (usr s)" "RxBufs (usr s') = RxBufs (usr s)" "raw_inv (usr s')"
    and pg: "pages (usr s') = pages (usr s)"
    by (auto simp: tx_inv_def f_def intro!: pages_cong)
  have lenC: "length C \<le> tx_held (usr s)"
  proof -
    have "length C \<le> length (ghw (ring_groups (ring_of s t)))"
      unfolding C_def by (metis hw_complete_prefix length_take min.cobounded1)
    then show ?thesis using R(1) by (simp add: in_service_def)
  qed
  have held: "tx_held (usr s') = tx_held (usr s) - length C"
    using H(7,8) lenC R(6) by (simp add: tx.gave_def tx.got_def)
  have "unat (HwCnt (ring_of s' t)) = length (ghw (ring_groups (ring_of s' t)))" by simp
  then have hc: "unat (HwCnt (ring_of s' t)) = tx_held (usr s')"
    unfolding H(1) using held R(1) by (simp add: in_service_def)
  have "unat (FreeCnt (ring_of s' t)) = length (gfree (ring_groups (ring_of s' t)))" by simp
  then have "2 \<le> unat (FreeCnt (ring_of s' t))" unfolding H(1) using R(1) by (simp add: in_service_def)
  then have st: "in_service s' t (tx_held (usr s'))"
    using in_service_done[OF R(1) H(6,3)] hc by (simp add: s'_def)
  have "Dma s' x = Dma s x" "static s' = static s" using H(6) ne by (auto simp: done_core_def)
  moreover have rxh: "rx_held (usr s') = rx_held (usr s)" using fr(2) by (simp add: rx_held_def)
  ultimately have sx: "in_service s' x (rx_held (usr s'))" using in_service_other[OF R(2)] by simp
  have "running s'" using running_step[OF run H(6) fr(1,3) H(5) pm] st sx by (simp add: x_def t_def)
  moreover have "balanced d c g s'"
    using bal H(2) held lenC rxh pg by (auto simp: balanced_def moves_def)
  ultimately show ?thesis by (simp add: sys_inv_def s'_def t_def)
qed


section \<open>Sending keeps the invariant\<close>

lemma size_positive:
  assumes "MINPKTSIZE \<le> RawMaxPktSize r" "RawMaxPktSize r \<le> MAXPKTSIZE"
  shows "0 < psize_of r" "psize_of r \<le> 32768" "64 \<le> psize_of r"
proof -
  have u: "64 \<le> unat (RawMaxPktSize r)" "unat (RawMaxPktSize r) \<le> 32768"
    using assms by (simp_all add: MINPKTSIZE_def MAXPKTSIZE_def PAGE_SIZE_def word_le_nat_alt)
  then have "sint (RawMaxPktSize r) = int (unat (RawMaxPktSize r))" by (intro sint_small) simp
  then obtain n where "psize_of r = int n" "64 \<le> n" "n \<le> 32768" using u unfolding psize_of_def by metis
  then show "0 < psize_of r" "psize_of r \<le> 32768" "64 \<le> psize_of r" by simp_all
qed

lemma transmit_step:
  assumes "sys_inv d c g s" "num \<noteq> 0"
  shows "sys_inv d c g (snd (DmaSetupTransmit (handle0 (usr s)) num s))"
proof -
  define x where "x = erx (usr s)"
  define t where "t = etx (usr s)"
  have run: "running s" and bal: "balanced d c g s" using assms(1) by (simp_all add: sys_inv_def)
  have ne: "x \<noteq> t" using etx_erx(1)[of "usr s"] by (simp add: x_def t_def)
  have R: "in_service s t (tx_held (usr s))" "in_service s x (rx_held (usr s))" "IsRxChannel (ring_of s t) = 0" "pool_ok s"
    "raw_inv (usr s)" "tx_bound (usr s) t" "handle0 (usr s) = Some t" "DriverState s = INITIALIZED" "0 < psize_of (usr s)"
    using run size_positive(1)[of "usr s"] by (simp_all add: running_def Let_def x_def t_def tx_bound_def)
  have E: "EngineState (Dma s t) = USER_ASSIGNED" "idle s t" using R(1) by (simp_all add: in_service_def)
  define k where "k = queued s t num"
  define s' where "s' = snd (DmaSetupTransmit (handle0 (usr s)) num s)"
  have T: "tx_done t k s s'"
    using DmaSetupTransmit_spec[OF R(5,6,9) assms(2) E(2) R(8) E(1) R(3)] by (auto simp: s'_def k_def R(7))
  have kf: "k \<le> unat (FreeCnt (ring_of s t)) - 2"
    using queued_le[of "nfrags (psize_of (usr s))" s t num] nfrags_step(2)[OF R(9)] by (simp add: k_def)
  have kb: "k \<le> length (buf_spare (TxBufs (usr s)))"
    using queued_le[of "nfrags (psize_of (usr s))" s t num] nfrags_step(2)[OF R(9)] built_le[of "usr s" "nat num"] by (simp add: k_def)
  have G: "unat (HwCnt (ring_of s' t)) = unat (HwCnt (ring_of s t)) + k" "unat (FreeCnt (ring_of s' t)) = unat (FreeCnt (ring_of s t)) - k"
    using T kf group_lengths(2,4)[of "ring_of s' t"] by (simp_all add: tx_done_def Let_def)
  have bu: "buf_used (TxBufs (usr s')) = buf_used (TxBufs (usr s)) @ take k (buf_spare (TxBufs (usr s)))"
    using T by (simp add: tx_done_def Let_def)
  have held: "tx_held (usr s') = tx_held (usr s) + k"
    using arg_cong[OF bu, of length] kb by (simp add: tx_held_def buf_used_length)
  have K: "eng_kind s' = eng_kind s"
    using T by (auto simp: tx_done_def done_core_def eng_kind_def fun_eq_iff)
  have D: "done_core t s s'" "idle s' t" "raw_static (usr s') = raw_static (usr s)" "raw_inv (usr s')" "RxBufs (usr s') = RxBufs (usr s)"
    "moves (int k) (hw s) (hw s')" "pool s' = pool s" using T by (simp_all add: tx_done_def)
  have pm: "PendingMask s' = PendingMask s" using T auxD(1)[of s' s] by (simp add: tx_done_def)
  have pg: "pages (usr s') = pages (usr s)" using T by (auto simp: tx_done_def Let_def intro!: pages_cong)
  have po: "pool_ok s'" using pool_ok_pool[OF D(7)] R(4) by simp
  have "2 \<le> unat (FreeCnt (ring_of s t))" using R(1) by (simp add: in_service_def)
  then have "2 \<le> unat (FreeCnt (ring_of s' t))" using G(2) kf by linarith
  then have st: "in_service s' t (tx_held (usr s'))"
    using in_service_done[OF R(1) D(1,2)] G(1) held R(1) K by (simp add: in_service_def)
  have rxh: "rx_held (usr s') = rx_held (usr s)" using D(5) by (simp add: rx_held_def)
  have "Dma s' x = Dma s x" "static s' = static s" using D(1) ne by (auto simp: done_core_def)
  then have sx: "in_service s' x (rx_held (usr s'))" using in_service_other[OF R(2)] rxh by simp
  have "running s'" using running_step[OF run D(1,3,4) po pm] st sx by (simp add: x_def t_def)
  moreover have "balanced d c g s'" using bal D(6) held rxh pg by (simp add: balanced_def moves_def)
  ultimately show ?thesis by (simp add: sys_inv_def s'_def)
qed

section \<open>Steps that move no buffer\<close>

definition raw_same :: "raw \<Rightarrow> raw \<Rightarrow> bool" where
  "raw_same r r' \<longleftrightarrow> XRAWDATA0 r' = XRAWDATA0 r \<and> raw_DriverState r' = raw_DriverState r \<and> handle0 r' = handle0 r
     \<and> handle2 r' = handle2 r \<and> TxBufs r' = TxBufs r \<and> RxBufs r' = RxBufs r \<and> length (pkts r') = length (pkts r)
     \<and> (MINPKTSIZE \<le> RawMaxPktSize r \<and> RawMaxPktSize r \<le> MAXPKTSIZE \<longrightarrow>
        MINPKTSIZE \<le> RawMaxPktSize r' \<and> RawMaxPktSize r' \<le> MAXPKTSIZE)"

lemma raw_same_refl [simp]: "raw_same r r"
  by (simp add: raw_same_def)

lemma quiet_step:
  assumes inv: "sys_inv d c g s" and same: "Dma s' = Dma s" "static s' = static s" "pool s' = pool s" "moves 0 (hw s) (hw s')"
    "raw_same (usr s) (usr s')"
    and pend: "\<forall>i. bit (PendingMask s') i \<longrightarrow> bit (PendingMask s) i \<or> engine_present s i"
  shows "sys_inv d c g s'"
proof -
  have run: "running s" and bal: "balanced d c g s" using inv by (simp_all add: sys_inv_def)
  have rg: "ring_of s' = ring_of s" using same(1) by (simp add: ring_of_def fun_eq_iff)
  have e: "etx (usr s') = etx (usr s)" "erx (usr s') = erx (usr s)" "tx_held (usr s') = tx_held (usr s)" "rx_held (usr s') = rx_held (usr s)"
    using same(5) by (simp_all add: raw_same_def etx_def erx_def ENGINE_TX_def ENGINE_RX_def tx_held_def rx_held_def)
  have sv: "in_service s' i h = in_service s i h" for i h
    using same(1) staticD(2)[OF same(2), of i] by (simp add: in_service_def idle_def rg eng_kind_def)
  have "pending_ok s'" using run pend staticD(2)[OF same(2)] by (auto simp: running_def Let_def pending_ok_def)
  then have "running s'" using run same staticD[OF same(2)] pool_ok_pool[OF same(3)]
    unfolding running_def Let_def e sv rg by (simp add: raw_same_def raw_inv_def)
  moreover have "balanced d c g s'" using bal same(4,5) by (simp add: balanced_def moves_def e raw_same_def pages_def)
  ultimately show ?thesis by (simp add: sys_inv_def)
qed

lemma with_usr_step: "sys_inv d c g s \<Longrightarrow> raw_same (usr s) (f (usr s)) \<Longrightarrow> sys_inv d c g (with_usr f s)"
  by (erule quiet_step) (simp_all add: with_usr_def)

lemma on_hw_step: "sys_inv d c g s \<Longrightarrow> moves 0 (hw s) (f (hw s)) \<Longrightarrow> sys_inv d c g (on_hw f s)"
  by (erule quiet_step) simp_all

text \<open>The state callbacks, and the sizes a test can have.\<close>

lemma set_sizes_eq:
  "set_sizes us r = (let w = word_of_int (MaxPktSize us); v = (if w > MAXPKTSIZE then MAXPKTSIZE else if w < MINPKTSIZE then MINPKTSIZE else w)
     in r\<lparr>RawMinPktSize := v, RawMaxPktSize := v\<rparr>)"
  by (simp add: set_sizes_def Let_def MINPKTSIZE_def MAXPKTSIZE_def PAGE_SIZE_def)

lemma set_sizes_bounds:
  "MINPKTSIZE \<le> RawMaxPktSize (set_sizes us r)" "RawMaxPktSize (set_sizes us r) \<le> MAXPKTSIZE"
  "RawMinPktSize (set_sizes us r) = RawMaxPktSize (set_sizes us r)"
  by (auto simp: set_sizes_eq Let_def MINPKTSIZE_def MAXPKTSIZE_def PAGE_SIZE_def not_less)

lemma set_sizes_same: "raw_same r (set_sizes us r)"
  using set_sizes_bounds[of us r] by (auto simp: raw_same_def) (simp_all add: set_sizes_eq Let_def)

lemma set_testmode_same: "raw_same r (set_testmode r)"
  by (simp add: raw_same_def set_testmode_def Let_def)

lemma raw_same_trans: "raw_same r1 r2 \<Longrightarrow> raw_same r2 r3 \<Longrightarrow> raw_same r1 r3"
  by (simp add: raw_same_def)

lemma start_test_quiet: "start_test (r, m) = (r', m') \<Longrightarrow> raw_same r r' \<and> moves 0 m m'"
  by (auto simp: start_test_def Let_def raw_same_def moves_def split: if_splits)

lemma PrintSummary_moves [simp]: "moves 0 m (PrintSummary r m)"
  by (simp add: PrintSummary_def)

lemma mySetState_quiet:
  assumes "mySetState h us pd (r, m) = (k, r', m')"
  shows "raw_same r r' \<and> moves 0 m m'"
proof -
  define r1 where "r1 = set_testmode (r\<lparr>RawTestMode := TestMode us\<rparr>)"
  define m1 where "m1 = spin_lock RawLock m"
  have s1: "raw_same r r1" using raw_same_trans[OF _ set_testmode_same, of r "r\<lparr>RawTestMode := TestMode us\<rparr>"]
    by (simp add: r1_def raw_same_def)
  obtain r2 m2 where st: "start_test (set_sizes us r1, m1) = (r2, m2)" by fastforce
  have s2: "raw_same r r2" "moves 0 m1 m2"
    using raw_same_trans[OF raw_same_trans[OF s1 set_sizes_same]] start_test_quiet[OF st] by auto
  have q: "moves 0 m (spin_unlock RawLock (PrintSummary r m'))" if "moves 0 m1 m'" for r m'
    using moves_locked[of 0 RawLock m "PrintSummary r m'"] moves_trans0[OF that PrintSummary_moves] by (simp add: m1_def)
  have o: "moves 0 m1 (XIo_Out32 a v (XIo_Out32 b w m1))" for a v b w by (simp add: moves_def)
  have s3: "raw_same r (r1\<lparr>RawTestMode := 0\<rparr>)" using s1 by (simp add: raw_same_def)
  have u: "moves 0 m (spin_unlock RawLock m1)" by (simp add: m1_def)
  show ?thesis using assms s1 s2 q[OF s2(2)] q[OF o] s3 u
    by (auto simp: mySetState_def Let_def r1_def[symmetric] m1_def[symmetric] st split: if_splits)
qed

lemma myGetState_quiet:
  "myGetState h us pd (r, m) = (k, us', r', m') \<Longrightarrow> raw_same r r' \<and> moves 0 m m' \<and> k = 0"
  by (auto simp: myGetState_def Let_def raw_same_def split: if_splits)


lemma set_state_step:
  assumes "sys_inv d c g s" "e = etx (usr s) \<or> e = erx (usr s)"
  shows "sys_inv d c g (snd (call_UserSetState e us s))"
proof -
  have "UserSetState (user (Dma s e)) = Some mySetState"
    using assms by (auto simp: sys_inv_def running_def Let_def tx_ufuncs_def rx_ufuncs_def)
  moreover obtain k r m where "mySetState e us (privData (user (Dma s e))) (usr s, hw s) = (k, r, m)" by (metis prod_cases3)
  ultimately have "snd (call_UserSetState e us s) = s\<lparr>usr := r, hw := m\<rparr>" "raw_same (usr s) r" "moves 0 (hw s) m"
    using mySetState_quiet by (auto simp: call_UserSetState_def)
  then show ?thesis using assms(1) by (auto elim: quiet_step)
qed

lemma get_state_step:
  assumes "sys_inv d c g s" "e = etx (usr s) \<or> e = erx (usr s)"
  shows "sys_inv d c g (snd (snd (call_UserGetState e us s)))"
proof -
  have "UserGetState (user (Dma s e)) = Some myGetState"
    using assms by (auto simp: sys_inv_def running_def Let_def tx_ufuncs_def rx_ufuncs_def)
  moreover obtain k u r m where "myGetState e us (privData (user (Dma s e))) (usr s, hw s) = (k, u, r, m)" by (metis prod_cases4)
  ultimately have "snd (snd (call_UserGetState e us s)) = s\<lparr>usr := r, hw := m\<rparr>" "raw_same (usr s) r" "moves 0 (hw s) m"
    using myGetState_quiet by (auto simp: call_UserGetState_def)
  then show ?thesis using assms(1) by (auto elim: quiet_step)
qed

section \<open>The timers and interrupts\<close>

lemma handler_step: "sys_inv d c g s \<Longrightarrow> e = etx (usr s) \<or> e = erx (usr s) \<Longrightarrow> sys_inv d c g (PktHandler e s)"
  using rx_handler tx_handler by blast

lemma assigned_engines: "sys_inv d c g s \<Longrightarrow> engine_present s i \<Longrightarrow> EngineState (Dma s i) = USER_ASSIGNED \<Longrightarrow> i = etx (usr s) \<or> i = erx (usr s)"
  by (auto simp: sys_inv_def running_def Let_def)

lemma fold_step: "(\<And>i s. sys_inv d c g s \<Longrightarrow> sys_inv d c g (f i s)) \<Longrightarrow> sys_inv d c g s \<Longrightarrow> sys_inv d c g (fold f is s)"
  by (induction "is" arbitrary: s) simp_all

lemma poll_one_step: "sys_inv d c g s \<Longrightarrow> sys_inv d c g (poll_one i s)"
  using handler_step assigned_engines[of d c g s i] by (auto simp: poll_one_def)

lemma static_timers [simp]:
  "static (s\<lparr>poll_timer := a\<rparr>) = static s" "static (s\<lparr>stats_timer := a\<rparr>) = static s" "static (s\<lparr>LastIntr := l\<rparr>) = static s"
  "static (s\<lparr>jiffies := j\<rparr>) = static s" "static (s\<lparr>DmaBH := b\<rparr>) = static s"
  "static (s\<lparr>DStats := x\<rparr>) = static s" "static (s\<lparr>SStats := y\<rparr>) = static s" "static (s\<lparr>TStats := z\<rparr>) = static s"
  by (simp_all add: static_def)

lemma poll_step: "sys_inv d c g s \<Longrightarrow> sys_inv d c g (poll_routine s)"
proof -
  assume i: "sys_inv d c g s"
  define s1 where "s1 = fold poll_one [0..<MAX_DMA_ENGINES] s"
  have 1: "sys_inv d c g s1" unfolding s1_def by (rule fold_step[OF poll_one_step i])
  have "sys_inv d c g (s1\<lparr>poll_timer := a\<rparr>)" for a by (rule quiet_step[OF 1]) simp_all
  then show ?thesis using i by (simp add: poll_routine_def Let_def s1_def)
qed

lemma bh_one_step: "sys_inv d c g s \<Longrightarrow> sys_inv d c g (intr_bh_one i s)"
proof -
  assume inv: "sys_inv d c g s"
  define s1 where "s1 = on_hw (spin_unlock IntrLock) ((on_hw (spin_lock IntrLock) s)\<lparr>PendingMask := PendingMask (on_hw (spin_lock IntrLock) s) AND NOT (push_bit i 1)\<rparr>)"
  have 1: "sys_inv d c g s1" by (rule quiet_step[OF inv]) (simp_all add: s1_def moves_def bit_simps)
  define s2 where "s2 = PktHandler i s1"
  define s3 where "s3 = on_hw (Dma_mEngIntEnable (Dma (on_hw (spin_lock IntrLock) s2) i)) (on_hw (spin_lock IntrLock) s2)"
  define s4 where "s4 = on_hw (spin_unlock IntrLock) (s3\<lparr>LastIntr := (LastIntr s3)(i := jiffies s3)\<rparr>)"
  have e: "intr_bh_one i s = (if PendingMask s = 0 \<or> PendingMask s AND push_bit i 1 = 0 then s
      else if EngineState (Dma s1 i) \<noteq> USER_ASSIGNED then s1 else s4)"
    unfolding intr_bh_one_def Let_def s1_def[symmetric] s2_def[symmetric] s3_def[symmetric] s4_def[symmetric] by (rule refl)
  have "sys_inv d c g s4" if "EngineState (Dma s1 i) = USER_ASSIGNED" "PendingMask s AND push_bit i 1 \<noteq> 0"
  proof -
    have "bit (PendingMask s) i"
    proof (rule ccontr)
      assume "\<not> bit (PendingMask s) i"
      then have "PendingMask s AND push_bit i 1 = 0" by (intro bit_word_eqI) (auto simp: bit_simps)
      then show False using that(2) by simp
    qed
    then have "engine_present s1 i" using inv by (simp add: sys_inv_def running_def Let_def pending_ok_def s1_def engine_present_def on_hw_def)
    then have 2: "sys_inv d c g s2" unfolding s2_def by (rule handler_step[OF 1 assigned_engines[OF 1 _ that(1)]])
    have "moves 0 (spin_lock IntrLock (hw s2)) (hw s3)" by (simp add: s3_def)
    then have "moves 0 (hw s2) (hw s4)" using moves_locked by (simp add: s4_def)
    then show ?thesis by (intro quiet_step[OF 2]) (simp_all add: s4_def s3_def)
  qed
  then show ?thesis using inv 1 by (simp add: e)
qed

lemma bh_step: "sys_inv d c g s \<Longrightarrow> sys_inv d c g (IntrBH s)"
  unfolding IntrBH_def by (rule fold_step[OF bh_one_step])

lemma intr_step: "sys_inv d c g s \<Longrightarrow> sys_inv d c g (snd (DmaInterrupt s))"
proof -
  assume i: "sys_inv d c g s"
  let ?t = "snd (IntrCheck s)"
  note F = IntrCheck_frame[of s, unfolded intr_frame_def]
  have "\<forall>j. bit (PendingMask ?t) j \<longrightarrow> bit (PendingMask s) j \<or> engine_present s j"
  proof (intro allI impI)
    fix j assume "bit (PendingMask ?t) j"
    then show "bit (PendingMask s) j \<or> engine_present s j" using F by blast
  qed
  then have "sys_inv d c g ?t" using F by (intro quiet_step[OF i]) simp_all
  then show ?thesis by (simp add: DmaInterrupt_def split_beta)
qed

lemma stats_one_step: "sys_inv d c g s \<Longrightarrow> sys_inv d c g (poll_stats_one i s)"
  by (erule quiet_step) (simp_all add: poll_stats_one_def Let_def split_beta moves_def)

lemma stats_step: "sys_inv d c g s \<Longrightarrow> sys_inv d c g (poll_stats s)"
proof -
  assume i: "sys_inv d c g s"
  have "sys_inv d c g (fold poll_stats_one [0..<MAX_DMA_ENGINES] s)" by (rule fold_step[OF stats_one_step i])
  then show ?thesis using i
    by (auto simp: poll_stats_def Let_def split_beta elim!: quiet_step) (simp add: moves_def XIo_In32_def Let_def)
qed

section \<open>The polling routine of the raw data driver\<close>

lemma send_rounds_step: "sys_inv d c g s \<Longrightarrow> sys_inv d c g (send_rounds k s)"
proof (induction k arbitrary: s)
  case (Suc k)
  obtain r s1 where t: "DmaSetupTransmit (handle0 (usr s)) 100 s = (r, s1)" by fastforce
  then have "sys_inv d c g s1" using transmit_step[OF Suc.prems, of 100] by simp
  then show ?case using Suc by (simp add: t)
qed simp

lemma raw_poll_step:
  assumes inv: "sys_inv d c g s"
  shows "\<exists>s'. raw_poll_routine u s = Returned s' \<and> sys_inv d c g s'"
proof -
  have st: "raw_DriverState (usr s) = REGISTERED" using inv by (simp add: sys_inv_def running_def Let_def)
  define s1 where "s1 = on_hw (spin_unlock RawLock) (with_usr (\<lambda>r. r\<lparr>RawTestMode := RawTestMode r OR TEST_IN_PROGRESS\<rparr>)
     (with_usr (\<lambda>r. r\<lparr>RawTestMode := RawTestMode r AND NOT TEST_START\<rparr>) (on_hw (spin_lock RawLock) s)))"
  have 1: "sys_inv d c g s1"
    by (rule quiet_step[OF inv]) (simp_all add: s1_def with_usr_def moves_def raw_same_def)
  have h: "handle0 (usr (with_usr (\<lambda>r. r\<lparr>RawTestMode := g r\<rparr>) t)) = handle0 (usr t)" for g t by (simp add: with_usr_def)
  have h1: "handle0 (usr s1) = handle0 (usr s)" by (simp add: s1_def h)
  define s2 where "s2 = snd (DmaSetupTransmit (handle0 (usr s)) 1 s1)"
  have 2: "sys_inv d c g s2" unfolding s2_def h1[symmetric] by (rule transmit_step[OF 1]) simp
  have 3: "sys_inv d c g (send_rounds 9 s)" by (rule send_rounds_step[OF inv])
  have rs: "sys_inv d c g (raw_reschedule o' t)" if "sys_inv d c g t" for o' t
    unfolding raw_reschedule_def by (rule with_usr_step[OF that]) (simp add: raw_same_def)
  show ?thesis
    using st rs[OF 2] rs[OF 3] rs[OF inv]
    by (simp add: raw_poll_routine_def POLLING_def REGISTERED_def Let_def s1_def[symmetric] split_beta s2_def h)
qed

section \<open>Steps and reachable states\<close>

text \<open>
  Everything that happens to a running system: the entry points of both drivers, the hardware
  writing descriptor memory, and the passage of time. The application's requests reach the raw
  data driver through its state callbacks.
\<close>

inductive sys_step :: "raw drv \<Rightarrow> raw drv \<Rightarrow> bool" where
  interrupt: "sys_step s (snd (DmaInterrupt s))"
| bottom_half: "sys_step s (IntrBH s)"
| dma_timer: "sys_step s (poll_routine s)"
| stats_timer: "sys_step s (poll_stats s)"
| raw_timer: "raw_poll_routine u s = Returned s' \<Longrightarrow> sys_step s s'"
| transmit: "num \<noteq> 0 \<Longrightarrow> sys_step s (snd (DmaSetupTransmit (handle0 (usr s)) num s))"
| set_state: "e = etx (usr s) \<or> e = erx (usr s) \<Longrightarrow> sys_step s (snd (call_UserSetState e us s))"
| get_state: "e = etx (usr s) \<or> e = erx (usr s) \<Longrightarrow> sys_step s (snd (snd (call_UserGetState e us s)))"
| hardware: "sys_step s (s\<lparr>hw := (hw s)\<lparr>mem := mm\<rparr>\<rparr>)"
| tick: "sys_step s (s\<lparr>jiffies := j\<rparr>)"

inductive sys_reach :: "raw drv \<Rightarrow> raw drv \<Rightarrow> bool" for s0 where
  start: "sys_reach s0 s0"
| step: "sys_reach s0 s \<Longrightarrow> sys_step s s' \<Longrightarrow> sys_reach s0 s'"

lemma step_inv: "sys_step s s' \<Longrightarrow> sys_inv d c g s \<Longrightarrow> sys_inv d c g s'"
proof (induction rule: sys_step.induct)
  case (raw_timer u s s')
  then show ?case using raw_poll_step[of d c g s u] by auto
next
  case (hardware s mm)
  then show ?case by (rule quiet_step) (simp_all add: moves_def)
next
  case (tick s j)
  then show ?case by (rule quiet_step) simp_all
qed (blast intro: intr_step bh_step poll_step stats_step transmit_step set_state_step get_state_step)+

lemma reach_inv: "sys_reach s0 s \<Longrightarrow> sys_inv d c g s0 \<Longrightarrow> sys_inv d c g s"
  by (induction rule: sys_reach.induct) (blast intro: step_inv)+

inductive_cases sys_stepE: "sys_step s s'"

end
