(* ===== verification/XdmaProbeSpec.thy ===== *)
theory XdmaProbeSpec
  imports XdmaProbe
begin

text \<open>
  What \<open>xdma_probe\<close> leaves behind: the engines that enumeration reports, ready to be handed out, and
  the accounting of what was obtained from the kernel on every path of probing and unloading.
\<close>

section \<open>Enumeration and probing\<close>

lemma ring_of_hw [simp]: "ring_of (on_hw f s) = ring_of s" "ring_of (s\<lparr>hw := m\<rparr>) = ring_of s"
  by (simp_all add: ring_of_def on_hw_def fun_eq_iff)

lemma Dma_Initialize_spec:
  "Dma_Initialize b ty m = (E, m') \<Longrightarrow> EngineState E = INITIALIZED \<and> EngType E = ty \<and> (IsRxChannel (BdRing E) \<noteq> 0 \<longleftrightarrow> ty = DMA_ENG_C2S)
     \<and> moves 0 m m'"
  by (auto simp: Dma_Initialize_def Let_def dest!: Dma_Reset_spec split: if_splits)

lemma engine_present_iff: "engine_present s i \<longleftrightarrow> i < 64 \<and> bit (engineMask s) i"
proof (cases "i < 64")
  case False
  then have "push_bit i (1 :: u64) = 0" by (intro bit_word_eqI) (auto simp: bit_simps)
  then show ?thesis using False by (simp only: engine_present_def and_zero_eq simp_thms)
qed (simp add: engine_present_bit)

text \<open>What the enumeration establishes for every engine it reports.\<close>

definition enumerated :: "'u drv \<Rightarrow> bool" where
  "enumerated s \<longleftrightarrow> (\<forall>i. engine_present s i \<longrightarrow> EngineState (Dma s i) = INITIALIZED
     \<and> (IsRxChannel (ring_of s i) \<noteq> 0 \<longleftrightarrow> eng_kind s i AND DMA_ENG_DIRECTION_MASK = DMA_ENG_C2S))"

definition enum_frame :: "'u drv \<Rightarrow> 'u drv \<Rightarrow> bool" where
  "enum_frame s s' \<longleftrightarrow> usr s' = usr s \<and> pool s' = pool s \<and> DriverState s' = DriverState s \<and> pci_alloc s' = pci_alloc s
     \<and> PendingMask s' = PendingMask s \<and> moves 0 (hw s) (hw s')"

lemma read_engine_step:
  assumes "enumerated (s :: 'u drv)"
  shows "enumerated (read_engine i s) \<and> enum_frame s (read_engine i s)"
proof -
  define b where "b = baseVAddr s 0 + (DMA_OFFSET + of_nat i * DMA_ENGINE_PER_SIZE)"
  obtain v m where v: "Dma_mReadReg b REG_DMA_ENG_CAP (hw s) = (v, m)" by (metis surj_pair)
  have m: "m = snd (Dma_mReadReg b REG_DMA_ENG_CAP (hw s))" by (simp add: v)
  obtain E :: "'u Dma_Engine" and m' where E: "Dma_Initialize b (v AND DMA_ENG_DIRECTION_MASK) m = (E, m')" by (metis surj_pair)
  note S = Dma_Initialize_spec[OF E]
  have mv: "moves 0 (hw s) m" unfolding m by (rule moves_write)
  define t where "t = (set_eng i E (s\<lparr>hw := m'\<rparr>))\<lparr>engineMask := engineMask s OR push_bit i 1\<rparr>"
  have quiet: "enumerated (s\<lparr>hw := m\<rparr>) \<and> enum_frame s (s\<lparr>hw := m\<rparr>)"
    using assms mv by (simp add: enumerated_def enum_frame_def engine_present_def)
  have "enumerated t"
    using assms S by (auto simp: enumerated_def t_def engine_present_iff bit_or_push[unfolded push_bit_of_1] push_bit_of_1 ring_of_def eng_kind_def and.assoc)
  moreover have "enum_frame s t" using S moves_trans0[OF mv] by (simp add: enum_frame_def t_def set_eng_def)
  moreover have "read_engine i s = (if v AND DMA_ENG_PRESENT_MASK \<noteq> 0 \<and> v AND DMA_ENG_TYPE_MASK = DMA_ENG_PACKET then t else s\<lparr>hw := m\<rparr>)"
    unfolding read_engine_def Let_def b_def[symmetric] v prod.case by (simp add: E t_def set_eng_def)
  ultimately show ?thesis using quiet by simp
qed

lemma enum_frame_trans: "enum_frame s t \<Longrightarrow> enum_frame t u \<Longrightarrow> enum_frame s u"
  using moves_trans0 by (auto simp: enum_frame_def)

lemma read_engines:
  "enumerated s \<Longrightarrow> enumerated (fold read_engine is s) \<and> enum_frame s (fold read_engine is s)"
proof (induction "is" arbitrary: s)
  case Nil
  then show ?case by (simp add: enum_frame_def)
next
  case (Cons i "is")
  then show ?case using read_engine_step[OF Cons.prems, of i] enum_frame_trans by (metis fold_simps(2))
qed

text \<open>A successful probe, whatever the uninitialised private data of the board held before.\<close>

definition probed :: "'u drv \<Rightarrow> bool" where
  "probed s \<longleftrightarrow> DriverState s = INITIALIZED \<and> pool_ok s \<and> enumerated s"

lemma probe_bars_frame:
  "probe_bars p is (s, k) = (ok, s', k') \<Longrightarrow> enum_frame s s' \<and> Dma s' = Dma s \<and> engineMask s' = engineMask s"
proof (induction "is" arbitrary: s k)
  case Nil
  then show ?case by (simp add: enum_frame_def)
next
  case (Cons i "is")
  show ?case using Cons.prems
    by (auto simp: Let_def enum_frame_def split: if_splits dest!: Cons.IH)
qed

lemma mInt_moves [simp]: "moves 0 m (Dma_mIntDisable b m)" "moves 0 m (Dma_mIntEnable b m)"
  by (simp_all add: Dma_mIntDisable_def Dma_mIntEnable_def moves_def split_beta Let_def)

lemma probed_cong:
  "probed s \<Longrightarrow> Dma s' = Dma s \<Longrightarrow> engineMask s' = engineMask s \<Longrightarrow> pool s' = pool s \<Longrightarrow> DriverState s' = INITIALIZED \<Longrightarrow> probed s'"
  using pool_ok_pool[of s' s] by (simp add: probed_def enumerated_def engine_present_def ring_of_def eng_kind_def)

lemma probe_ready:
  assumes run: "xdma_probe p (s, k) = (0, s', k')" and arr: "\<forall>i<MAX_POOL. length (pktArray (pool s) i) = DMA_BD_CNT"
  shows "probed s' \<and> usr s' = usr s \<and> pci_alloc s' = pci_alloc s \<and> PendingMask s' = PendingMask s \<and> moves 0 (hw s) (hw s')"
proof -
  define s1 where "s1 = s\<lparr>pool := init_pools (pool s), barMask := 0, engineMask := 0, userCount := 0\<rparr>"
  define k1 where "k1 = pci_ev RequestRegions (pci_ev Kmalloc ((pci_ev EnableDevice k)\<lparr>dmaData_set := True\<rparr>))"
  obtain ok s2 k2 where b: "probe_bars p [0..<MAX_BARS] (s1, k1) = (ok, s2, k2)" by (metis prod_cases3)
  note B = probe_bars_frame[OF b]
  define s3 where "s3 = on_hw (Dma_mIntDisable (baseVAddr s2 0)) s2"
  define s4 where "s4 = ReadDMAEngineConfiguration s3"
  obtain v m where v: "XIo_In32 (baseVAddr s3 0 + 0x8000) (hw s3) = (v, m)" by (metis surj_pair)
  have mv: "moves 0 (hw s3) m" using moves_write(14)[of "hw s3" "baseVAddr s3 0 + 0x8000"] by (simp add: v)
  have s4: "s4 = fold read_engine [0..<MAX_DMA_ENGINES] (s3\<lparr>hw := m\<rparr>)"
    by (simp add: s4_def ReadDMAEngineConfiguration_def v)
  have f3: "enum_frame s1 (s3\<lparr>hw := m\<rparr>)"
    using B mv by (auto simp: enum_frame_def s3_def moves_def Dma_mIntDisable_def split_beta Let_def) (simp_all add: on_hw_def)
  have "enumerated (s3\<lparr>hw := m\<rparr>)" using B by (simp add: enumerated_def engine_present_def s3_def on_hw_def s1_def)
  then have 4: "enumerated s4" "enum_frame s1 s4"
    using read_engines[of "s3\<lparr>hw := m\<rparr>" "[0..<MAX_DMA_ENGINES]"] enum_frame_trans[OF f3] unfolding s4 by auto
  have pool: "pool_ok s4"
  proof -
    have "pool s4 = init_pools (pool s)" using 4(2) by (simp add: enum_frame_def s1_def)
    then show ?thesis using init_pools_rep[of "pool s" "hw s4"] arr
      unfolding pool_ok_def pool_arr_def by (intro exI[of _ "[0..<MAX_POOL]"]) (auto simp: init_pools_def MAX_POOL_def)
  qed
  have nz: "XST_FAILURE \<noteq> 0" by (simp add: hwc)
  obtain c k3 where c: "probe_cdev p k2 = (c, k3)" by (metis surj_pair)
  define s5 where "s5 = (if \<not> is_err c then let s = reset_stats s4 in s\<lparr>stats_timer := Some (jiffies s + HZ s)\<rparr> else s4)"
  define s6 where "s6 = s5\<lparr>DriverState := INITIALIZED\<rparr>"
  define s7 where "s7 = s6\<lparr>poll_timer := Some (jiffies s6 + HZ s6 div 500)\<rparr>"
  define s8 where "s8 = s7\<lparr>LastIntr := (\<lambda>i. if i < MAX_DMA_ENGINES then jiffies s7 else LastIntr s7 i)\<rparr>"
  have s1': "s\<lparr>pool := init_pools (pool s)\<rparr>\<lparr>barMask := 0, engineMask := 0, userCount := 0\<rparr> = s1" by (simp add: s1_def)
  have "s' = (if TH_BH_ISR s7 then on_hw (Dma_mIntEnable (baseVAddr s8 0)) s8 else s7)"
    using run nz unfolding xdma_probe_def Let_def prod.case s1' k1_def[symmetric] b s3_def[symmetric] s4_def[symmetric] c
      s5_def[symmetric, unfolded Let_def] s6_def[symmetric] s7_def[symmetric] s8_def[symmetric]
    by (auto split: if_splits)
  moreover have "enum_frame (s4\<lparr>DriverState := INITIALIZED\<rparr>) s7 \<and> Dma s7 = Dma s4 \<and> engineMask s7 = engineMask s4"
    by (simp add: s7_def s6_def s5_def enum_frame_def reset_stats_def Let_def)
  moreover have "enum_frame s7 (on_hw (Dma_mIntEnable (baseVAddr s8 0)) s8) \<and> Dma (on_hw (Dma_mIntEnable (baseVAddr s8 0)) s8) = Dma s7
      \<and> engineMask (on_hw (Dma_mIntEnable (baseVAddr s8 0)) s8) = engineMask s7"
    by (simp add: s8_def enum_frame_def on_hw_def)
  ultimately have res: "enum_frame (s4\<lparr>DriverState := INITIALIZED\<rparr>) s' \<and> Dma s' = Dma s4 \<and> engineMask s' = engineMask s4"
    using enum_frame_trans by (cases "TH_BH_ISR s7") auto
  then have "probed s'" using probed_cong[of "s4\<lparr>DriverState := INITIALIZED\<rparr>" s'] 4(1) pool pool_ok_pool[of "s4\<lparr>DriverState := INITIALIZED\<rparr>" s4]
    by (simp add: probed_def enum_frame_def enumerated_def engine_present_def ring_of_def eng_kind_def)
  then show ?thesis using res 4(2) by (auto simp: enum_frame_def s1_def moves_def)
qed

section \<open>Exactness of the enumeration\<close>

text \<open>The value of the capability register of engine \<open>i\<close>, if the register is constant.\<close>

definition cap_reg :: "'u drv \<Rightarrow> nat \<Rightarrow> u32" where
  "cap_reg s i = baseVAddr s 0 + (DMA_OFFSET + of_nat i * DMA_ENGINE_PER_SIZE) + REG_DMA_ENG_CAP"

definition usable :: "u32 \<Rightarrow> bool" where
  "usable v \<longleftrightarrow> v AND DMA_ENG_PRESENT_MASK \<noteq> 0 \<and> v AND DMA_ENG_TYPE_MASK = DMA_ENG_PACKET"

lemma crsr_dev [simp]:
  "dev (snd (Dma_mGetCrSr E m)) = dev m" "dev (Dma_mSetCrSr E d m) = dev m" "dev (Dma_mEngIntDisable E m) = dev m"
  "dev (Dma_mEngIntAck E d m) = dev m" "dev (snd (Dma_mReadReg b r m)) = dev m"
  by (simp_all add: Dma_mGetCrSr_def Dma_mSetCrSr_def Dma_mEngIntDisable_def Dma_mEngIntAck_def Dma_mReadReg_def
      Dma_mWriteReg_def split_beta Let_def)

lemma wait_clear_dev [simp]: "dev (wait_clear k E bits m) = dev m"
  by (induction k arbitrary: m) (simp_all add: split_beta Let_def)

lemma Dma_Initialize_dev: "Dma_Initialize b ty m = (E, m') \<Longrightarrow> dev m' = dev m"
proof -
  assume "Dma_Initialize b ty m = (E, m')"
  then obtain F :: "'a Dma_Engine" where "m' = snd (Dma_Reset F m)" by (auto simp: Dma_Initialize_def Let_def prod_eq_iff)
  then show ?thesis by (simp add: Dma_Reset_def split_beta Let_def)
qed

lemma read_engine_exact:
  assumes i: "i < 64" and cap: "\<forall>es. dev (hw s) es (cap_reg s i) = v"
  shows "engine_present (read_engine i s) j \<longleftrightarrow> engine_present s j \<or> (j = i \<and> usable v)"
    "eng_kind (read_engine i s) = (if usable v then (eng_kind s)(i := v AND DMA_ENG_DIRECTION_MASK) else eng_kind s)"
    "dev (hw (read_engine i s)) = dev (hw s)" "baseVAddr (read_engine i s) = baseVAddr s"
proof -
  define b where "b = baseVAddr s 0 + (DMA_OFFSET + of_nat i * DMA_ENGINE_PER_SIZE)"
  obtain m where m: "Dma_mReadReg b REG_DMA_ENG_CAP (hw s) = (v, m)" "dev m = dev (hw s)"
    using cap crsr_dev(5)[of b REG_DMA_ENG_CAP "hw s"] by (auto simp: Dma_mReadReg_def XIo_In32_def Let_def cap_reg_def b_def)
  obtain E m' where E: "Dma_Initialize b (v AND DMA_ENG_DIRECTION_MASK) m = (E :: 'a Dma_Engine, m')" by (metis surj_pair)
  have r: "read_engine i s = (if usable v then (set_eng i E (s\<lparr>hw := m'\<rparr>))\<lparr>engineMask := engineMask s OR push_bit i 1\<rparr> else s\<lparr>hw := m\<rparr>)"
    unfolding read_engine_def Let_def b_def[symmetric] m(1) prod.case usable_def by (simp add: E set_eng_def)
  show "engine_present (read_engine i s) j \<longleftrightarrow> engine_present s j \<or> (j = i \<and> usable v)"
    using i unfolding r engine_present_iff by (auto simp: bit_or_power)
  show "eng_kind (read_engine i s) = (if usable v then (eng_kind s)(i := v AND DMA_ENG_DIRECTION_MASK) else eng_kind s)"
    using Dma_Initialize_spec[OF E] unfolding r by (auto simp: eng_kind_def fun_eq_iff)
  show "dev (hw (read_engine i s)) = dev (hw s)" using Dma_Initialize_dev[OF E] m(2) unfolding r by simp
  show "baseVAddr (read_engine i s) = baseVAddr s" unfolding r by (simp add: set_eng_def)
qed

lemma read_engines_exact:
  assumes "\<forall>i\<in>set is. i < 64" "\<forall>i\<in>set is. \<forall>es. dev (hw s) es (cap_reg s i) = cap i" "distinct is"
  shows "(engine_present (fold read_engine is s) j \<longleftrightarrow> engine_present s j \<or> (j \<in> set is \<and> usable (cap j)))
    \<and> eng_kind (fold read_engine is s) j = (if j \<in> set is \<and> usable (cap j) then cap j AND DMA_ENG_DIRECTION_MASK else eng_kind s j)"
  using assms
proof (induction "is" arbitrary: s)
  case (Cons i "is")
  let ?t = "read_engine i s"
  have 1: "i < 64" "\<forall>es. dev (hw s) es (cap_reg s i) = cap i" using Cons.prems(1,2) by simp_all
  note E = read_engine_exact[OF 1]
  have "\<forall>i\<in>set is. \<forall>es. dev (hw ?t) es (cap_reg ?t i) = cap i" using Cons.prems(2) by (simp add: E(3,4) cap_reg_def)
  from Cons.IH[OF _ this] Cons.prems(1,3) show ?case unfolding E(1,2) by auto
qed simp

section \<open>What is obtained and given back\<close>

definition bar_ok :: "pci_env \<Rightarrow> nat \<Rightarrow> bool" where
  "bar_ok p i \<longleftrightarrow> (if resource_len p i = 0 then i \<noteq> 0 else resource_mem p i)"

definition mapped :: "pci_env \<Rightarrow> nat \<Rightarrow> bool" where
  "mapped p i \<longleftrightarrow> resource_len p i \<noteq> 0 \<and> ioremap p i \<noteq> 0"

lemma pci_ev_sel [simp]:
  "pci_log (pci_ev e k) = e # pci_log k" "dmaData_set (pci_ev e k) = dmaData_set k"
  "xdmaCdev_set (pci_ev e k) = xdmaCdev_set k" "MSIEnabled (pci_ev e k) = MSIEnabled k"
  by (simp_all add: pci_ev_def)

lemma bit_clear_power: "bit (w AND NOT (2 ^ i)) j \<longleftrightarrow> bit (w :: u32) j \<and> j \<noteq> i"
  by (auto simp: bit_simps not_le dest: bit_imp_le_length)

lemma bit_or_power32: "bit (w OR 2 ^ i) j \<longleftrightarrow> bit (w :: u32) j \<or> (j = i \<and> i < 32)"
  by (auto simp: bit_simps)

lemma probe_bars_spec:
  assumes "probe_bars p is (s, k) = (ok, s', k')" "distinct is" "\<forall>i\<in>set is. i < 32"
  shows "(ok \<longleftrightarrow> (\<forall>i\<in>set is. bar_ok p i)) \<and> dmaData_set k' = dmaData_set k \<and> MSIEnabled k' = MSIEnabled k \<and> xdmaCdev_set k' = xdmaCdev_set k
    \<and> TH_BH_ISR s' = TH_BH_ISR s
    \<and> (\<exists>js. set js \<subseteq> {i\<in>set is. mapped p i} \<and> pci_log k' = (if ok then [] else [DisableDevice, Kfree, ReleaseRegions]) @ map Ioremap js @ pci_log k
         \<and> (ok \<longrightarrow> js = rev (filter (mapped p) is)))
    \<and> (ok \<longrightarrow> (\<forall>j. bit (barMask s') j \<longleftrightarrow> (if j \<in> set is \<and> resource_len p j \<noteq> 0 then mapped p j else bit (barMask s) j)))
    \<and> (ok \<longrightarrow> (\<forall>j. baseVAddr s' j = (if j \<in> set is \<and> resource_len p j \<noteq> 0 then ioremap p j else baseVAddr s j)))"
  using assms
proof (induction "is" arbitrary: s k)
  case (Cons i "is")
  have d: "distinct is" "\<forall>i\<in>set is. i < 32" "i \<notin> set is" "i < 32" using Cons.prems by simp_all
  consider (skip) "resource_len p i = 0" "i \<noteq> 0" | (bad) "\<not> bar_ok p i" | (failed) "resource_len p i \<noteq> 0" "resource_mem p i" "ioremap p i = 0"
    | (map) "resource_len p i \<noteq> 0" "resource_mem p i" "ioremap p i \<noteq> 0"
    by (cases "resource_len p i = 0"; cases "bar_ok p i"; cases "ioremap p i = 0") (auto simp: bar_ok_def)
  then show ?case
  proof cases
    case skip
    then have r: "probe_bars p is (s, k) = (ok, s', k')" using Cons.prems(1) by simp
    have "bar_ok p i" "\<not> mapped p i" using skip by (simp_all add: bar_ok_def mapped_def)
    then have e: "{j\<in>set (i # is). mapped p j} = {j\<in>set is. mapped p j}" "filter (mapped p) (i # is) = filter (mapped p) is"
      "(\<forall>j\<in>set (i # is). bar_ok p j) = (\<forall>j\<in>set is. bar_ok p j)"
      "\<And>j. j \<in> set (i # is) \<and> resource_len p j \<noteq> 0 \<longleftrightarrow> j \<in> set is \<and> resource_len p j \<noteq> 0" using skip by auto
    show ?thesis unfolding e by (rule Cons.IH[OF r d(1,2)])
  next
    case bad
    then have "ok = False" "k' = pci_abort k" "TH_BH_ISR s' = TH_BH_ISR s" using Cons.prems(1) by (auto simp: bar_ok_def split: if_splits)
    then show ?thesis using bad by (auto simp: pci_abort_def)
  next
    case failed
    define t where "t = s\<lparr>baseVAddr := (baseVAddr s)(i := ioremap p i), barMask := (barMask s OR push_bit i 1) AND NOT (push_bit i 1)\<rparr>"
    have r: "probe_bars p is (t, k) = (ok, s', k')" using Cons.prems(1) failed by (simp add: t_def)
    have "bar_ok p i" "\<not> mapped p i" using failed by (simp_all add: bar_ok_def mapped_def)
    then have e: "{j\<in>set (i # is). mapped p j} = {j\<in>set is. mapped p j}" "filter (mapped p) (i # is) = filter (mapped p) is"
      "(\<forall>j\<in>set (i # is). bar_ok p j) = (\<forall>j\<in>set is. bar_ok p j)" by auto
    have m: "(if j \<in> set is \<and> resource_len p j \<noteq> 0 then mapped p j else bit (barMask t) j)
        = (if j \<in> set (i # is) \<and> resource_len p j \<noteq> 0 then mapped p j else bit (barMask s) j)" for j
      using failed d(3) by (auto simp: t_def bit_clear_power bit_or_power32 mapped_def)
    have v: "(if j \<in> set is \<and> resource_len p j \<noteq> 0 then ioremap p j else baseVAddr t j)
        = (if j \<in> set (i # is) \<and> resource_len p j \<noteq> 0 then ioremap p j else baseVAddr s j)" for j
      using failed d(3) by (auto simp: t_def)
    have th: "TH_BH_ISR t = TH_BH_ISR s" by (simp add: t_def)
    show ?thesis using Cons.IH[OF r d(1,2)] unfolding e m v th .
  next
    case map
    define t where "t = s\<lparr>barMask := barMask s OR push_bit i 1, baseVAddr := (baseVAddr s)(i := ioremap p i)\<rparr>"
    have r: "probe_bars p is (t, pci_ev (Ioremap i) k) = (ok, s', k')" using Cons.prems(1) map by (simp add: t_def)
    have m: "bar_ok p i" "mapped p i" using map by (simp_all add: bar_ok_def mapped_def)
    from Cons.IH[OF r d(1,2)] obtain js where js: "set js \<subseteq> {i\<in>set is. mapped p i}"
      "pci_log k' = (if ok then [] else [DisableDevice, Kfree, ReleaseRegions]) @ map Ioremap (js @ [i]) @ pci_log k" "ok \<longrightarrow> js = rev (filter (mapped p) is)" by auto
    have ex: "\<exists>js. set js \<subseteq> {j\<in>set (i # is). mapped p j} \<and> pci_log k' = (if ok then [] else [DisableDevice, Kfree, ReleaseRegions]) @ map Ioremap js @ pci_log k
         \<and> (ok \<longrightarrow> js = rev (filter (mapped p) (i # is)))"
      by (rule exI[of _ "js @ [i]"]) (use js m in auto)
    have e: "(\<forall>j\<in>set (i # is). bar_ok p j) = (\<forall>j\<in>set is. bar_ok p j)" using m by simp
    have b: "(if j \<in> set is \<and> resource_len p j \<noteq> 0 then mapped p j else bit (barMask t) j)
        = (if j \<in> set (i # is) \<and> resource_len p j \<noteq> 0 then mapped p j else bit (barMask s) j)" for j
      using map d(3,4) by (auto simp: t_def bit_or_power32 mapped_def)
    have v: "(if j \<in> set is \<and> resource_len p j \<noteq> 0 then ioremap p j else baseVAddr t j)
        = (if j \<in> set (i # is) \<and> resource_len p j \<noteq> 0 then ioremap p j else baseVAddr s j)" for j
      using map d(3) by (auto simp: t_def)
    have "TH_BH_ISR t = TH_BH_ISR s" by (simp add: t_def)
    then show ?thesis using Cons.IH[OF r d(1,2)] ex unfolding b v e pci_ev_sel by (elim conjE) (intro conjI; assumption | simp only:)
  qed
qed auto

lemma probe_bars_hw: "probe_bars p is (s, k) = (ok, s', k') \<Longrightarrow> hw s' = hw s \<and> engineMask s' = engineMask s"
  by (induction "is" arbitrary: s k) (auto simp: Let_def split: if_splits)

text \<open>How much of a resource is held after the events of a log.\<close>

definition net :: "pci_event \<Rightarrow> pci_event \<Rightarrow> pci_event list \<Rightarrow> int" where
  "net a b es = int (count_list es a) - int (count_list es b)"

lemma net_simps [simp]:
  "net a b [] = 0" "net a b (e # es) = (if e = a then 1 else 0) - (if e = b then 1 else 0) + net a b es"
  "net a b (es @ fs) = net a b es + net a b fs"
  by (simp_all add: net_def)

lemma net_ioremap [simp]:
  "(\<And>i. a \<noteq> Ioremap i) \<Longrightarrow> (\<And>i. b \<noteq> Ioremap i) \<Longrightarrow> net a b (map Ioremap js) = 0"
  by (induction js) (simp_all, metis)

text \<open>The stages of a probe, with the state in which the BARs are looked at.\<close>

definition probe_start :: "'u drv \<times> pci_st \<Rightarrow> 'u drv \<times> pci_st" where
  "probe_start = (\<lambda>(s, k). (s\<lparr>pool := init_pools (pool s), barMask := 0, engineMask := 0, userCount := 0\<rparr>,
     pci_ev RequestRegions (pci_ev Kmalloc ((pci_ev EnableDevice k)\<lparr>dmaData_set := True\<rparr>))))"

definition early_failure :: "pci_env \<Rightarrow> bool" where
  "early_failure p \<longleftrightarrow> enable_ret p < 0 \<or> \<not> kmalloc_ok p \<or> regions_ret p < 0 \<or> dma_mask_ret p < 0"

lemma probe_early:
  assumes "early_failure p" "xdma_probe p (s, k) = (r, s', k')"
  shows "r \<noteq> 0 \<and> hw s' = hw s \<and> usr s' = usr s \<and> DriverState s' = DriverState s \<and> poll_timer s' = poll_timer s \<and> stats_timer s' = stats_timer s
    \<and> (\<exists>es. pci_log k' = es @ pci_log k \<and> set es \<subseteq> {EnableDevice, DisableDevice, RequestRegions, ReleaseRegions, Kmalloc, Kfree}
         \<and> net EnableDevice DisableDevice es = 0 \<and> net RequestRegions ReleaseRegions es = 0 \<and> net Kmalloc Kfree es = 0)"
proof -
  have nz: "XST_FAILURE \<noteq> 0" by (simp add: hwc)
  consider (1) "enable_ret p < 0" | (2) "\<not> enable_ret p < 0" "\<not> kmalloc_ok p" | (3) "\<not> enable_ret p < 0" "kmalloc_ok p" "regions_ret p < 0"
    | (4) "\<not> enable_ret p < 0" "kmalloc_ok p" "\<not> regions_ret p < 0" "dma_mask_ret p < 0"
    using assms(1) by (auto simp: early_failure_def)
  then show ?thesis
  proof cases
    case 1
    then show ?thesis using assms(2) unfolding xdma_probe_def by simp
  next
    case 2
    then show ?thesis using assms(2) nz unfolding xdma_probe_def Let_def by auto
  next
    case 3
    then show ?thesis using assms(2) unfolding xdma_probe_def Let_def by auto
  next
    case 4
    then show ?thesis using assms(2) unfolding xdma_probe_def Let_def by (auto simp: pci_abort_def)
  qed
qed

lemma read_engines_keep:
  "barMask (fold read_engine is s) = barMask s \<and> TH_BH_ISR (fold read_engine is s) = TH_BH_ISR s
   \<and> baseVAddr (fold read_engine is s) = baseVAddr s"
  by (induction "is" arbitrary: s) (simp_all add: read_engine_def Let_def split_beta set_eng_def)

lemma probe_late:
  assumes nf: "\<not> early_failure p" and run: "xdma_probe p (s, k) = (r, s', k')"
    and b: "probe_bars p [0..<MAX_BARS] (probe_start (s, k)) = (ok, s1, k1)"
  shows "if ok then r = 0 \<and> barMask s' = barMask s1 \<and> TH_BH_ISR s' = TH_BH_ISR s \<and> baseVAddr s' = baseVAddr s1 \<and> DriverState s' = INITIALIZED
      \<and> dmaData_set k' \<and> (xdmaCdev_set k' \<longleftrightarrow> xdmaCdev_set k \<or> \<not> is_err (chrdev_ret p)) \<and> (MSIEnabled k' \<longleftrightarrow> MSIEnabled k \<or> (TH_BH_ISR s \<and> msi_ret p = 0))
      \<and> pci_log k' = (if TH_BH_ISR s then (if msi_ret p = 0 then [RequestIrq, EnableMsi] else [RequestIrq]) else [])
          @ (if \<not> is_err (chrdev_ret p) \<and> \<not> cdev_err p \<and> 0 \<le> cdev_ret p then [AddCdev] else []) @ pci_log k1
      \<and> Dma s' = Dma (ReadDMAEngineConfiguration (on_hw (Dma_mIntDisable (baseVAddr s1 0)) s1))
      \<and> engineMask s' = engineMask (ReadDMAEngineConfiguration (on_hw (Dma_mIntDisable (baseVAddr s1 0)) s1))
    else r = XST_FAILURE \<and> s' = s1 \<and> k' = k1"
proof -
  have nf': "\<not> enable_ret p < 0" "kmalloc_ok p" "\<not> regions_ret p < 0" "\<not> dma_mask_ret p < 0" using nf by (auto simp: early_failure_def)
  have st: "(s\<lparr>pool := init_pools (pool s)\<rparr>\<lparr>barMask := 0, engineMask := 0, userCount := 0\<rparr>,
       pci_ev RequestRegions (pci_ev Kmalloc ((pci_ev EnableDevice k)\<lparr>dmaData_set := True\<rparr>))) = probe_start (s, k)"
    by (simp add: probe_start_def)
  show ?thesis
  proof (cases ok)
    case False
    then show ?thesis using run nf' unfolding xdma_probe_def Let_def prod.case st b by simp
  next
    case True
    define s2 where "s2 = ReadDMAEngineConfiguration (on_hw (Dma_mIntDisable (baseVAddr s1 0)) s1)"
    obtain c k2 where c: "probe_cdev p k1 = (c, k2)" by (metis surj_pair)
    have rd: "barMask s2 = barMask s1 \<and> TH_BH_ISR s2 = TH_BH_ISR s1 \<and> baseVAddr s2 = baseVAddr s1"
      by (simp add: s2_def ReadDMAEngineConfiguration_def split_beta read_engines_keep on_hw_def)
    have isr: "TH_BH_ISR s1 = TH_BH_ISR s" using b probe_bars_spec[of p "[0..<MAX_BARS]" "fst (probe_start (s, k))" "snd (probe_start (s, k))" ok s1 k1]
      by (simp add: probe_start_def MAX_BARS_def)
    have k1: "dmaData_set k1" "MSIEnabled k1 = MSIEnabled k" "xdmaCdev_set k1 = xdmaCdev_set k"
      using b probe_bars_spec[of p "[0..<MAX_BARS]" "fst (probe_start (s, k))" "snd (probe_start (s, k))" ok s1 k1]
      by (simp_all add: probe_start_def MAX_BARS_def)
    have cd: "dmaData_set k2 = dmaData_set k1 \<and> MSIEnabled k2 = MSIEnabled k1 \<and> (xdmaCdev_set k2 \<longleftrightarrow> xdmaCdev_set k1 \<or> \<not> is_err (chrdev_ret p))
        \<and> pci_log k2 = (if \<not> is_err (chrdev_ret p) \<and> \<not> cdev_err p \<and> 0 \<le> cdev_ret p then [AddCdev] else []) @ pci_log k1"
      using c by (auto simp: probe_cdev_def split: if_splits)
    define s3 where "s3 = (if \<not> is_err c then let s = reset_stats s2 in s\<lparr>stats_timer := Some (jiffies s + HZ s)\<rparr> else s2)"
    have s3: "barMask s3 = barMask s1" "TH_BH_ISR s3 = TH_BH_ISR s" "baseVAddr s3 = baseVAddr s1" "Dma s3 = Dma s2" "engineMask s3 = engineMask s2"
      using rd isr by (simp_all add: s3_def Let_def reset_stats_def)
    define s6 where "s6 = s3\<lparr>DriverState := INITIALIZED\<rparr>"
    define s7 where "s7 = s6\<lparr>poll_timer := Some (jiffies s6 + HZ s6 div 500)\<rparr>"
    define s8 where "s8 = s7\<lparr>LastIntr := (\<lambda>i. if i < MAX_DMA_ENGINES then jiffies s7 else LastIntr s7 i)\<rparr>"
    define k3 where "k3 = (if msi_ret p = 0 then pci_ev EnableMsi (k2\<lparr>MSIEnabled := True\<rparr>) else k2)"
    have "r = 0 \<and> s' = (if TH_BH_ISR s7 then on_hw (Dma_mIntEnable (baseVAddr s8 0)) s8 else s7)
        \<and> k' = (if TH_BH_ISR s7 then pci_ev RequestIrq k3 else k2)"
      using run nf' True unfolding xdma_probe_def Let_def prod.case st b s2_def[symmetric] c s3_def[symmetric, unfolded Let_def]
        s6_def[symmetric] s7_def[symmetric] s8_def[symmetric] k3_def[symmetric]
      by (auto split: if_splits)
    moreover have "barMask s7 = barMask s1" "TH_BH_ISR s7 = TH_BH_ISR s" "baseVAddr s7 = baseVAddr s1" "DriverState s7 = INITIALIZED"
      "Dma s7 = Dma s2" "engineMask s7 = engineMask s2"
      using s3 by (simp_all add: s7_def s6_def)
    moreover have "barMask (on_hw f s8) = barMask s7" "TH_BH_ISR (on_hw f s8) = TH_BH_ISR s7" "baseVAddr (on_hw f s8) = baseVAddr s7"
      "DriverState (on_hw f s8) = DriverState s7" "Dma (on_hw f s8) = Dma s7" "engineMask (on_hw f s8) = engineMask s7" for f by (simp_all add: s8_def on_hw_def)
    ultimately show ?thesis using True k1 cd by (cases "TH_BH_ISR s") (simp_all add: k3_def s2_def)
  qed
qed

lemma probe_succeeds_iff:
  "fst (xdma_probe p (s, k)) = 0 \<longleftrightarrow> \<not> early_failure p \<and> (\<forall>i<MAX_BARS. bar_ok p i)"
proof -
  obtain r s' k' where run: "xdma_probe p (s, k) = (r, s', k')" by (metis prod_cases3)
  obtain ok s1 k1 where b: "probe_bars p [0..<MAX_BARS] (probe_start (s, k)) = (ok, s1, k1)" by (metis prod_cases3)
  obtain s0 k0 where z: "probe_start (s, k) = (s0, k0)" by (metis surj_pair)
  have "distinct [0..<MAX_BARS]" "\<forall>i\<in>set [0..<MAX_BARS]. i < 32" by (simp_all add: MAX_BARS_def)
  from probe_bars_spec[OF b[unfolded z] this, THEN conjunct1] have "ok \<longleftrightarrow> (\<forall>i<MAX_BARS. bar_ok p i)"
    by (simp add: atLeast0LessThan Ball_def lessThan_iff)
  moreover have "r = 0 \<longleftrightarrow> \<not> early_failure p \<and> ok"
  proof (cases "early_failure p")
    case True
    then show ?thesis using probe_early[OF True run] by simp
  next
    case False
    have "XST_FAILURE \<noteq> 0" by (simp add: hwc)
    then show ?thesis using probe_late[OF False run b] False by (cases ok) simp_all
  qed
  ultimately show ?thesis by (simp add: run)
qed

text \<open>With constant capability registers, the probe reports exactly the usable engines.\<close>

lemma probe_engines:
  assumes run: "xdma_probe p (s, k) = (0, s', k')" and cap: "\<forall>i<64. \<forall>es. dev (hw s) es (ioremap p 0 + of_nat i * 0x100) = cap i"
  shows "engine_present s' i \<longleftrightarrow> i < 64 \<and> usable (cap i)"
    "engine_present s' i \<Longrightarrow> eng_kind s' i = cap i AND DMA_ENG_DIRECTION_MASK"
proof -
  obtain s0 k0 where z: "probe_start (s, k) = (s0, k0)" by (metis surj_pair)
  obtain ok s1 k1 where b: "probe_bars p [0..<MAX_BARS] (s0, k0) = (ok, s1, k1)" by (metis prod_cases3)
  have nf: "\<not> early_failure p" "bar_ok p 0" using probe_succeeds_iff[of p s k] run by (simp_all add: MAX_BARS_def)
  have d: "distinct [0..<MAX_BARS]" "\<forall>i\<in>set [0..<MAX_BARS]. i < 32" by (simp_all add: MAX_BARS_def)
  have nz: "(0 :: int) \<noteq> XST_FAILURE" by (simp add: hwc)
  note L = probe_late[OF nf(1) run b[folded z]]
  have ok: ok using L nz by (cases ok) simp_all
  note L = L[unfolded if_P[OF ok]]
  have base: "baseVAddr s1 0 = ioremap p 0"
  proof -
    have "baseVAddr s1 0 = (if 0 \<in> set [0..<MAX_BARS] \<and> resource_len p 0 \<noteq> 0 then ioremap p 0 else baseVAddr s0 0)"
      using probe_bars_spec[OF b d] ok by blast
    then show ?thesis using nf(2) by (simp add: MAX_BARS_def bar_ok_def split: if_splits)
  qed
  define s2 where "s2 = on_hw (Dma_mIntDisable (baseVAddr s1 0)) s1"
  obtain v m where v: "XIo_In32 (baseVAddr s2 0 + 0x8000) (hw s2) = (v, m)" by (metis surj_pair)
  have s4: "ReadDMAEngineConfiguration s2 = fold read_engine [0..<MAX_DMA_ENGINES] (s2\<lparr>hw := m\<rparr>)"
    by (simp add: ReadDMAEngineConfiguration_def v)
  have fr: "hw s1 = hw s" "engineMask s1 = 0"
  proof -
    have "hw s1 = hw s0 \<and> engineMask s1 = engineMask s0"
      using b by (rule probe_bars_hw)
    then show "hw s1 = hw s" "engineMask s1 = 0" using z by (auto simp: probe_start_def)
  qed
  have m: "dev m = dev (hw s)" using v by (auto simp: XIo_In32_def Let_def s2_def fr Dma_mIntDisable_def Dma_mWriteReg_def split_beta)
  have b2: "baseVAddr (s2\<lparr>hw := m\<rparr>) 0 = ioremap p 0" by (simp add: s2_def on_hw_def base)
  have c: "\<forall>i\<in>set [0..<MAX_DMA_ENGINES]. \<forall>es. dev (hw (s2\<lparr>hw := m\<rparr>)) es (cap_reg (s2\<lparr>hw := m\<rparr>) i) = cap i"
    using cap unfolding cap_reg_def b2 by (simp add: m hwc)
  have l: "\<forall>i\<in>set [0..<MAX_DMA_ENGINES]. i < 64" "distinct [0..<MAX_DMA_ENGINES]" by (simp_all add: MAX_DMA_ENGINES_def)
  note X = read_engines_exact[OF l(1) c l(2), of i, folded s4]
  have np: "\<not> engine_present (s2\<lparr>hw := m\<rparr>) i" by (simp add: engine_present_def s2_def on_hw_def fr)
  have e: "engine_present s' i = engine_present (ReadDMAEngineConfiguration s2) i" "eng_kind s' i = eng_kind (ReadDMAEngineConfiguration s2) i"
    using L by (simp_all add: s2_def engine_present_def eng_kind_def)
  show "engine_present s' i \<longleftrightarrow> i < 64 \<and> usable (cap i)" using X np unfolding e by (simp add: MAX_DMA_ENGINES_def)
  then show "engine_present s' i \<Longrightarrow> eng_kind s' i = cap i AND DMA_ENG_DIRECTION_MASK"
    using X unfolding e by (simp add: MAX_DMA_ENGINES_def)
qed

section \<open>Unloading\<close>

lemma unmap_bars:
  "fold (unmap_bar bm) is k = k\<lparr>pci_log := map Iounmap (rev (filter (\<lambda>i. bm AND push_bit i 1 \<noteq> 0) is)) @ pci_log k\<rparr>"
  by (induction "is" arbitrary: k) (simp_all add: unmap_bar_def pci_ev_def)

lemma net_mapped:
  "net a b (map Ioremap js) = int (count_list (map Ioremap js) a) - int (count_list (map Ioremap js) b)"
  "net (Ioremap i) (Iounmap i) (map Ioremap js) = int (count_list js i)"
  "net (Ioremap i) (Iounmap i) (map Iounmap js) = - int (count_list js i)"
  by (induction js) (simp_all add: net_def)

lemma net_iounmap [simp]:
  "(\<And>i. a \<noteq> Iounmap i) \<Longrightarrow> (\<And>i. b \<noteq> Iounmap i) \<Longrightarrow> net a b (map Iounmap js) = 0"
  by (induction js) (simp_all, metis)

lemma remove_mask:
  "barMask (snd (DmaFifoEmptyWait h d s)) = barMask s" "barMask (on_hw f s) = barMask s"
  "barMask (fold reset_one is s) = barMask s"
proof -
  show "barMask (snd (DmaFifoEmptyWait h d s)) = barMask s" by (simp add: DmaFifoEmptyWait_def Let_def split_beta)
  show "barMask (on_hw f s) = barMask s" by (simp add: on_hw_def)
  show "barMask (fold reset_one is s) = barMask s"
    by (induction "is" arbitrary: s) (simp_all add: reset_one_def split_beta set_eng_def)
qed

lemma remove_log:
  "pci_log (snd (xdma_remove (s, k))) =
     [DisableDevice, ReleaseRegions] @ (if xdmaCdev_set k then [DelCdev] else [])
     @ map Iounmap (rev (filter (\<lambda>i. barMask s AND push_bit i 1 \<noteq> 0) [0..<MAX_BARS]))
     @ (if TH_BH_ISR s then (if MSIEnabled k then [DisableMsi, FreeIrq] else [FreeIrq]) else []) @ pci_log k"
  "dmaData_set (snd (xdma_remove (s, k))) = dmaData_set k"
proof -
  have th: "TH_BH_ISR (on_hw f t) = TH_BH_ISR t" for f and t :: "'a drv" by (simp add: on_hw_def)
  show "pci_log (snd (xdma_remove (s, k))) =
     [DisableDevice, ReleaseRegions] @ (if xdmaCdev_set k then [DelCdev] else [])
     @ map Iounmap (rev (filter (\<lambda>i. barMask s AND push_bit i 1 \<noteq> 0) [0..<MAX_BARS]))
     @ (if TH_BH_ISR s then (if MSIEnabled k then [DisableMsi, FreeIrq] else [FreeIrq]) else []) @ pci_log k"
    "dmaData_set (snd (xdma_remove (s, k))) = dmaData_set k"
    by (simp_all add: xdma_remove_def Let_def remove_mask unmap_bars th del: upt_Suc)
qed

lemma cleanup_log:
  "pci_log (snd (xdma_cleanup True (s, k))) = (if dmaData_set k then [Kfree] else []) @ pci_log (snd (xdma_remove (s, k)))"
  "pci_log (snd (xdma_cleanup False (s, k))) = (if dmaData_set k then [Kfree] else []) @ pci_log k"
proof -
  let ?t = "on_hw (spin_unlock DmaLock) ((on_hw (spin_lock DmaLock) s)\<lparr>DriverState := UNREGISTERING\<rparr>)"
  have "pci_log (snd (xdma_remove (?t, k))) = pci_log (snd (xdma_remove (s, k)))" unfolding remove_log by (simp add: on_hw_def)
  then show "pci_log (snd (xdma_cleanup True (s, k))) = (if dmaData_set k then [Kfree] else []) @ pci_log (snd (xdma_remove (s, k)))"
    using remove_log(2)[of ?t k] by (simp add: xdma_cleanup_def Let_def split_beta)
qed (simp add: xdma_cleanup_def Let_def)

text \<open>Everything obtained by a successful probe is given back when the module is unloaded.\<close>

lemma probe_unload_balanced:
  assumes run: "xdma_probe p (s, k) = (0, s', k')" and k: "\<not> MSIEnabled k"
    and cd: "\<not> is_err (chrdev_ret p)" "\<not> cdev_err p" "0 \<le> cdev_ret p"
    and s2: "TH_BH_ISR s2 = TH_BH_ISR s'" "barMask s2 = barMask s'"
    and ab: "(a, b) \<in> {(EnableDevice, DisableDevice), (RequestRegions, ReleaseRegions), (Kmalloc, Kfree), (Ioremap i, Iounmap i),
      (AddCdev, DelCdev), (RequestIrq, FreeIrq), (EnableMsi, DisableMsi)}"
  shows "net a b (pci_log (snd (xdma_cleanup True (s2, k')))) = net a b (pci_log k)"
proof -
  obtain s0 k0 where z: "probe_start (s, k) = (s0, k0)" by (metis surj_pair)
  obtain ok s1 k1 where b: "probe_bars p [0..<MAX_BARS] (s0, k0) = (ok, s1, k1)" by (metis prod_cases3)
  have nf: "\<not> early_failure p" using probe_succeeds_iff[of p s k] run by simp
  have d: "distinct [0..<MAX_BARS]" "\<forall>i\<in>set [0..<MAX_BARS]. i < 32" by (simp_all add: MAX_BARS_def)
  have nz: "(0 :: int) \<noteq> XST_FAILURE" by (simp add: hwc)
  note L = probe_late[OF nf run b[folded z]]
  have ok: ok using L nz by (cases ok) simp_all
  note L = L[unfolded if_P[OF ok]]
  note B = probe_bars_spec[OF b d]
  let ?js = "filter (mapped p) [0..<MAX_BARS]"
  have log1: "pci_log k1 = map Ioremap (rev ?js) @ pci_log k0" using B ok by (simp del: upt_Suc)
  have k0: "pci_log k0 = [RequestRegions, Kmalloc, EnableDevice] @ pci_log k" "barMask s0 = 0" using z by (auto simp: probe_start_def)
  have "bit (barMask s1) j = mapped p j" if "j \<in> set [0..<MAX_BARS]" for j
  proof -
    have "bit (barMask s1) j = (if j \<in> set [0..<MAX_BARS] \<and> resource_len p j \<noteq> 0 then mapped p j else bit (barMask s0) j)" using B ok by blast
    then show ?thesis using that k0(2) by (simp add: mapped_def)
  qed
  moreover have "barMask s1 AND push_bit j 1 \<noteq> 0 \<longleftrightarrow> bit (barMask s1) j" if "j < 32" for j
  proof -
    have "barMask s1 AND push_bit j 1 = (if bit (barMask s1) j then push_bit j 1 else 0)"
      by (rule bit_word_eqI) (auto simp: bit_simps)
    moreover have "push_bit j (1 :: u32) \<noteq> 0"
    proof
      assume "push_bit j (1 :: u32) = 0"
      then have "bit (push_bit j (1 :: u32)) j = bit (0 :: u32) j" by (rule arg_cong)
      then show False using that by (simp add: bit_simps)
    qed
    ultimately show ?thesis by simp
  qed
  ultimately have f: "filter (\<lambda>i. barMask s2 AND push_bit i 1 \<noteq> 0) [0..<MAX_BARS] = ?js"
    using d(2) s2(2) L by (intro filter_cong) auto
  have c: "xdmaCdev_set k'" "dmaData_set k'" "MSIEnabled k' \<longleftrightarrow> TH_BH_ISR s \<and> msi_ret p = 0" "TH_BH_ISR s2 = TH_BH_ISR s" using L k cd(1) s2(1) by auto
  have log': "pci_log k' = (if TH_BH_ISR s then (if msi_ret p = 0 then [RequestIrq, EnableMsi] else [RequestIrq]) else []) @ [AddCdev] @ pci_log k1"
    using L cd by simp
  define irq where "irq = (if TH_BH_ISR s then (if msi_ret p = 0 then [RequestIrq, EnableMsi] else [RequestIrq]) else [])"
  define unirq where "unirq = (if TH_BH_ISR s then (if TH_BH_ISR s \<and> msi_ret p = 0 then [DisableMsi, FreeIrq] else [FreeIrq]) else [])"
  have irqs: "net x y irq + net x y unirq = 0" if "(x, y) \<in> {(EnableDevice, DisableDevice), (RequestRegions, ReleaseRegions), (Kmalloc, Kfree), (Ioremap i, Iounmap i),
      (AddCdev, DelCdev), (RequestIrq, FreeIrq), (EnableMsi, DisableMsi)}" for x y
    using that by (cases "TH_BH_ISR s"; cases "msi_ret p = 0") (auto simp: irq_def unirq_def)
  have "pci_log (snd (xdma_cleanup True (s2, k'))) = [Kfree, DisableDevice, ReleaseRegions, DelCdev] @ map Iounmap (rev ?js) @ unirq
      @ irq @ [AddCdev] @ map Ioremap (rev ?js) @ [RequestRegions, Kmalloc, EnableDevice] @ pci_log k"
    unfolding cleanup_log(1) remove_log(1) c(3,4) f log' log1 k0 unirq_def irq_def using c(1,2) by (simp del: upt_Suc)
  moreover have "net a b (map Iounmap (rev ?js)) + net a b (map Ioremap (rev ?js)) = 0"
    using ab by (auto simp: net_mapped(2,3) simp del: upt_Suc)
  ultimately show ?thesis using ab irqs[OF ab] by (auto simp del: upt_Suc)
qed

end
