(* ===== verification/SystemLife.thy ===== *)
theory SystemLife
  imports System XdmaProbeSpec
begin

text \<open>
  Loading and unloading of the raw data driver on top of the base driver: registration from its
  polling routine reaches the invariant of the running system, and unloading gives back every
  buffer, every mapping and every page.
\<close>

section \<open>Registration keeps the kind of an engine\<close>

lemma kind_set_eng: "eng_kind (set_eng e E s) = (eng_kind s)(e := EngType E)"
  by (simp add: eng_kind_def fun_eq_iff)

lemma kind_same [simp]: "(eng_kind s)(e := EngType (Dma s e)) = eng_kind s"
  by (simp add: eng_kind_def fun_eq_iff)

lemma kind_count [simp]: "eng_kind (s\<lparr>userCount := c\<rparr>) = eng_kind s"
  by (simp add: eng_kind_def fun_eq_iff)

lemma UserInit_kind [simp]: "eng_kind (call_UserInit e b s) = eng_kind s"
  by (simp add: call_UserInit_def Let_def split_beta split: option.split)

lemma descriptor_init_kind: "descriptor_init e s = (r, s') \<Longrightarrow> eng_kind s' = eng_kind s"
  by (auto simp: descriptor_init_def Let_def split_beta kind_set_eng split: option.splits if_splits)

lemma DmaRegister_kind: "DmaRegister n b u z s = Returned (h, s') \<Longrightarrow> eng_kind s' = eng_kind s"
proof -
  assume r: "DmaRegister n b u z s = Returned (h, s')"
  define s3 where "s3 = on_hw (spin_lock DmaLock) (call_UserInit (nat n) (baseVAddr s (nat b))
    (set_eng (nat n) ((Dma s (nat n))\<lparr>user := u, pktSize := z\<rparr>) s))"
  obtain q s4 where d: "descriptor_init (nat n) s3 = (q, s4)" by (metis surj_pair)
  have "eng_kind s3 = eng_kind s" by (simp add: s3_def kind_set_eng)
  then have 4: "eng_kind s4 = eng_kind s" using descriptor_init_kind[OF d] by simp
  define s5 where "s5 = (set_eng (nat n) ((Dma s4 (nat n))\<lparr>EngineState := USER_ASSIGNED\<rparr>) s4)
    \<lparr>userCount := userCount (set_eng (nat n) ((Dma s4 (nat n))\<lparr>EngineState := USER_ASSIGNED\<rparr>) s4) + 1\<rparr>"
  have 5: "eng_kind s5 = eng_kind s" unfolding 4[symmetric] by (simp add: s5_def kind_set_eng)
  show ?thesis using r
    by (auto simp: DmaRegister_def Let_def s3_def[symmetric] d s5_def[symmetric] 5 split_beta split: if_splits)
qed

text \<open>The same for what only interrupts, timers and the device file touch.\<close>

lemma UserInit_aux [simp]: "aux (call_UserInit e b s) = aux s"
  by (simp add: call_UserInit_def Let_def split_beta split: option.split)

lemma descriptor_init_aux: "descriptor_init e s = (r, s') \<Longrightarrow> aux s' = aux s"
  by (auto simp: descriptor_init_def Let_def split_beta split: option.splits if_splits)

lemma DmaRegister_aux: "DmaRegister n b u z s = Returned (h, s') \<Longrightarrow> aux s' = aux s"
proof -
  assume r: "DmaRegister n b u z s = Returned (h, s')"
  define s3 where "s3 = on_hw (spin_lock DmaLock) (call_UserInit (nat n) (baseVAddr s (nat b))
    (set_eng (nat n) ((Dma s (nat n))\<lparr>user := u, pktSize := z\<rparr>) s))"
  obtain q s4 where d: "descriptor_init (nat n) s3 = (q, s4)" by (metis surj_pair)
  have "aux s3 = aux s" by (simp add: s3_def)
  then have "aux s4 = aux s" using descriptor_init_aux[OF d] by simp
  then show ?thesis using r
    by (auto simp: DmaRegister_def Let_def s3_def[symmetric] d split_beta split: if_splits)
qed

section \<open>A driver that does not know its receive handle yet\<close>

text \<open>
  While the receive engine is being registered, the base driver already asks for buffers, but the
  handle of the engine is assigned only afterwards: \<open>myGetRxPkt\<close> refuses.
\<close>

definition fresh_inv :: "_ \<Rightarrow> raw \<Rightarrow> bool" where
  "fresh_inv f r \<longleftrightarrow> raw_inv r \<and> handle2 r = None \<and> (raw_static r, TxBufs r, RxBufs r) = f"

lemma fresh_unbound: "fresh_inv f r \<Longrightarrow> raw_inv r \<and> \<not> rx_bound r e"
  by (simp add: fresh_inv_def rx_bound_def)

interpretation fresh: user_app "fresh_inv f" myGetRxPkt myPutRxPkt "\<lambda>_. 0" "\<lambda>_ _. False" myInit for f
proof (unfold_locales, goal_cases)
  case (1 u n e va sz pd m r va' u' m')
  then show ?case using fresh_unbound[OF 1(1), of e] by (auto elim: myGetRxPkt_cases[rotated])
next
  case (2 u n va e sz pd m r va' u' m')
  then show ?case using fresh_unbound[OF 2(1), of e] by (auto elim: myGetRxPkt_cases[rotated])
next
  case (3 u e va sz n pd m r va' u' m')
  then show ?case using fresh_unbound[OF 3(1), of e] by (auto elim: myGetRxPkt_cases[rotated])
next
  case (4 u e va n pd m r u' m')
  then show ?case using fresh_unbound[OF 4(1), of e] by (auto elim: myPutRxPkt_cases[rotated])
next
  case (5 u e va sz n pd m r va' u' m')
  then show ?case using fresh_unbound[OF 5(1), of e] by (auto elim: myGetRxPkt_cases[rotated])
next
  case (8 u b pd m r u' m')
  then show ?case by (auto simp: myInit_def Let_def raw_inv_def moves_def fresh_inv_def raw_static_def split: if_splits)
qed auto

section \<open>Waiting, and states of the raw data driver\<close>

lemma reads_move_nothing: "moves 0 m m'" if "evs m' = map (RdReg r) vs @ evs m" for vs
proof -
  have "lock_depth l (map (RdReg r) vs @ es) = lock_depth l es \<and> map_count (map (RdReg r) vs @ es) = map_count es" for l es
    by (induction vs) simp_all
  then show ?thesis using that by (simp add: moves_def)
qed

lemma fifo_wait_quiet:
  "DmaFifoEmptyWait h t s = (late, s') \<Longrightarrow> \<exists>m. s' = s\<lparr>hw := m\<rparr> \<and> moves 0 (hw s) m"
proof -
  assume w: "DmaFifoEmptyWait h t s = (late, s')"
  define reg where "reg = baseVAddr s 0 + STATUS_REG_OFFSET"
  define c :: u32 where "c = push_bit EMPTY_MASK_SHIFT (push_bit (h + t) 1)"
  obtain l m where f: "fifo_wait FIFO_EMPTY_TIMEOUT reg c (hw s) = (l, m)" by (metis surj_pair)
  obtain vs where "evs m = map (RdReg reg) vs @ evs (hw s)"
    using fifo_wait_evs[of FIFO_EMPTY_TIMEOUT reg c "hw s" l m] f by blast
  then have "moves 0 (hw s) m" by (rule reads_move_nothing)
  moreover have "s' = s\<lparr>hw := m\<rparr>" using w f by (simp add: DmaFifoEmptyWait_def Let_def reg_def c_def)
  ultimately show ?thesis by blast
qed

definition can_serve :: "raw drv \<Rightarrow> nat \<Rightarrow> bool \<Rightarrow> bool" where
  "can_serve s e rx \<longleftrightarrow> engine_present s e \<and> EngineState (Dma s e) = INITIALIZED
     \<and> (IsRxChannel (ring_of s e) \<noteq> 0 \<longleftrightarrow> rx) \<and> (eng_kind s e AND DMA_ENG_DIRECTION_MASK = DMA_ENG_C2S \<longleftrightarrow> rx)"

text \<open>After loading and before registration.\<close>

definition loaded :: "raw drv \<Rightarrow> bool" where
  "loaded s \<longleftrightarrow> (let r = usr s; t = etx r; x = erx r in
     DriverState s = INITIALIZED \<and> raw_DriverState r < POLLING \<and> handle2 r = None \<and> raw_inv r
     \<and> tx_held r = 0 \<and> rx_held r = 0 \<and> MINPKTSIZE \<le> RawMaxPktSize r \<and> RawMaxPktSize r \<le> MAXPKTSIZE
     \<and> pool_ok s \<and> good_alloc s \<and> can_serve s t False \<and> can_serve s x True
     \<and> pending_ok s \<and> (\<forall>i. i \<noteq> t \<and> i \<noteq> x \<and> engine_present s i \<longrightarrow> EngineState (Dma s i) \<noteq> USER_ASSIGNED))"

lemma good_alloc_static: "static s' = static s \<Longrightarrow> good_alloc s' = good_alloc s"
  by (simp add: good_alloc_def static_def)

lemma service_start:
  assumes "idle s e" "ring_groups (ring_of s e) = \<lparr>gpost = [], ghw = [], gpre = [], gfree = [0..<4000]\<rparr>"
    "engine_present s e" "EngineState (Dma s e) = USER_ASSIGNED"
    "IsRxChannel (ring_of s e) \<noteq> 0 \<longleftrightarrow> eng_kind s e AND DMA_ENG_DIRECTION_MASK = DMA_ENG_C2S"
  shows "in_service s e 0"
proof -
  have "unat (HwCnt (ring_of s e)) = 0" "unat (FreeCnt (ring_of s e)) = 4000"
    using group_lengths(2,4)[of "ring_of s e"] unfolding assms(2) by simp_all
  then show ?thesis using assms by (simp add: in_service_def)
qed

text \<open>
  What a successful registration through either interpretation means for the driver around it:
  the two instances of \<open>register_spec\<close> in one form.
\<close>

definition registered :: "nat \<Rightarrow> raw UserPtrs \<Rightarrow> raw drv \<Rightarrow> raw drv \<Rightarrow> bool" where
  "registered e uptr s s' \<longleftrightarrow> idle s' e \<and> ring_groups (ring_of s' e) = \<lparr>gpost = [], ghw = [], gpre = [], gfree = [0..<4000]\<rparr>
     \<and> pool_ok s' \<and> moves 0 (hw s) (hw s') \<and> IsRxChannel (ring_of s' e) = IsRxChannel (ring_of s e)
     \<and> EngineState (Dma s' e) = USER_ASSIGNED \<and> user (Dma s' e) = uptr \<and> (\<forall>i. i \<noteq> e \<longrightarrow> Dma s' i = Dma s i)
     \<and> static s' = static s \<and> eng_kind s' = eng_kind s \<and> raw_inv (usr s') \<and> raw_static (usr s') = raw_static (usr s)
     \<and> tx_held (usr s') = tx_held (usr s) \<and> rx_held (usr s') = rx_held (usr s) \<and> pages (usr s') = pages (usr s)
     \<and> aux s' = aux s"

lemma register_tx:
  assumes "can_serve s e False" "DriverState s = INITIALIZED" "e < 64" "raw_inv (usr s)" "pool_ok s" "good_alloc s"
  shows "\<exists>s'. DmaRegister (int e) MYBAR (tx_ufuncs u) BUFSIZE s = Returned (Some e, s') \<and> registered e (tx_ufuncs u) s s'"
proof -
  define f where "f = (raw_static (usr s), RxBufs (usr s), TotalNum (TxBufs (usr s)), origVA (TxBufs (usr s)))"
  have "tx.available f s e" using assms by (simp add: tx.available_def can_serve_def eng_kind_def tx_inv_def f_def)
  moreover have "tx.callbacks (tx_ufuncs u) (IsRxChannel (ring_of s e) \<noteq> 0)"
    using assms(1) by (simp add: tx.callbacks_def tx_ufuncs_def can_serve_def)
  moreover have "(0 :: int) \<le> MYBAR" "MYBAR \<le> 5" by (simp_all add: hwc)
  ultimately obtain s' where r: "DmaRegister (int e) MYBAR (tx_ufuncs u) BUFSIZE s = Returned (Some e, s')"
    "ring_groups (ring_of s' e) = \<lparr>gpost = [], ghw = [], gpre = [], gfree = [0..<4000]\<rparr>"
    "idle s' e" "tx.served f s' e" "pool_ok s'" "moves 0 (hw s) (hw s')"
    "IsRxChannel (ring_of s' e) = IsRxChannel (ring_of s e)" "EngineState (Dma s' e) = USER_ASSIGNED"
    "user (Dma s' e) = tx_ufuncs u" "\<forall>i. i \<noteq> e \<longrightarrow> Dma s' i = Dma s i" "static s' = static s" "tx.got 0 s s'"
    using tx.register_spec[of f s e MYBAR "tx_ufuncs u" BUFSIZE] assms(1,6) by (auto simp: can_serve_def)
  then have "raw_inv (usr s') \<and> raw_static (usr s') = raw_static (usr s) \<and> tx_held (usr s') = tx_held (usr s)
      \<and> rx_held (usr s') = rx_held (usr s) \<and> pages (usr s') = pages (usr s)"
    by (auto simp: tx.served_def tx_inv_def f_def tx.got_def rx_held_def intro!: pages_cong)
  then show ?thesis using r DmaRegister_kind[OF r(1)] DmaRegister_aux[OF r(1)] by (auto simp: registered_def)
qed

lemma register_rx:
  assumes "can_serve s e True" "DriverState s = INITIALIZED" "e < 64" "raw_inv (usr s)" "pool_ok s" "good_alloc s"
    "handle2 (usr s) = None"
  shows "\<exists>s'. DmaRegister (int e) MYBAR (rx_ufuncs u) BUFSIZE s = Returned (Some e, s') \<and> registered e (rx_ufuncs u) s s'"
proof -
  define f where "f = (raw_static (usr s), TxBufs (usr s), RxBufs (usr s))"
  have "fresh.available f s e" using assms by (simp add: fresh.available_def can_serve_def eng_kind_def fresh_inv_def f_def)
  moreover have "fresh.callbacks (rx_ufuncs u) (IsRxChannel (ring_of s e) \<noteq> 0)"
    by (simp add: fresh.callbacks_def rx_ufuncs_def)
  moreover have "(0 :: int) \<le> MYBAR" "MYBAR \<le> 5" by (simp_all add: hwc)
  ultimately obtain k s' where r: "DmaRegister (int e) MYBAR (rx_ufuncs u) BUFSIZE s = Returned (Some e, s')"
    "ring_groups (ring_of s' e) = \<lparr>gpost = [], ghw = [0..<k], gpre = [], gfree = [k..<4000]\<rparr>"
    "idle s' e" "fresh.served f s' e" "pool_ok s'" "moves (int k) (hw s) (hw s')"
    "IsRxChannel (ring_of s' e) = IsRxChannel (ring_of s e)" "EngineState (Dma s' e) = USER_ASSIGNED"
    "user (Dma s' e) = rx_ufuncs u" "\<forall>i. i \<noteq> e \<longrightarrow> Dma s' i = Dma s i" "static s' = static s" "fresh.got k s s'"
    using fresh.register_spec[of f s e MYBAR "rx_ufuncs u" BUFSIZE] assms(1,6) by blast
  moreover from this have "k = 0" by (simp add: fresh.got_def)
  moreover have "raw_inv (usr s') \<and> raw_static (usr s') = raw_static (usr s) \<and> tx_held (usr s') = tx_held (usr s)
      \<and> rx_held (usr s') = rx_held (usr s) \<and> pages (usr s') = pages (usr s)"
    using \<open>fresh.served f s' e\<close> by (auto simp: fresh.served_def fresh_inv_def f_def tx_held_def rx_held_def intro!: pages_cong)
  ultimately show ?thesis using DmaRegister_kind[OF r(1)] DmaRegister_aux[OF r(1)] by (auto simp: registered_def)
qed

section \<open>Registration of both engines\<close>

lemma with_usr_sel [simp]:
  "usr (with_usr f s) = f (usr s)" "Dma (with_usr f s) = Dma s" "hw (with_usr f s) = hw s" "pool (with_usr f s) = pool s"
  "static (with_usr f s) = static s" "DriverState (with_usr f s) = DriverState s" "ring_of (with_usr f s) = ring_of s"
  "eng_kind (with_usr f s) = eng_kind s"
  by (simp_all add: with_usr_def ring_of_def eng_kind_def fun_eq_iff)

text \<open>The part of a state that one engine's service and its availability depend on.\<close>

lemma can_serve_cong:
  "Dma s' e = Dma s e \<Longrightarrow> static s' = static s \<Longrightarrow> can_serve s' e rx = can_serve s e rx"
  using staticD(2)[of s' s e] by (simp add: can_serve_def ring_of_def eng_kind_def)

lemma set_state_sel:
  "usr (raw_set_state d s) = (usr s)\<lparr>raw_DriverState := d\<rparr>" "Dma (raw_set_state d s) = Dma s" "pool (raw_set_state d s) = pool s"
  "static (raw_set_state d s) = static s" "moves 0 (hw s) (hw (raw_set_state d s))"
  by (simp_all add: raw_set_state_def moves_def)

lemma held_state [simp]: "tx_held (r\<lparr>raw_DriverState := d\<rparr>) = tx_held r" "rx_held (r\<lparr>raw_DriverState := d\<rparr>) = rx_held r"
  "tx_held (r\<lparr>handle0 := h\<rparr>) = tx_held r" "rx_held (r\<lparr>handle0 := h\<rparr>) = rx_held r"
  "tx_held (r\<lparr>handle2 := h\<rparr>) = tx_held r" "rx_held (r\<lparr>handle2 := h\<rparr>) = rx_held r"
  "tx_held (r\<lparr>raw_timer := tm\<rparr>) = tx_held r" "rx_held (r\<lparr>raw_timer := tm\<rparr>) = rx_held r"
  "raw_inv (r\<lparr>raw_DriverState := d\<rparr>) = raw_inv r" "raw_inv (r\<lparr>handle0 := h\<rparr>) = raw_inv r"
  "raw_inv (r\<lparr>handle2 := h\<rparr>) = raw_inv r" "raw_inv (r\<lparr>raw_timer := tm\<rparr>) = raw_inv r"
  "pages (r\<lparr>raw_DriverState := d\<rparr>) = pages r" "pages (r\<lparr>handle0 := h\<rparr>) = pages r"
  "pages (r\<lparr>handle2 := h\<rparr>) = pages r" "pages (r\<lparr>raw_timer := tm\<rparr>) = pages r"
  "etx (r\<lparr>raw_DriverState := d\<rparr>) = etx r" "erx (r\<lparr>raw_DriverState := d\<rparr>) = erx r"
  "etx (r\<lparr>handle0 := h\<rparr>) = etx r" "erx (r\<lparr>handle0 := h\<rparr>) = erx r"
  "etx (r\<lparr>handle2 := h\<rparr>) = etx r" "erx (r\<lparr>handle2 := h\<rparr>) = erx r"
  "etx (r\<lparr>raw_timer := tm\<rparr>) = etx r" "erx (r\<lparr>raw_timer := tm\<rparr>) = erx r"
  by (simp_all add: tx_held_def rx_held_def raw_inv_def etx_def erx_def ENGINE_TX_def ENGINE_RX_def pages_def)

lemma raw_staticI: "raw_static r' = raw_static r \<Longrightarrow> handle2 r' = handle2 r \<and> handle0 r' = handle0 r \<and> RawMaxPktSize r' = RawMaxPktSize r
    \<and> raw_DriverState r' = raw_DriverState r \<and> etx r' = etx r \<and> erx r' = erx r"
  using raw_staticD by metis

lemma register_both:
  assumes ld: "loaded s"
  shows "\<exists>s'. raw_register u s = Returned s' \<and> sys_inv (\<lambda>l. lock_depth l (evs (hw s))) (map_count (evs (hw s))) (pages (usr s)) s'
    \<and> tx_held (usr s') = 0 \<and> rx_held (usr s') = 0 \<and> etx (usr s') = etx (usr s) \<and> erx (usr s') = erx (usr s)
    \<and> (\<forall>e\<in>{etx (usr s), erx (usr s)}. ring_groups (ring_of s' e) = \<lparr>gpost = [], ghw = [], gpre = [], gfree = [0..<4000]\<rparr>)"
proof -
  define t where "t = etx (usr s)"
  define x where "x = erx (usr s)"
  have ne: "t \<noteq> x" and lt: "t < 64" "x < 64" using etx_erx[of "usr s"] by (simp_all add: t_def x_def)
  have L: "DriverState s = INITIALIZED" "handle2 (usr s) = None" "raw_inv (usr s)" "tx_held (usr s) = 0" "rx_held (usr s) = 0"
    "MINPKTSIZE \<le> RawMaxPktSize (usr s)" "RawMaxPktSize (usr s) \<le> MAXPKTSIZE" "pool_ok s" "good_alloc s"
    "can_serve s t False" "can_serve s x True" "\<forall>i. i \<noteq> t \<and> i \<noteq> x \<and> engine_present s i \<longrightarrow> EngineState (Dma s i) \<noteq> USER_ASSIGNED" "pending_ok s"
    using ld by (simp_all add: loaded_def Let_def t_def x_def)
  define s1 where "s1 = raw_set_state REGISTERED s"
  obtain l2 s2 where w2: "DmaFifoEmptyWait (MYHANDLE (usr s1)) DIR_TYPE_S2C s1 = (l2, s2)" by (metis surj_pair)
  from fifo_wait_quiet[OF w2] obtain m2 where m2: "s2 = s1\<lparr>hw := m2\<rparr>" "moves 0 (hw s1) m2" by blast
  have S2: "Dma s2 = Dma s" "static s2 = static s" "pool s2 = pool s" "usr s2 = (usr s)\<lparr>raw_DriverState := REGISTERED\<rparr>"
    using set_state_sel[where d = REGISTERED and s = s] by (simp_all add: m2 s1_def)
  have M2: "moves 0 (hw s) (hw s2)" using moves_trans0[OF set_state_sel(5) m2(2)[unfolded s1_def]] by (simp add: m2)
  have "can_serve s2 t False" "DriverState s2 = INITIALIZED" "raw_inv (usr s2)" "pool_ok s2" "good_alloc s2"
    using L can_serve_cong[of s2 t s False] S2 staticD(1)[OF S2(2)] pool_ok_pool[OF S2(3)] good_alloc_static[OF S2(2)]
    by simp_all
  from register_tx[OF this(1,2) lt(1) this(3-5)] obtain s3 where
    r3: "DmaRegister (int t) MYBAR (tx_ufuncs u) BUFSIZE s2 = Returned (Some t, s3)" "registered t (tx_ufuncs u) s2 s3" by blast
  note R3 = r3(2)[unfolded registered_def]
  have U3: "usr s3 = usr s3" "handle2 (usr s3) = None" "RawMaxPktSize (usr s3) = RawMaxPktSize (usr s)"
     "raw_DriverState (usr s3) = REGISTERED" "etx (usr s3) = t" "erx (usr s3) = x"
    using raw_staticI[of "usr s3" "usr s2"] R3 by (simp_all add: S2 L t_def x_def)
  define s4 where "s4 = on_hw (spin_unlock RawLock) (on_hw (spin_lock RawLock) (with_usr (\<lambda>r. r\<lparr>handle0 := Some t\<rparr>) s3))"
  obtain l5 s5 where w5: "DmaFifoEmptyWait (MYHANDLE (usr s4)) DIR_TYPE_C2S s4 = (l5, s5)" by (metis surj_pair)
  from fifo_wait_quiet[OF w5] obtain m5 where m5: "s5 = s4\<lparr>hw := m5\<rparr>" "moves 0 (hw s4) m5" by blast
  have S5: "Dma s5 = Dma s3" "static s5 = static s3" "pool s5 = pool s3" "usr s5 = (usr s3)\<lparr>handle0 := Some t\<rparr>"
    by (simp_all add: m5 s4_def)
  have "moves 0 (hw s3) (hw s4)" by (simp add: s4_def moves_def)
  then have M5: "moves 0 (hw s) (hw s5)" using M2 R3 m5 by (auto simp: moves_def)
  have x5: "Dma s5 x = Dma s x" "static s5 = static s" using R3 ne S5 S2 by simp_all
  have "can_serve s5 x True" "DriverState s5 = INITIALIZED" "raw_inv (usr s5)" "pool_ok s5" "good_alloc s5" "handle2 (usr s5) = None"
    using L can_serve_cong[OF x5, of True] staticD(1)[OF x5(2)] pool_ok_pool[OF S5(3)] good_alloc_static[OF x5(2)] R3 U3
    by (simp_all add: S5)
  from register_rx[OF this(1,2) lt(2) this(3-6)] obtain s6 where
    r6: "DmaRegister (int x) MYBAR (rx_ufuncs (tx_ufuncs u)) BUFSIZE s5 = Returned (Some x, s6)" "registered x (rx_ufuncs (tx_ufuncs u)) s5 s6" by blast
  note R6 = r6(2)[unfolded registered_def]
  have U6: "handle0 (usr s6) = Some t" "RawMaxPktSize (usr s6) = RawMaxPktSize (usr s)"
     "raw_DriverState (usr s6) = REGISTERED" "etx (usr s6) = t" "erx (usr s6) = x" "raw_inv (usr s6)" "tx_held (usr s6) = 0" "rx_held (usr s6) = 0"
    using raw_staticI[of "usr s6" "usr s5"] R6 R3 U3 by (simp_all add: S5 S2 L)
  define s' where "s' = raw_reschedule (2 * HZ (with_usr (\<lambda>r. r\<lparr>handle2 := Some x\<rparr>) s6)) (with_usr (\<lambda>r. r\<lparr>handle2 := Some x\<rparr>) s6)"
  have F: "Dma s' = Dma s6" "static s' = static s6" "pool s' = pool s6" "hw s' = hw s6" "ring_of s' = ring_of s6" "eng_kind s' = eng_kind s6"
    "\<exists>tm. usr s' = (usr s6)\<lparr>handle2 := Some x, raw_timer := tm\<rparr>"
    by (simp_all add: s'_def raw_reschedule_def) blast
  have E: "ENGINE_TX (usr s2) = int t" "ENGINE_RX (usr s5) = int x"
    using etx_erx(4)[of "usr s2"] etx_erx(5)[of "usr s5"] U3 by (simp_all add: S2 S5 t_def)
  have run: "raw_register u s = Returned s'"
    unfolding raw_register_def Let_def
    by (simp only: s1_def[symmetric] w2 prod.case E r3(1) outcome.case option.distinct if_False s4_def[symmetric] w5 r6(1) s'_def[symmetric])
  have st6: "static s6 = static s" using R6 x5(2) by simp
  have ring: "ring_of s6 t = ring_of s3 t" "Dma s6 t = Dma s3 t" using R6 S5 ne by (simp_all add: ring_of_def)
  have kd: "eng_kind s6 = eng_kind s" using R6 R3 by (simp add: eng_kind_def fun_eq_iff S5 S2)
  have "in_service s6 t 0"
  proof (rule service_start)
    show "idle s6 t" using R3 by (simp add: idle_def ring)
    show "IsRxChannel (ring_of s6 t) \<noteq> 0 \<longleftrightarrow> eng_kind s6 t AND DMA_ENG_DIRECTION_MASK = DMA_ENG_C2S"
      using R3 L(10) unfolding ring kd by (simp add: can_serve_def ring_of_def S2)
  qed (use R3 L(10) staticD(2)[OF st6, of t] in \<open>simp_all add: ring can_serve_def\<close>)
  moreover have "in_service s6 x 0"
  proof (rule service_start)
    show "IsRxChannel (ring_of s6 x) \<noteq> 0 \<longleftrightarrow> eng_kind s6 x AND DMA_ENG_DIRECTION_MASK = DMA_ENG_C2S"
      using R6 L(11) unfolding kd by (simp add: can_serve_def ring_of_def x5)
  qed (use R6 L(11) staticD(2)[OF st6, of x] in \<open>simp_all add: can_serve_def\<close>)
  moreover have "in_service s' i h = in_service s6 i h" for i h
    using staticD(2)[OF F(2), of i] by (simp add: in_service_def idle_def F)
  moreover have "\<forall>i. i \<noteq> t \<and> i \<noteq> x \<and> engine_present s' i \<longrightarrow> EngineState (Dma s' i) \<noteq> USER_ASSIGNED"
    using R6 R3 L(12) staticD(2)[OF F(2)] staticD(2)[OF st6] by (simp add: F S5 S2)
  moreover have "pending_ok s'"
  proof -
    have "PendingMask s' = PendingMask s6" by (simp add: s'_def raw_reschedule_def with_usr_def)
    also have "\<dots> = PendingMask s5" using R6 auxD(1) by blast
    also have "\<dots> = PendingMask s3" by (simp add: m5 s4_def with_usr_def)
    also have "\<dots> = PendingMask s2" using R3 auxD(1) by blast
    also have "\<dots> = PendingMask s" by (simp add: m2 s1_def raw_set_state_def with_usr_def)
    finally show ?thesis using L(13) staticD(2)[OF F(2)] staticD(2)[OF st6] by (simp add: pending_ok_def)
  qed
  moreover have pg: "pages (usr s') = pages (usr s)" using F(7) R6 R3 by (auto simp: S5 S2)
  moreover have "IsRxChannel (ring_of s' t) = 0" "IsRxChannel (ring_of s' x) \<noteq> 0"
    using R6 R3 L(10,11) unfolding F ring by (simp_all add: can_serve_def ring_of_def x5 S2)
  moreover have "user (Dma s' t) = tx_ufuncs u" "user (Dma s' x) = rx_ufuncs (tx_ufuncs u)" using R3 R6 by (simp_all add: F ring)
  moreover have "pool_ok s'" "DriverState s' = INITIALIZED"
    using R6 pool_ok_pool[OF F(3)] staticD(1)[OF st6] staticD(1)[OF F(2)] L(1) by simp_all
  ultimately have "running s'" using F(7) U6 L(6,7) unfolding running_def Let_def by auto
  moreover have "balanced (\<lambda>l. lock_depth l (evs (hw s))) (map_count (evs (hw s))) (pages (usr s)) s'"
    using F(7) U6 M5 R6 pg by (auto simp: balanced_def F(4) moves_def)
  moreover have "etx (usr s') = t" "erx (usr s') = x" using F(7) U6 by auto
  moreover have "\<forall>e\<in>{t, x}. ring_groups (ring_of s' e) = \<lparr>gpost = [], ghw = [], gpre = [], gfree = [0..<4000]\<rparr>"
    using R3 R6 by (simp add: F ring)
  moreover have "tx_held (usr s') = 0" "rx_held (usr s') = 0" using F(7) U6 by auto
  ultimately show ?thesis using run unfolding t_def x_def sys_inv_def by blast
qed

lemma poll_registers: "loaded s \<Longrightarrow> raw_poll_routine u s = raw_register u s"
  by (simp add: raw_poll_routine_def loaded_def Let_def)

section \<open>Unloading\<close>

lemma DmaUnregister_kind: "eng_kind (snd (DmaUnregister h s)) = eng_kind s"
proof -
  have free_kind: "eng_kind (descriptor_free e t) = eng_kind t" for e t
  proof -
    have q: "eng_kind (free_queued e n p u) = eng_kind u" for n p u
    proof -
      obtain pp v where d: "dq_pool u = (pp, v)" by (metis surj_pair)
      have "eng_kind v = eng_kind u" using kind_frame(9)[of u] d by simp
      then show ?thesis by (simp add: free_queued_def d Let_def split: option.split prod.split)
    qed
    show ?thesis by (simp add: descriptor_free_def Let_def q split: prod.split)
  qed
  have et: "EngType (Dma (descriptor_free e t) i) = EngType (Dma t i)" for e t i
    using fun_cong[OF free_kind[of e t], of i] by (simp add: eng_kind_def)
  have rs: "EngType E = EngType (Dma t e)" if "Dma_Reset ((Dma t e)\<lparr>EngineState := st\<rparr>) m = (E, m')" for t e st m E m'
    using Dma_Reset_spec[OF that] by simp
  show ?thesis
    by (auto simp: DmaUnregister_def Let_def free_kind kind_set_eng rs split: option.split prod.split) (simp_all add: et rs fun_eq_iff eng_kind_def)
qed

text \<open>What unregistering an engine in service means, for either engine.\<close>

definition unregistered :: "nat \<Rightarrow> raw drv \<Rightarrow> raw drv \<Rightarrow> bool" where
  "unregistered e s s' \<longleftrightarrow> pool_ok s' \<and> raw_inv (usr s') \<and> raw_static (usr s') = raw_static (usr s) \<and> pages (usr s') = pages (usr s)
     \<and> EngineState (Dma s' e) = INITIALIZED \<and> (\<forall>i. i \<noteq> e \<longrightarrow> Dma s' i = Dma s i) \<and> static s' = static s
     \<and> eng_kind s' = eng_kind s \<and> (IsRxChannel (ring_of s' e) \<noteq> 0 \<longleftrightarrow> IsRxChannel (ring_of s e) \<noteq> 0)
     \<and> ghw (ring_groups (ring_of s' e)) = [] \<and> map_count (evs (hw s')) = map_count (evs (hw s)) - int (unat (HwCnt (ring_of s e)))
     \<and> (\<forall>l. lock_depth l (evs (hw s')) = lock_depth l (evs (hw s)))"

lemma in_service_count: "in_service s e h \<Longrightarrow> HwCnt (ring_of s e) \<le> of_nat DMA_BD_CNT"
proof -
  assume a: "in_service s e h"
  then have "unat (HwCnt (ring_of s e)) + unat (FreeCnt (ring_of s e)) = ring_n (ring_of s e)"
    using ring_invD(4)[of "ring_of s e"] by (simp add: in_service_def idle_def)
  then have "unat (HwCnt (ring_of s e)) \<le> DMA_BD_CNT" using a by (simp add: in_service_def idle_def)
  moreover have "unat (of_nat DMA_BD_CNT :: u32) = DMA_BD_CNT" by (simp add: hwc)
  ultimately show ?thesis by (simp add: word_le_nat_alt)
qed

lemma unregister_tx:
  assumes sv: "in_service s e (tx_held (usr s))" and st: "DriverState s = INITIALIZED" "e < 64" "raw_inv (usr s)" "pool_ok s"
    "tx_bound (usr s) e" "IsRxChannel (ring_of s e) = 0" "\<exists>u. user (Dma s e) = tx_ufuncs u"
  shows "\<exists>s'. DmaUnregister (Some e) s = (0, s') \<and> unregistered e s s' \<and> tx_held (usr s') = 0 \<and> rx_held (usr s') = rx_held (usr s)"
proof -
  define f where "f = (raw_static (usr s), RxBufs (usr s), TotalNum (TxBufs (usr s)), origVA (TxBufs (usr s)))"
  have S: "EngineState (Dma s e) = USER_ASSIGNED" "engine_present s e" "idle s e" "tx_held (usr s) = unat (HwCnt (ring_of s e))"
    "IsRxChannel (ring_of s e) \<noteq> 0 \<longleftrightarrow> EngType (Dma s e) AND DMA_ENG_DIRECTION_MASK = DMA_ENG_C2S"
    using sv by (simp_all add: in_service_def eng_kind_def)
  have srv: "tx.served f s e" using st by (auto simp: tx.served_def tx_inv_def f_def tx_ufuncs_def)
  obtain s' where u: "DmaUnregister (Some e) s = (0, s')"
    "ring_groups (ring_of s' e) = \<lparr>gpost = [], ghw = [], gpre = [], gfree = gfree (ring_groups (ring_of s e)) @ ghw (ring_groups (ring_of s e))\<rparr>"
    "moves (- int (unat (HwCnt (ring_of s e)))) (hw s) (hw s')" "tx.available f s' e" "\<forall>i. i \<noteq> e \<longrightarrow> Dma s' i = Dma s i"
    "tx.gave e (unat (HwCnt (ring_of s e))) s s'" "static s' = static s"
    using tx.unregister_spec[OF st(1) S(1) st(2) S(2,5) srv S(3) st(4) in_service_count[OF sv]] by auto
  have k: "eng_kind s' = eng_kind s" using DmaUnregister_kind[of "Some e" s] u(1) by simp
  have "IsRxChannel (ring_of s' e) \<noteq> 0 \<longleftrightarrow> eng_kind s' e AND DMA_ENG_DIRECTION_MASK = DMA_ENG_C2S"
    using u(4) by (simp add: tx.available_def eng_kind_def)
  then have rx: "IsRxChannel (ring_of s' e) \<noteq> 0 \<longleftrightarrow> IsRxChannel (ring_of s e) \<noteq> 0" using S(5) unfolding k by (simp add: eng_kind_def)
  have "tx_held (usr s') = 0" using u(6) st(5) S(4) by (simp add: tx.gave_def)
  moreover have "rx_held (usr s') = rx_held (usr s)" using u(4) by (auto simp: tx.available_def tx_inv_def f_def rx_held_def)
  moreover have "unregistered e s s'" using u k rx
    by (auto simp: unregistered_def tx.available_def tx_inv_def f_def moves_def intro!: pages_cong)
  ultimately show ?thesis using u(1) by blast
qed

lemma unregister_rx:
  assumes sv: "in_service s e (rx_held (usr s))" and st: "DriverState s = INITIALIZED" "e < 64" "raw_inv (usr s)" "pool_ok s"
    "rx_bound (usr s) e" "IsRxChannel (ring_of s e) \<noteq> 0" "\<exists>u. user (Dma s e) = rx_ufuncs u"
  shows "\<exists>s'. DmaUnregister (Some e) s = (0, s') \<and> unregistered e s s' \<and> rx_held (usr s') = 0 \<and> tx_held (usr s') = tx_held (usr s)"
proof -
  define f where "f = (raw_static (usr s), TxBufs (usr s), TotalNum (RxBufs (usr s)), origVA (RxBufs (usr s)))"
  have S: "EngineState (Dma s e) = USER_ASSIGNED" "engine_present s e" "idle s e" "rx_held (usr s) = unat (HwCnt (ring_of s e))"
    "IsRxChannel (ring_of s e) \<noteq> 0 \<longleftrightarrow> EngType (Dma s e) AND DMA_ENG_DIRECTION_MASK = DMA_ENG_C2S"
    using sv by (simp_all add: in_service_def eng_kind_def)
  have srv: "rx.served f s e" using st by (auto simp: rx.served_def rx_inv_def f_def rx_ufuncs_def)
  obtain s' where u: "DmaUnregister (Some e) s = (0, s')"
    "ring_groups (ring_of s' e) = \<lparr>gpost = [], ghw = [], gpre = [], gfree = gfree (ring_groups (ring_of s e)) @ ghw (ring_groups (ring_of s e))\<rparr>"
    "moves (- int (unat (HwCnt (ring_of s e)))) (hw s) (hw s')" "rx.available f s' e" "\<forall>i. i \<noteq> e \<longrightarrow> Dma s' i = Dma s i"
    "rx.gave e (unat (HwCnt (ring_of s e))) s s'" "static s' = static s"
    using rx.unregister_spec[OF st(1) S(1) st(2) S(2,5) srv S(3) st(4) in_service_count[OF sv]] by auto
  have k: "eng_kind s' = eng_kind s" using DmaUnregister_kind[of "Some e" s] u(1) by simp
  have "IsRxChannel (ring_of s' e) \<noteq> 0 \<longleftrightarrow> eng_kind s' e AND DMA_ENG_DIRECTION_MASK = DMA_ENG_C2S"
    using u(4) by (simp add: rx.available_def eng_kind_def)
  then have rx: "IsRxChannel (ring_of s' e) \<noteq> 0 \<longleftrightarrow> IsRxChannel (ring_of s e) \<noteq> 0" using S(5) unfolding k by (simp add: eng_kind_def)
  have "rx_held (usr s') = 0" using u(6) st(5) S(4) by (simp add: rx.gave_def)
  moreover have "tx_held (usr s') = tx_held (usr s)" using u(4) by (auto simp: rx.available_def rx_inv_def f_def tx_held_def)
  moreover have "unregistered e s s'" using u k rx
    by (auto simp: unregistered_def rx.available_def rx_inv_def f_def moves_def intro!: pages_cong)
  ultimately show ?thesis using u(1) by blast
qed

lemma free_pages_evs:
  "i + k \<le> length va \<Longrightarrow> evs (free_pages k i va m) = map FreePage (rev (take k (drop i va))) @ evs m"
proof (induction k arbitrary: i m)
  case (Suc k)
  then have "take (Suc k) (drop i va) = va ! i # take k (drop (Suc i) va)" by (simp add: Cons_nth_drop_Suc[symmetric])
  then show ?case using Suc by simp
qed simp

lemma map_lock_pages [simp]: "map_count (map FreePage vs @ es) = map_count es" "lock_depth l (map FreePage vs @ es) = lock_depth l es"
  by (induction vs) simp_all

lemma in_service_hw [simp]: "in_service (on_hw f s) e h = in_service s e h" "in_service (s\<lparr>hw := m\<rparr>) e h = in_service s e h"
  "in_service (with_usr ff s) e h = in_service s e h"
  by (simp_all add: in_service_def idle_def engine_present_def on_hw_def with_usr_def ring_of_def eng_kind_def)

lemma tx_rx_bound_timer [simp]: "tx_bound (r\<lparr>raw_timer := tm\<rparr>) e = tx_bound r e" "rx_bound (r\<lparr>raw_timer := tm\<rparr>) e = rx_bound r e"
  by (simp_all add: tx_bound_def rx_bound_def)

text \<open>
  Unloading from any state of the running system: when the pages are freed no buffer is with the
  hardware and no mapping is left, each page is freed exactly once, the locks are as before, and
  both engines can be registered again.
\<close>

lemma cleanup_spec:
  assumes inv: "sys_inv d c g s"
  defines "s' \<equiv> rawdata_cleanup s"
  shows "\<exists>es. evs (hw s') = UnlockEv RawLock # map FreePage (rev (fst g @ snd g)) @ es \<and> map_count es = c
    \<and> (\<forall>l. lock_depth l (evs (hw s')) = d l) \<and> tx_held (usr s') = 0 \<and> rx_held (usr s') = 0 \<and> raw_timer (usr s') = None
    \<and> can_serve s' (etx (usr s)) False \<and> can_serve s' (erx (usr s)) True \<and> pool_ok s' \<and> DriverState s' = INITIALIZED
    \<and> raw_inv (usr s')"
proof -
  define t where "t = etx (usr s)"
  define x where "x = erx (usr s)"
  have ne: "t \<noteq> x" and lt: "t < 64" "x < 64" using etx_erx[of "usr s"] by (simp_all add: t_def x_def)
  have I: "in_service s t (tx_held (usr s))" "in_service s x (rx_held (usr s))" "DriverState s = INITIALIZED" "raw_inv (usr s)" "pool_ok s"
    "tx_bound (usr s) t" "rx_bound (usr s) x" "IsRxChannel (ring_of s t) = 0" "IsRxChannel (ring_of s x) \<noteq> 0"
    "\<exists>u. user (Dma s t) = tx_ufuncs u" "\<exists>u. user (Dma s x) = rx_ufuncs u" "handle0 (usr s) = Some t" "handle2 (usr s) = Some x"
    using inv by (simp_all add: sys_inv_def running_def Let_def t_def x_def tx_bound_def rx_bound_def)
  have B: "\<And>l. lock_depth l (evs (hw s)) = d l" "pages (usr s) = g" "map_count (evs (hw s)) = c + int (tx_held (usr s)) + int (rx_held (usr s))"
    using inv by (simp_all add: sys_inv_def balanced_def)
  define r where "r = (usr s)\<lparr>raw_timer := None\<rparr>"
  define s1 where "s1 = on_hw (XIo_Out32 (TXbarbase r + RX_CONFIG_ADDRESS r) 0) (on_hw (XIo_Out32 (TXbarbase r + TX_CONFIG_ADDRESS r) 0)
    (with_usr (\<lambda>r. r\<lparr>raw_timer := None\<rparr>) s))"
  obtain l2 s2 where w2: "DmaFifoEmptyWait (MYHANDLE (usr s1)) DIR_TYPE_S2C s1 = (l2, s2)" by (metis surj_pair)
  from fifo_wait_quiet[OF w2] obtain m2 where m2: "s2 = s1\<lparr>hw := m2\<rparr>" "moves 0 (hw s1) m2" by blast
  have S2: "usr s2 = r" "Dma s2 = Dma s" "pool s2 = pool s" "DriverState s2 = DriverState s" "static s2 = static s" "ring_of s2 = ring_of s"
     "moves 0 (hw s) (hw s2)"
    using m2(2) by (simp_all add: m2(1) s1_def r_def moves_def)
  have in2: "in_service s2 i h = in_service s i h" for i h by (simp add: m2(1) s1_def)
  have r: "tx_held r = tx_held (usr s)" "rx_held r = rx_held (usr s)" "raw_inv r = raw_inv (usr s)" "pages r = pages (usr s)"
    "handle0 r = handle0 (usr s)" "handle2 r = handle2 (usr s)" "tx_bound r = tx_bound (usr s)" "rx_bound r = rx_bound (usr s)"
    by (simp_all add: r_def tx_bound_def rx_bound_def fun_eq_iff)
  have "in_service s2 t (tx_held (usr s2))" "DriverState s2 = INITIALIZED" "raw_inv (usr s2)" "pool_ok s2" "tx_bound (usr s2) t"
    "IsRxChannel (ring_of s2 t) = 0" "\<exists>u. user (Dma s2 t) = tx_ufuncs u"
    using I pool_ok_pool[OF S2(3)] by (simp_all add: S2 in2 r)
  from unregister_tx[OF this(1,2) lt(1) this(3-7)] obtain s3 where
    u3: "DmaUnregister (Some t) s2 = (0, s3)" "unregistered t s2 s3" "tx_held (usr s3) = 0" "rx_held (usr s3) = rx_held r" by (auto simp: S2)
  note R3 = u3(2)[unfolded unregistered_def]
  have st3: "raw_static (usr s3) = raw_static r" using R3 by (simp add: S2)
  obtain l4 s4 where w4: "DmaFifoEmptyWait (MYHANDLE (usr s3)) DIR_TYPE_C2S s3 = (l4, s4)" by (metis surj_pair)
  from fifo_wait_quiet[OF w4] obtain m4 where m4: "s4 = s3\<lparr>hw := m4\<rparr>" "moves 0 (hw s3) m4" by blast
  have D4: "Dma s4 x = Dma s x" "ring_of s4 x = ring_of s x" using R3 ne by (simp_all add: m4 S2 ring_of_def)
  have stat4: "static s4 = static s" using R3 by (simp add: m4 S2)
  have "in_service s4 x (rx_held (usr s4))" using in_service_other[OF I(2) D4(1) stat4] by (simp add: m4 u3 r)
  moreover have "DriverState s4 = INITIALIZED" using staticD(1)[OF stat4] I(3) by simp
  moreover have "raw_inv (usr s4)" using R3 by (simp add: m4)
  moreover have "pool_ok s4" using R3 pool_ok_pool[of s4 s3] by (simp add: m4)
  moreover have "rx_bound (usr s4) x" using I(7) raw_staticI[OF st3] r(8) by (simp add: m4 rx_bound_def r_def)
  moreover have "IsRxChannel (ring_of s4 x) \<noteq> 0" "\<exists>u. user (Dma s4 x) = rx_ufuncs u" using I(9,11) by (simp_all add: D4)
  ultimately obtain s5 where
    u5: "DmaUnregister (Some x) s4 = (0, s5)" "unregistered x s4 s5" "rx_held (usr s5) = 0" "tx_held (usr s5) = tx_held (usr s4)"
    using unregister_rx[OF _ _ lt(2)] by blast
  note R5 = u5(2)[unfolded unregistered_def]
  have h: "handle0 (usr s2) = Some t" "handle2 (usr s4) = Some x"
    using I(12,13) raw_staticI[OF st3] by (simp_all add: S2 r m4)
  define s6 where "s6 = on_hw (spin_lock RawLock) (on_hw (PrintSummary (usr s5)) s5)"
  define T where "T = TxBufs (usr s5)"
  define X where "X = RxBufs (usr s5)"
  have fin: "s' = on_hw (spin_unlock RawLock) (on_hw (free_pages (nat (TotalNum X)) 0 (origVA X))
      (on_hw (free_pages (nat (TotalNum T)) 0 (origVA T)) s6))"
    unfolding s'_def rawdata_cleanup_def Let_def
    by (simp add: r_def[symmetric] s1_def[symmetric] w2 h u3(1) w4 u5(1) s6_def T_def X_def)
  have pg: "pages (usr s5) = g" using R5 R3 B(2) by (simp add: m4 S2 r)
  have inv5: "buf_inv T" "buf_inv X" using R5 by (simp_all add: raw_inv_def T_def X_def)
  have len: "nat (TotalNum X) \<le> NUM_BUFS" "nat (TotalNum T) \<le> NUM_BUFS" using inv5 by (simp_all add: buf_inv_def nat_le_iff)
  have e: "evs (hw s') = UnlockEv RawLock # map FreePage (rev (fst g @ snd g)) @ evs (hw s6)"
    using inv5 len free_pages_evs[of 0 "nat (TotalNum X)" "origVA X"] free_pages_evs[of 0 "nat (TotalNum T)" "origVA T"] pg
    by (simp add: fin spin_unlock_def buf_inv_def pages_def T_def[symmetric] X_def[symmetric] prod_eq_iff)
  have mv6: "map_count (evs (hw s6)) = map_count (evs (hw s5))" "lock_depth l (evs (hw s6)) = lock_depth l (evs (hw s5)) + (if l = RawLock then 1 else 0)" for l
    by (simp_all add: s6_def PrintSummary_def XIo_In32_def Let_def)
  have tot: "map_count (evs (hw s6)) = c"
    using R5 R3 m4(2) S2(7) B(3) I(1,2) unfolding mv6 D4 by (simp add: moves_def in_service_def S2 m4(1))
  have lk: "lock_depth l (evs (hw s')) = d l" for l
    using R5 R3 m4(2) S2(7) B(1)[of l] mv6(2)[of l] unfolding e by (cases "l = RawLock") (simp_all add: moves_def m4(1))
  have f: "Dma s' = Dma s5" "usr s' = usr s5" "pool s' = pool s5" "static s' = static s5" "ring_of s' = ring_of s5"
    by (simp_all add: fin s6_def)
  have k5: "eng_kind s5 = eng_kind s" using R5 R3 by (simp add: m4 eng_kind_def fun_eq_iff S2)
  have ty: "EngType (Dma s5 i) = EngType (Dma s i)" for i using fun_cong[OF k5, of i] by (simp add: eng_kind_def)
  have st': "static s' = static s" using R5 f(4) stat4 by simp
  have c1: "can_serve s' x True"
    using R5 I(2,9) f staticD(2)[OF st', of x] D4 by (simp add: can_serve_def in_service_def eng_kind_def ty)
  have "Dma s5 t = Dma s3 t" using R5 ne by (simp add: m4)
  then have c2: "can_serve s' t False"
    using R3 I(1,8) f staticD(2)[OF st', of t] ty[of t] by (simp add: can_serve_def in_service_def eng_kind_def ring_of_def S2)
  have tm: "raw_timer (usr s5) = None" using R5 R3 by (simp add: raw_static_def m4 S2 r_def)
  show ?thesis using e tot lk u5(3,4) u3(3) tm c1 c2 R5 pool_ok_pool[OF f(3)] staticD(1)[OF st'] I(3)
    by (auto simp: f m4 t_def[symmetric] x_def[symmetric])
qed

section \<open>Loading on a probed board\<close>

text \<open>
  Loading the raw data driver on a probed board with the two engines it wants. The state of the
  module is the one its static initialisers give.
\<close>

lemma load_ready:
  assumes pb: "probed s" and al: "good_alloc s" and pend: "pending_ok s"
    and r: "usr s = raw_zero x0 bm"
    and eng: "engine_present s (etx (usr s))" "engine_present s (erx (usr s))"
      "eng_kind s (etx (usr s)) AND DMA_ENG_DIRECTION_MASK \<noteq> DMA_ENG_C2S" "eng_kind s (erx (usr s)) AND DMA_ENG_DIRECTION_MASK = DMA_ENG_C2S"
  shows "loaded (snd (rawdata_init tp rp s)) \<and> hw (snd (rawdata_init tp rp s)) = hw s"
proof -
  obtain tb where tb: "InitBuffers tp Buffer_zero = tb" "buf_inv tb" "buf_used tb = []"
    using InitBuffers_spec[of Buffer_zero tp] by (auto simp: Buffer_zero_def)
  obtain rb where rb: "InitBuffers rp Buffer_zero = rb" "buf_inv rb" "buf_used rb = []"
    using InitBuffers_spec[of Buffer_zero rp] by (auto simp: Buffer_zero_def)
  define s' where "s' = snd (rawdata_init tp rp s)"
  have u: "\<exists>tm. usr s' = (raw_zero x0 bm)\<lparr>raw_DriverState := RAW_INITIALIZED, TxBufs := tb, RxBufs := rb, raw_timer := tm\<rparr>"
    using r tb(1) rb(1) by (simp add: s'_def rawdata_init_def raw_reschedule_def Let_def raw_zero_def)
  have f: "Dma s' = Dma s" "static s' = static s" "pool s' = pool s" "hw s' = hw s" "PendingMask s' = PendingMask s"
    by (simp_all add: s'_def rawdata_init_def raw_reschedule_def Let_def with_usr_def)
  have e: "etx (usr s') = etx (usr s)" "erx (usr s') = erx (usr s)"
    using u r by (auto simp: etx_def erx_def ENGINE_TX_def ENGINE_RX_def raw_zero_def)
  have pr: "engine_present s' i = engine_present s i" for i using staticD(2)[OF f(2)] .
  have en: "engine_present s i \<Longrightarrow> EngineState (Dma s i) = INITIALIZED
     \<and> (IsRxChannel (ring_of s i) \<noteq> 0 \<longleftrightarrow> eng_kind s i AND DMA_ENG_DIRECTION_MASK = DMA_ENG_C2S)" for i
    using pb by (simp add: probed_def enumerated_def)
  have sv: "can_serve s' (etx (usr s)) False" "can_serve s' (erx (usr s)) True"
    using en[OF eng(1)] en[OF eng(2)] eng(1,2) eng(3,4)
    by (simp_all add: can_serve_def ring_of_def eng_kind_def f(1) pr)
  have "tx_held (usr s') = 0" "rx_held (usr s') = 0"
    using u tb(3) rb(3) buf_used_length[of tb] buf_used_length[of rb] by (auto simp: tx_held_def rx_held_def)
  moreover have "raw_inv (usr s')" using u tb(2) rb(2) by (auto simp: raw_inv_def raw_zero_def)
  moreover have "raw_DriverState (usr s') < POLLING" "handle2 (usr s') = None" "MINPKTSIZE \<le> RawMaxPktSize (usr s')" "RawMaxPktSize (usr s') \<le> MAXPKTSIZE"
    using u by (auto simp: raw_zero_def hwc)
  moreover have "EngineState (Dma s' i) \<noteq> USER_ASSIGNED" if "engine_present s' i" for i
    using en[of i] that unfolding pr f(1) by (simp add: hwc)
  moreover have "pending_ok s'" using pend by (simp add: pending_ok_def pr f(5))
  moreover have "pool_ok s'" "DriverState s' = INITIALIZED" "good_alloc s'"
    using pb al pool_ok_pool[OF f(3)] staticD(1)[OF f(2)] good_alloc_static[OF f(2)] by (simp_all add: probed_def)
  ultimately have "loaded s'" using sv unfolding loaded_def Let_def e by blast
  then show ?thesis using f(4) by (simp add: s'_def)
qed

end
