(* ===== verification/SysProps.thy ===== *)
theory SysProps
  imports SystemLife
begin

text \<open>
  Properties of the base driver and the raw data driver working together (claims C16 to C18), with
  a sample board on which they are applied.
\<close>

section \<open>A sample board\<close>

text \<open>
  Engine 0 sends, engine 32 receives. The kernel's allocator gives the first descriptor area and
  then another one; the pages of the two buffer pools are apart.
\<close>

definition sample_engine :: "nat \<Rightarrow> raw Dma_Engine" where
  "sample_engine i = Dma_Engine_zero\<lparr>EngineState := INITIALIZED, EngType := (if i = 32 then DMA_ENG_C2S else 0),
     BdRing := Dma_BdRing_zero\<lparr>RunState := XST_DMA_SG_IS_STOPPED, ChanBase := of_nat i * 0x100,
       IsRxChannel := (if i = 32 then 1 else 0)\<rparr>\<rparr>"

definition sample_alloc :: "io_event list \<Rightarrow> u32 \<Rightarrow> (u32 \<times> u32) option" where
  "sample_alloc es n = (if es = [] then Some (0x100000, 0x500000) else Some (0x200000, 0x600000))"

definition sample_raw :: "(nat \<Rightarrow> u32) \<Rightarrow> (nat \<Rightarrow> u32) \<Rightarrow> raw" where
  "sample_raw tp rp = (raw_zero True (\<lambda>_. 0))\<lparr>raw_DriverState := RAW_INITIALIZED,
     TxBufs := InitBuffers tp Buffer_zero, RxBufs := InitBuffers rp Buffer_zero\<rparr>"

definition sample_drv :: "raw drv" where
  "sample_drv = \<lparr>hw = \<lparr>mem = (\<lambda>_. 0), evs = [], dev = (\<lambda>_ _. 0), dma_map = (\<lambda>va _. va)\<rparr>,
     usr = sample_raw (\<lambda>i. 0x4000000 + 4096 * of_nat i) (\<lambda>i. 0x8000000 + 4096 * of_nat i),
     TH_BH_ISR = False, pci_alloc = sample_alloc, jiffies = 0, HZ = 1000, DriverState = INITIALIZED, barMask = 1,
     baseVAddr = (\<lambda>_. 0x40000000), engineMask = push_bit 0 1 OR push_bit 32 1, Dma = sample_engine, userCount = 0,
     pool = init_pools \<lparr>pool_next = (\<lambda>_. None), pktPoolHead = None, pktPoolTail = None,
       pktArray = (\<lambda>_. replicate DMA_BD_CNT PktBuf_zero)\<rparr>,
     DStats = (\<lambda>_. \<lparr>statsArr = [], statsRead = 0, statsWrite = 0, statsNum = 0\<rparr>),
     SStats = (\<lambda>_. \<lparr>statsArr = [], statsRead = 0, statsWrite = 0, statsNum = 0\<rparr>),
     TStats = \<lparr>statsArr = [], statsRead = 0, statsWrite = 0, statsNum = 0\<rparr>, SWrate = (\<lambda>_. 0), UserOpen = 0,
     PendingMask = 0, LastIntr = (\<lambda>_. 0), DmaBH = False, poll_timer = None, stats_timer = None\<rparr>"

lemma sample_raw_ok:
  "raw_inv (sample_raw tp rp)" "tx_held (sample_raw tp rp) = 0" "rx_held (sample_raw tp rp) = 0"
proof -
  have z: "length (origVA Buffer_zero) = NUM_BUFS" by (simp add: Buffer_zero_def)
  obtain "buf_inv (InitBuffers tp Buffer_zero)" "buf_used (InitBuffers tp Buffer_zero) = []"
    "buf_inv (InitBuffers rp Buffer_zero)" "buf_used (InitBuffers rp Buffer_zero) = []"
    using InitBuffers_spec[OF z] by blast
  then show "raw_inv (sample_raw tp rp)" "tx_held (sample_raw tp rp) = 0" "rx_held (sample_raw tp rp) = 0"
    using buf_used_length[of "InitBuffers tp Buffer_zero"] buf_used_length[of "InitBuffers rp Buffer_zero"]
    by (simp_all add: raw_inv_def sample_raw_def raw_zero_def tx_held_def rx_held_def)
qed

lemma sample_loaded: "loaded sample_drv"
proof -
  have e: "etx (usr sample_drv) = 0" "erx (usr sample_drv) = 32"
    by (simp_all add: sample_drv_def sample_raw_def raw_zero_def etx_def erx_def ENGINE_TX_def ENGINE_RX_def)
  have "pool_ok sample_drv"
    using init_pools_rep[of "\<lparr>pool_next = (\<lambda>_. None), pktPoolHead = None, pktPoolTail = None,
       pktArray = (\<lambda>_. replicate DMA_BD_CNT PktBuf_zero)\<rparr>" "hw sample_drv"]
    unfolding pool_ok_def by (intro exI[of _ "[0..<MAX_POOL]"]) (simp add: sample_drv_def pool_arr_def init_pools_def MAX_POOL_def)
  moreover have "good_alloc sample_drv"
    by (auto simp: good_alloc_def sample_drv_def sample_alloc_def)
  moreover have "can_serve sample_drv 0 False" "can_serve sample_drv 32 True"
    by (simp_all add: can_serve_def engine_present_def sample_drv_def sample_engine_def ring_of_def eng_kind_def hwc)
  moreover have "\<forall>i. EngineState (Dma sample_drv i) \<noteq> USER_ASSIGNED" by (simp add: sample_drv_def sample_engine_def hwc)
  moreover have "pending_ok sample_drv" by (simp add: pending_ok_def sample_drv_def)
  moreover have "DriverState sample_drv = INITIALIZED" "raw_DriverState (usr sample_drv) < POLLING" "handle2 (usr sample_drv) = None"
     "MINPKTSIZE \<le> RawMaxPktSize (usr sample_drv)" "RawMaxPktSize (usr sample_drv) \<le> MAXPKTSIZE"
    by (simp_all add: sample_drv_def sample_raw_def raw_zero_def hwc)
  ultimately show ?thesis using sample_raw_ok by (simp add: loaded_def e) (simp add: sample_drv_def)
qed

lemma reachable_inv:
  assumes "loaded s0" "raw_poll_routine u s0 = Returned s1" "sys_reach s1 s"
  shows "sys_inv (\<lambda>l. lock_depth l (evs (hw s0))) (map_count (evs (hw s0))) (pages (usr s0)) s"
proof -
  obtain s1' where "raw_poll_routine u s0 = Returned s1'"
    "sys_inv (\<lambda>l. lock_depth l (evs (hw s0))) (map_count (evs (hw s0))) (pages (usr s0)) s1'"
    using register_both[OF assms(1), of u] unfolding poll_registers[OF assms(1)] by blast
  then show ?thesis using assms(2) reach_inv[OF assms(3)] by simp
qed

section \<open>The running system\<close>


lemma sample_reaches: "\<exists>s1. raw_poll_routine u sample_drv = Returned s1 \<and> sys_reach s1 (poll_routine s1)"
proof -
  obtain s1 where "raw_poll_routine u sample_drv = Returned s1"
    using register_both[OF sample_loaded, of u] unfolding poll_registers[OF sample_loaded] by blast
  moreover have "sys_reach s1 (poll_routine s1)" by (rule sys_reach.step[OF sys_reach.start sys_step.dma_timer])
  ultimately show ?thesis by blast
qed





section \<open>From the board to the running system\<close>


text \<open>A board whose engine 0 sends packets and whose engine 32 receives them, before the probe.\<close>

definition sample_env :: pci_env where
  "sample_env = \<lparr>enable_ret = 0, kmalloc_ok = True, regions_ret = 0, dma_mask_ret = 0,
     resource_len = (\<lambda>i. if i = 0 then 0x10000 else 0), resource_mem = (\<lambda>_. True), ioremap = (\<lambda>_. 0x40000000),
     chrdev_ret = 0, cdev_err = False, cdev_ret = 0, msi_ret = 0\<rparr>"

definition sample_cap :: "nat \<Rightarrow> u32" where
  "sample_cap i = (if i = 0 then 0x11 else if i = 32 then 0x13 else 0)"

definition sample_board :: "raw drv" where
  "sample_board = sample_drv\<lparr>usr := raw_zero True (\<lambda>_. 0), engineMask := 0, DriverState := 0,
     hw := (hw sample_drv)\<lparr>dev := (\<lambda>_ a. sample_cap (unat ((a - 0x40000000) div 0x100)))\<rparr>\<rparr>"

definition pci_none :: pci_st where
  "pci_none = \<lparr>pci_log = [], dmaData_set = False, xdmaCdev_set = False, MSIEnabled = False\<rparr>"

lemma sample_probe: "\<exists>s1 k1. xdma_probe sample_env (sample_board, pci_none) = (0, s1, k1)"
proof -
  have "fst (xdma_probe sample_env (sample_board, pci_none)) = 0"
    unfolding probe_succeeds_iff by (simp add: early_failure_def bar_ok_def sample_env_def)
  then show ?thesis by (metis prod.collapse)
qed

lemma sample_caps: "\<forall>i<64. \<forall>es. dev (hw sample_board) es (ioremap sample_env 0 + of_nat i * 0x100) = sample_cap i"
proof (intro allI impI)
  fix i :: nat and es assume "i < 64"
  then have "unat (of_nat i * 0x100 :: u32) = i * 256" by (simp add: unat_of_nat unat_word_ariths)
  then have "unat (of_nat i * 0x100 div 0x100 :: u32) = i" by (simp add: unat_div)
  then show "dev (hw sample_board) es (ioremap sample_env 0 + of_nat i * 0x100) = sample_cap i"
    by (simp add: sample_board_def sample_env_def)
qed


end
