(* ===== verification/DataProps.thy ===== *)
theory DataProps
  imports SysProps
begin

text \<open>
  Properties of the raw data driver (claims C19 to C22): its buffer pools, the packets it sends, the
  packets it is handed and the sizes of a test.
\<close>

section \<open>The buffer pools\<close>

text \<open>
  The abstract pool: the buffers handed out, oldest first, and the spare ones in the order in which
  they will be handed out. The code has an array, two indices and counters.
\<close>

fun window_step :: "window_op \<Rightarrow> u32 list \<times> u32 list \<Rightarrow> u32 list \<times> u32 list" where
  "window_step Alloc (us, ss) = (us @ take 1 ss, drop 1 ss)"
| "window_step (FreeUsed k) (us, ss) = (drop k us, ss @ take k us)"
| "window_step (FreeUnused k) (us, ss) = (take (length us - k) us, drop (length us - k) us @ ss)"

fun buf_step :: "window_op \<Rightarrow> Buffer \<Rightarrow> Buffer" where
  "buf_step Alloc b = snd (AllocBuf b)"
| "buf_step (FreeUsed k) b = FreeUsedBuf (int k) b"
| "buf_step (FreeUnused k) b = FreeUnusedBuf (int k) b"

definition window :: "Buffer \<Rightarrow> u32 list \<times> u32 list" where
  "window b = (buf_used b, buf_spare b)"

lemma AllocBuf_window:
  assumes "buf_inv b"
  shows "buf_inv (snd (AllocBuf b)) \<and> window (snd (AllocBuf b)) = window_step Alloc (window b)
    \<and> fst (AllocBuf b) = (case buf_spare b of [] \<Rightarrow> 0 | v # vs \<Rightarrow> v)"
proof (cases "buf_spare b")
  case Nil
  then obtain v where "AllocBuf b = (v, b)" "v = 0"
    using alloc_opt_AllocBuf[of b None b] bufs.alloc_none[OF assms] by (auto split: if_splits)
  then show ?thesis using assms Nil by (simp add: window_def)
next
  case (Cons v vs)
  from bufs.alloc_some[OF assms Cons] obtain b' where b': "alloc_opt b = (Some v, b')" "buf_inv b'"
    "buf_used b' = buf_used b @ [v]" "buf_spare b' = vs" by blast
  then have "AllocBuf b = (v, b')" using alloc_opt_AllocBuf[OF b'(1)] by (auto split: if_splits)
  then show ?thesis using b' Cons by (simp add: window_def)
qed

lemma buf_step_window:
  assumes "buf_inv b"
  shows "buf_inv (buf_step p b) \<and> window (buf_step p b) = window_step p (window b)"
  using assms bufs.free_used_law[OF assms] bufs.free_unused_law[OF assms] AllocBuf_window[OF assms]
  by (cases p) (auto simp: window_def FreeUsedBuf_def FreeUnusedBuf_def)

lemma buf_steps_window:
  assumes "buf_inv b"
  shows "buf_inv (fold buf_step ps b) \<and> window (fold buf_step ps b) = fold window_step ps (window b)"
  using assms by (induction ps arbitrary: b) (simp_all add: buf_step_window)

lemma first_nulls:
  assumes "\<forall>i<t. P i" "t < n \<longrightarrow> \<not> P t" "t \<le> n"
  shows "takeWhile P [0..<n] = [0..<t]"
proof -
  have "[0..<n] = [0..<t] @ [t..<n]" using assms(3) by (metis upt_add_eq_append le_add_diff_inverse zero_le)
  moreover have "takeWhile P [t..<n] = []" using assms(2) by (cases "t < n") (simp_all add: upt_rec[of t n])
  ultimately show ?thesis using assms(1) takeWhile_append2[of "[0..<t]" P "[t..<n]"] by simp
qed

text \<open>
  C19: A pool filled with the pages the kernel gave, up to its first refusal, behaves under every
  sequence of allocations and returns as the abstract pool: returning used buffers puts the oldest
  ones behind the spare ones, returning unused ones puts the newest ones back in front, and
  AllocBuf yields the first spare buffer, or NULL when there is none. The counters agree with
  the abstract pool.
\<close>

theorem buffer_pool_refines:
  assumes "length (origVA bptr) = NUM_BUFS"
  shows "let got = map page (takeWhile (\<lambda>i. page i \<noteq> 0) [0..<NUM_BUFS]);
             b = fold buf_step ps (InitBuffers page bptr); w = fold window_step ps ([], got)
         in (buf_used b, buf_spare b) = w
            \<and> fst (AllocBuf b) = (case snd w of [] \<Rightarrow> 0 | v # vs \<Rightarrow> v)
            \<and> AllocNum b = int (length (fst w)) \<and> TotalNum b - AllocNum b = int (length (snd w))"
proof -
  from InitBuffers_spec[OF assms, of page] obtain t where t: "t \<le> NUM_BUFS" "buf_inv (InitBuffers page bptr)"
    "buf_used (InitBuffers page bptr) = []" "buf_spare (InitBuffers page bptr) = map page [0..<t]"
    "\<forall>i<t. page i \<noteq> 0" "t < NUM_BUFS \<longrightarrow> page t = 0" by blast
  have g: "takeWhile (\<lambda>i. page i \<noteq> 0) [0..<NUM_BUFS] = [0..<t]" using t(1,5,6) by (intro first_nulls) auto
  define b where "b = fold buf_step ps (InitBuffers page bptr)"
  have b: "buf_inv b" "window b = fold window_step ps ([], map page [0..<t])"
    using buf_steps_window[OF t(2), of ps] t(3,4) by (simp_all add: b_def window_def)
  moreover have "AllocNum b = int (length (buf_used b))" "TotalNum b - AllocNum b = int (length (buf_spare b))"
    using b(1) by (auto simp: buf_used_def buf_spare_def buf_inv_def)
  ultimately show ?thesis using AllocBuf_window[OF b(1)]
    unfolding Let_def g b_def[symmetric] b(2)[symmetric] window_def by simp
qed

theorem buffer_pool_refines_witness:
  "fst (AllocBuf (fold buf_step [Alloc, Alloc, Alloc, FreeUsed 1, FreeUnused 1]
     (InitBuffers (\<lambda>i. if i < 3 then of_nat i + 100 else 0) Buffer_zero))) = 102"
proof -
  have "takeWhile (\<lambda>i. (if i < 3 then of_nat i + 100 else 0) \<noteq> (0 :: u32)) [0..<NUM_BUFS] = [0..<3]"
    by (rule first_nulls) (auto simp: NUM_BUFS_def less_Suc_eq numeral_3_eq_3)
  then show ?thesis
    using buffer_pool_refines[where bptr = Buffer_zero and page = "\<lambda>i. if i < 3 then of_nat i + 100 else 0"
      and ps = "[Alloc, Alloc, Alloc, FreeUsed 1, FreeUnused 1]"]
    by (simp add: Let_def Buffer_zero_def numeral_3_eq_3 upt_rec)
qed


section \<open>Sending\<close>

text \<open>
  C20: In a running system, a request for num packets queues only whole packets: the number of
  descriptors is a multiple of the buffers per packet, and the largest such that the packets could
  be built from the spare buffers and leave two descriptors free. Exactly the first spare buffers,
  in order, are handed to the hardware together with the first free descriptors, all others are
  given back, the sequence number advances by the packets sent, and the result is 1 exactly when
  something was built and all of it was sent.
\<close>

theorem transmit_whole_packets:
  assumes "loaded s0" "raw_poll_routine u s0 = Returned s1" "sys_reach s1 s" "num \<noteq> 0"
  shows "let r = usr s; t = etx r; b = TxBufs r; F = nfrags (sint (RawMaxPktSize r));
             p = min (nat num) (length (buf_spare b) div F);
             k = min (p * F) (unat (FreeCnt (ring_of s t)) - 2) div F * F;
             (res, s') = DmaSetupTransmit (handle0 r) num s;
             G = ring_groups (ring_of s t); b' = TxBufs (usr s')
         in 0 < F \<and> res = (if p \<noteq> 0 \<and> k = p * F then 1 else 0)
            \<and> ring_groups (ring_of s' t) = G\<lparr>ghw := ghw G @ take k (gfree G), gfree := drop k (gfree G)\<rparr>
            \<and> buf_used b' = buf_used b @ take k (buf_spare b) \<and> buf_spare b' = drop k (buf_spare b)
            \<and> TxSeqNo (usr s') = TxSeqNo r + of_nat (k div F) \<and> TxBufCnt (usr s') = TxBufCnt r + of_nat k
            \<and> map_count (evs (hw s')) = map_count (evs (hw s)) + int k"
proof -
  have run: "running s" using reachable_inv[OF assms(1-3)] by (simp add: sys_inv_def)
  define t where "t = etx (usr s)"
  have R: "raw_inv (usr s)" "tx_bound (usr s) t" "idle s t" "DriverState s = INITIALIZED"
    "EngineState (Dma s t) = USER_ASSIGNED" "IsRxChannel (ring_of s t) = 0" "handle0 (usr s) = Some t"
    using run by (simp_all add: running_def Let_def in_service_def tx_bound_def t_def)
  have sz: "0 < psize_of (usr s)" using run by (intro size_positive) (simp_all add: running_def Let_def)
  have F: "0 < nfrags (psize_of (usr s))" using nfrags_step[OF sz] by simp
  from DmaSetupTransmit_spec[OF R(1,2) sz assms(4) R(3-6)] obtain s' where s':
    "DmaSetupTransmit (Some t) num s =
      (if built (usr s) (nat num) \<noteq> 0 \<and> queued s t num = built (usr s) (nat num) * nfrags (psize_of (usr s)) then 1 else 0, s')"
    "tx_done t (queued s t num) s s'" by blast
  have b: "min (nat num) (length (buf_spare (TxBufs (usr s))) div nfrags (psize_of (usr s))) = built (usr s) (nat num)"
    by (simp only: built_def)
  have q: "min (built (usr s) (nat num) * nfrags (psize_of (usr s))) (unat (FreeCnt (ring_of s t)) - 2) div nfrags (psize_of (usr s))
      * nfrags (psize_of (usr s)) = queued s t num"
    by (simp only: queued_def Let_def)
  show ?thesis using F s'(2)
    unfolding Let_def t_def[symmetric] R(7) psize_of_def[symmetric] b q s'(1) prod.case
    by (simp only: tx_done_def Let_def moves_def simp_thms)
qed

theorem transmit_whole_packets_witness:
  "\<exists>s1 res s' k. raw_poll_routine UserPtrs_zero sample_drv = Returned s1
     \<and> DmaSetupTransmit (handle0 (usr s1)) 1 s1 = (res, s') \<and> res \<in> {0, 1}
     \<and> buf_spare (TxBufs (usr s')) = drop k (buf_spare (TxBufs (usr s1))) \<and> map_count (evs (hw s')) = map_count (evs (hw s1)) + int k"
proof -
  obtain s1 where s1: "raw_poll_routine UserPtrs_zero sample_drv = Returned s1"
    using sample_reaches[of UserPtrs_zero] by blast
  obtain res s' where r: "DmaSetupTransmit (handle0 (usr s1)) 1 s1 = (res, s')" by (metis surj_pair)
  have "(1 :: int) \<noteq> 0" by simp
  note T = transmit_whole_packets[OF sample_loaded s1 sys_reach.start this, unfolded Let_def r prod.case]
  have "res \<in> {0, 1}" using T[THEN conjunct2, THEN conjunct1] by simp
  then show ?thesis using s1 r T by blast
qed

section \<open>Receiving\<close>

definition completed :: "raw drv \<Rightarrow> nat list" where
  "completed s = hw_complete (ring_of s (erx (usr s))) (hw s) DMA_BD_CNT"

lemma rx_dry:
  assumes "rx.dry f e u" "rx_bound u e"
  shows "AllocNum (RxBufs u) = TotalNum (RxBufs u)"
proof -
  obtain va sz n pd u0 m va' m' where g: "rx_inv f u0" "0 < n" "myGetRxPkt e va sz n pd (u0, m) = (0, va', u, m')"
    using assms(1) unfolding rx.dry_def by blast
  have i: "buf_inv (RxBufs u0)" using g(1) by (simp add: rx_inv_def raw_inv_def)
  show ?thesis
  proof (cases rule: myGetRxPkt_cases[OF inv_raw(1)[OF g(1)] g(3)])
    case 1
    then show ?thesis using assms(2) by simp
  next
    case (2 vs b)
    have "vs = []" using 2(3) by simp
    with bufs.alloc_many[OF i, of "nat n"] 2(2) g(2) have b: "buf_spare (RxBufs u0) = []" "buf_inv b"
      "buf_spare b = drop (nat n) (buf_spare (RxBufs u0))" by simp_all
    then have "length (buf_spare b) = 0" by simp
    then have "TotalNum b \<le> AllocNum b" "AllocNum b \<le> TotalNum b" using b(2) by (auto simp: buf_spare_def buf_inv_def)
    then show ?thesis using 2(4) by simp
  qed
qed



section \<open>The sizes of a test\<close>

text \<open>
  C22: A request to start a test sets both size limits to the requested maximum, clamped between 64
  and 32768 bytes as an unsigned number (so a negative request gives the largest size), whatever
  minimum was requested; the hardware's size register is programmed with it, and every packet of
  the test consists of one to eight buffers.
\<close>

theorem test_sizes:
  assumes "raw_DriverState r = REGISTERED" "Some h = handle0 r \<or> Some h = handle2 r"
    and "TestMode us AND TEST_START \<noteq> 0" "TestMode us AND (ENABLE_PKTCHK OR ENABLE_PKTGEN OR ENABLE_LOOPBACK) \<noteq> 0"
  shows "let (k, r', m') = mySetState h us TX_privdata (r, m); v = max 64 (min 32768 (word_of_int (MaxPktSize us)))
    in k = 0 \<and> RawMaxPktSize r' = v \<and> RawMinPktSize r' = v \<and> nfrags (sint v) \<in> {1..8}
      \<and> WrReg (TXbarbase r + PKT_SIZE_ADDRESS r) v \<in> set (evs m')"
proof -
  define r1 where "r1 = set_testmode (r\<lparr>RawTestMode := TestMode us\<rparr>)"
  define v :: u32 where "v = max 64 (min 32768 (word_of_int (MaxPktSize us)))"
  have r1: "RawTestMode r1 = TestMode us" "TXbarbase r1 = TXbarbase r" "XRAWDATA0 r1 = XRAWDATA0 r"
    by (simp_all add: r1_def set_testmode_def Let_def)
  define m1 where "m1 = spin_lock RawLock m"
  obtain r2 m2 where st: "start_test (set_sizes us r1, m1) = (r2, m2)" by fastforce
  have sz: "set_sizes us r1 = r1\<lparr>RawMinPktSize := v, RawMaxPktSize := v\<rparr>"
    by (auto simp: set_sizes_eq v_def Let_def MINPKTSIZE_def MAXPKTSIZE_def PAGE_SIZE_def max_def min_def not_less)
  have r2: "RawMaxPktSize r2 = v \<and> RawMinPktSize r2 = v \<and> WrReg (TXbarbase r + PKT_SIZE_ADDRESS r) v \<in> set (evs m2)"
    using st unfolding sz by (auto simp: start_test_def Let_def r1 PKT_SIZE_ADDRESS_def split: if_splits)
  have run: "mySetState h us TX_privdata (r, m) = (0, r2, spin_unlock RawLock (PrintSummary r2 m2))"
    using assms by (auto simp: mySetState_def Let_def r1_def[symmetric] m1_def[symmetric] r1(1) st)
  have "64 \<le> v" "v \<le> 32768" by (simp_all add: v_def max_def)
  then have "64 \<le> unat v" "unat v \<le> 32768" by (simp_all add: word_le_nat_alt)
  moreover from this have "sint v = int (unat v)" by (intro sint_small) simp
  ultimately obtain n where "sint v = int n" "64 \<le> n" "n \<le> 32768" by metis
  then have "nfrags (sint v) \<in> {1..8}" by (simp add: nfrags_def BUFSIZE_def PAGE_SIZE_def) linarith
  then show ?thesis using r2 unfolding run v_def[symmetric] by (simp add: Let_def PrintSummary_def XIo_In32_def)
qed

theorem test_sizes_witness:
  "RawMaxPktSize (fst (snd (mySetState 0 \<lparr>LinkState = 0, Errors = 0, Buffers = 0, MinPktSize = 100, MaxPktSize = - 1, TestMode = 0x8100\<rparr> TX_privdata
     ((sample_raw (\<lambda>_. 0) (\<lambda>_. 0))\<lparr>raw_DriverState := REGISTERED, handle0 := Some 0\<rparr>, hw sample_drv)))) = 32768"
  using test_sizes[where r = "(sample_raw (\<lambda>_. 0) (\<lambda>_. 0))\<lparr>raw_DriverState := REGISTERED, handle0 := Some 0\<rparr>" and h = 0
      and us = "\<lparr>LinkState = 0, Errors = 0, Buffers = 0, MinPktSize = 100, MaxPktSize = - 1, TestMode = 0x8100\<rparr>" and m = "hw sample_drv"]
  by (simp add: Let_def case_prod_beta hwc)

end
