(* ===== verification/DmaProps.thy ===== *)
theory DmaProps
  imports SysProps
begin

text \<open>
  Properties of the base driver (claims C23 to C30): the transmit call, the life of a descriptor area,
  the bounded waits, the pool of packet arrays, interrupts and statistics.
\<close>

lemma sample_running:
  "\<exists>s1. raw_poll_routine UserPtrs_zero sample_drv = Returned s1 \<and> running s1 \<and> etx (usr s1) = 0 \<and> erx (usr s1) = 32
     \<and> (\<forall>e\<in>{0, 32}. ring_groups (ring_of s1 e) = \<lparr>gpost = [], ghw = [], gpre = [], gfree = [0..<4000]\<rparr>)"
proof -
  have e: "etx (usr sample_drv) = 0" "erx (usr sample_drv) = 32"
    by (simp_all add: sample_drv_def sample_raw_def raw_zero_def etx_def erx_def ENGINE_TX_def ENGINE_RX_def)
  from register_both[OF sample_loaded, of UserPtrs_zero] show ?thesis
    unfolding poll_registers[OF sample_loaded] e sys_inv_def by blast
qed

section \<open>The transmit call\<close>




section \<open>The life of a descriptor area\<close>



section \<open>Bounded waits\<close>

text \<open>
  C25: Whatever the hardware answers, DmaFifoEmptyWait ends after at most 101 reads of the status
  register and does nothing else; it reports a timeout exactly when all 101 answers, the last one
  included, lacked the bit of the queue asked for.
\<close>

theorem fifo_wait_bounded:
  "let (late, s') = DmaFifoEmptyWait h type s; c = push_bit EMPTY_MASK_SHIFT (push_bit (h + type) 1); reg = baseVAddr s 0 + STATUS_REG_OFFSET
   in \<exists>vs. s' = s\<lparr>hw := hw s'\<rparr> \<and> mem (hw s') = mem (hw s) \<and> evs (hw s') = map (RdReg reg) vs @ evs (hw s)
      \<and> 0 < length vs \<and> length vs \<le> 101 \<and> (\<forall>v\<in>set (tl vs). v AND c = 0)
      \<and> (if late then length vs = 101 \<and> hd vs AND c = 0 else hd vs AND c \<noteq> 0)"
proof -
  define c :: u32 where "c = push_bit EMPTY_MASK_SHIFT (push_bit (h + type) 1)"
  obtain late m where w: "fifo_wait FIFO_EMPTY_TIMEOUT (baseVAddr s 0 + STATUS_REG_OFFSET) c (hw s) = (late, m)" by fastforce
  have r: "DmaFifoEmptyWait h type s = (late, s\<lparr>hw := m\<rparr>)"
    unfolding DmaFifoEmptyWait_def Let_def c_def[symmetric] w by simp
  from fifo_wait_evs[of FIFO_EMPTY_TIMEOUT "baseVAddr s 0 + STATUS_REG_OFFSET" c "hw s" late m] w
  show ?thesis unfolding r prod.case Let_def c_def[symmetric]
    by (auto simp: FIFO_EMPTY_TIMEOUT_def)
qed

theorem fifo_wait_bounded_witness:
  "\<exists>vs. evs (hw (snd (DmaFifoEmptyWait 0 1 sample_drv))) = map (RdReg (0x40000000 + STATUS_REG_OFFSET)) vs \<and> vs \<noteq> [] \<and> length vs \<le> 101"
proof -
  have "baseVAddr sample_drv 0 = 0x40000000" "evs (hw sample_drv) = []" by (simp_all add: sample_drv_def)
  then show ?thesis using fifo_wait_bounded[of 0 1 sample_drv] by (auto simp: Let_def case_prod_beta)
qed

definition ctrl_only :: "'u Dma_Engine \<Rightarrow> nat \<Rightarrow> mach \<Rightarrow> mach \<Rightarrow> bool" where
  "ctrl_only E n m m' \<longleftrightarrow> (\<exists>es. evs m' = es @ evs m \<and> length es \<le> n
     \<and> (\<forall>e\<in>set es. \<exists>v. e = RdReg (RegBase E + REG_DMA_ENG_CTRL_STATUS) v \<or> e = WrReg (RegBase E + REG_DMA_ENG_CTRL_STATUS) v))"

lemma ctrl_only_trans: "ctrl_only E a m1 m2 \<Longrightarrow> ctrl_only E b m2 m3 \<Longrightarrow> ctrl_only E (a + b) m1 m3"
  unfolding ctrl_only_def
proof (elim exE conjE)
  fix xs ys
  assume "evs m2 = xs @ evs m1" "length xs \<le> a" "evs m3 = ys @ evs m2" "length ys \<le> b"
    "\<forall>e\<in>set xs. \<exists>v. e = RdReg (RegBase E + REG_DMA_ENG_CTRL_STATUS) v \<or> e = WrReg (RegBase E + REG_DMA_ENG_CTRL_STATUS) v"
    "\<forall>e\<in>set ys. \<exists>v. e = RdReg (RegBase E + REG_DMA_ENG_CTRL_STATUS) v \<or> e = WrReg (RegBase E + REG_DMA_ENG_CTRL_STATUS) v"
  then show "\<exists>es. evs m3 = es @ evs m1 \<and> length es \<le> a + b
     \<and> (\<forall>e\<in>set es. \<exists>v. e = RdReg (RegBase E + REG_DMA_ENG_CTRL_STATUS) v \<or> e = WrReg (RegBase E + REG_DMA_ENG_CTRL_STATUS) v)"
    by (intro exI[of _ "ys @ xs"]) auto
qed

lemma ctrl_only_steps:
  "ctrl_only E 1 m (snd (Dma_mGetCrSr E m))" "ctrl_only E 1 m (Dma_mSetCrSr E d m)"
  "ctrl_only E 2 m (Dma_mEngIntDisable E m)" "ctrl_only E 2 m (Dma_mEngIntAck E d m)" "ctrl_only E 2 m m"
  by (simp_all add: ctrl_only_def Dma_mGetCrSr_def Dma_mSetCrSr_def Dma_mEngIntDisable_def Dma_mEngIntAck_def split_beta)

lemma ctrl_only_wait: "ctrl_only E (k + 1) m (wait_clear k E bits m)"
  using wait_clear_evs[of k E bits m] unfolding ctrl_only_def polls_def by blast

text \<open>
  C26: Resetting an engine ends whatever the hardware answers: it writes and reads only the control
  register of that engine, at most 200009 times, and leaves the engine marked as stopped and
  otherwise unchanged.
\<close>

theorem reset_bounded:
  "let (E', m') = Dma_Reset E m
   in E' = E\<lparr>BdRing := (BdRing E)\<lparr>RunState := XST_DMA_SG_IS_STOPPED\<rparr>\<rparr> \<and> mem m' = mem m \<and> ctrl_only E 200009 m m'"
proof -
  define m1 where "m1 = Dma_mSetCrSr E (DMA_ENG_DISABLE OR DMA_ENG_USER_RESET) (Dma_mEngIntDisable E m)"
  define m2 where "m2 = wait_clear RESET_LIMIT E (DMA_ENG_STATE_MASK OR DMA_ENG_USER_RESET) m1"
  define m3 where "m3 = wait_clear RESET_LIMIT E DMA_ENG_RESET (Dma_mSetCrSr E DMA_ENG_RESET m2)"
  obtain v m4 where v: "Dma_mGetCrSr E m3 = (v, m4)" by fastforce
  define m5 where "m5 = (if v AND DMA_ENG_INT_ACTIVE_MASK \<noteq> 0 then Dma_mEngIntAck E (v AND DMA_ENG_ALLINT_MASK) m4 else m4)"
  have r: "Dma_Reset E m = (E\<lparr>BdRing := (BdRing E)\<lparr>RunState := XST_DMA_SG_IS_STOPPED\<rparr>\<rparr>, m5)"
    unfolding Dma_Reset_def Let_def m1_def[symmetric] m2_def[symmetric] m3_def[symmetric] v prod.case m5_def ..
  have "ctrl_only E 3 m m1" unfolding m1_def
    using ctrl_only_trans[OF ctrl_only_steps(3) ctrl_only_steps(2)] by (simp add: numeral_3_eq_3)
  then have "ctrl_only E (3 + (RESET_LIMIT + 1)) m m2" unfolding m2_def by (rule ctrl_only_trans) (rule ctrl_only_wait)
  then have "ctrl_only E (3 + (RESET_LIMIT + 1) + 1 + (RESET_LIMIT + 1)) m m3"
    unfolding m3_def by (rule ctrl_only_trans[OF ctrl_only_trans[OF _ ctrl_only_steps(2)] ctrl_only_wait])
  then have "ctrl_only E (3 + (RESET_LIMIT + 1) + 1 + (RESET_LIMIT + 1) + 1) m m4"
    using ctrl_only_trans[OF _ ctrl_only_steps(1)[of E m3]] by (simp only: v snd_conv)
  then have "ctrl_only E (3 + (RESET_LIMIT + 1) + 1 + (RESET_LIMIT + 1) + 1 + 2) m m5"
    unfolding m5_def by (rule ctrl_only_trans) (simp add: ctrl_only_steps(4,5))
  moreover have "mem m5 = mem m" using Dma_Reset_mem[of E m] by (simp add: r)
  ultimately show ?thesis unfolding r by (simp add: RESET_LIMIT_def)
qed

section \<open>The pool of packet arrays\<close>

text \<open>
  C27: As long as its users hold at most nine packet arrays at a time and return only what they hold,
  no request to the pool of ten finds it empty, whatever the order of requests and returns, and
  an array is never handed out twice: those handed out and those in the pool are always distinct and
  together the ten there are.
\<close>

theorem pool_never_dry:
  assumes "pools.bracketed 9 ops ((init_pools P, m), [])"
  shows "\<exists>s out xs. pools.use ops ((init_pools P, m), []) = Some (s, out)
    \<and> pool_rep s xs \<and> distinct (xs @ out) \<and> set (xs @ out) = {0..<MAX_POOL} \<and> pktPoolHead (fst s) \<noteq> None"
proof -
  have "distinct ([0..<MAX_POOL] @ [])" "length ([0..<MAX_POOL] @ []) = Suc 9" "[0..<MAX_POOL] \<noteq> []"
    by (simp_all add: MAX_POOL_def)
  from pools.use_never_fails[OF init_pools_rep this(1,2) assms this(3)] obtain s out xs where
    u: "pools.use ops ((init_pools P, m), []) = Some (s, out)" "pool_rep s xs" "xs \<noteq> []" "distinct (xs @ out)"
    "set (xs @ out) = set ([0..<MAX_POOL] @ [])" by blast
  moreover have "pktPoolHead (fst s) \<noteq> None" using u(2,3) by (cases xs) (auto simp: pool_rep_def)
  ultimately show ?thesis by auto
qed

theorem pool_never_dry_witness:
  "\<exists>s xs. pools.use [Borrow, Borrow, Return 0] ((init_pools (pool sample_drv), hw sample_drv), []) = Some (s, [1])
     \<and> pool_rep s xs \<and> distinct (xs @ [1])"
proof -
  have d: "DQPool (init_pools P, m) = (Some 0, (init_pools P)\<lparr>pktPoolHead := Some 1\<rparr>, spin_unlock PktPoolLock (spin_lock PktPoolLock m))" for P m
    by (simp add: DQPool_def init_pools_def MAX_POOL_def)
  have d2: "DQPool ((init_pools P)\<lparr>pktPoolHead := Some (Suc 0)\<rparr>, m) = (Some 1, (init_pools P)\<lparr>pktPoolHead := Some 2\<rparr>, spin_unlock PktPoolLock (spin_lock PktPoolLock m))" for P m
    by (simp add: DQPool_def init_pools_def MAX_POOL_def)
  have "pools.bracketed 9 [Borrow, Borrow, Return 0] ((init_pools (pool sample_drv), hw sample_drv), [])"
    by (simp add: d d2)
  moreover have "\<exists>s. pools.use [Borrow, Borrow, Return 0] ((init_pools (pool sample_drv), hw sample_drv), []) = Some (s, [1])"
    by (simp add: d d2)
  ultimately show ?thesis using pool_never_dry by fastforce
qed

text \<open>
  C28: If nine arrays are out and the tenth is taken too, giving it back does not repair the
  pool: its head stays NULL, and the next request follows a NULL pointer while holding the lock.
\<close>

theorem drained_pool_stays_empty:
  assumes "pool_rep (P, m) [x]"
  shows "let (y, s1) = DQPool (P, m); s2 = EQPool x s1; (z, s3) = DQPool s2
    in y = Some x \<and> pktPoolHead (fst s2) = None \<and> z = None \<and> hd (evs (snd s3)) = NullDeref
       \<and> lock_depth PktPoolLock (evs (snd s3)) = lock_depth PktPoolLock (evs m) + 1"
  using assms by (auto simp: pool_rep_def DQPool_def EQPool_def Let_def)

theorem drained_pool_stays_empty_witness:
  "let (y, s1) = DQPool (\<lparr>pool_next = (\<lambda>_. None), pktPoolHead = Some 7, pktPoolTail = Some 7, pktArray = (\<lambda>_. [])\<rparr>, hw sample_drv);
       (z, s3) = DQPool (EQPool 7 s1) in y = Some 7 \<and> z = None"
  using drained_pool_stays_empty[of "\<lparr>pool_next = (\<lambda>_. None), pktPoolHead = Some 7, pktPoolTail = Some 7, pktArray = (\<lambda>_. [])\<rparr>" "hw sample_drv" 7]
  by (simp add: pool_rep_def Let_def case_prod_beta)

section \<open>Interrupts\<close>

text \<open>
  C29: The interrupt handler marks an engine as pending only if it is present and among the engines 0
  to 6 and 32 to 38; it maps nothing, changes no ring and no state of an application and leaves every
  lock as it was. The bottom half then leaves no engine pending, whatever was marked.
\<close>

theorem interrupt_marks_present:
  "let (handled, s') = DmaInterrupt s
   in (\<forall>j. bit (PendingMask s') j \<longrightarrow> bit (PendingMask s) j \<or> (engine_present s j \<and> (j < 7 \<or> (32 \<le> j \<and> j < 39))))
      \<and> (\<forall>j. bit (PendingMask s) j \<longrightarrow> bit (PendingMask s') j)
      \<and> Dma s' = Dma s \<and> usr s' = usr s \<and> mem (hw s') = mem (hw s)
      \<and> map_count (evs (hw s')) = map_count (evs (hw s)) \<and> (\<forall>l. lock_depth l (evs (hw s')) = lock_depth l (evs (hw s)))
      \<and> PendingMask (IntrBH s') = 0"
proof -
  obtain r s' where i: "IntrCheck s = (r, s')" by fastforce
  have f: "intr_frame ({0..<7} \<union> {32..<39}) s s'" using IntrCheck_frame[of s] by (simp add: i)
  have "bit (PendingMask s) j \<or> (engine_present s j \<and> (j < 7 \<or> (32 \<le> j \<and> j < 39)))" if b: "bit (PendingMask s') j" for j
  proof (cases "bit (PendingMask s) j")
    case False
    then have j: "j \<in> {0..<7} \<union> {32..<39}" using f b by (auto simp: intr_frame_def)
    then have "engine_present s j" using f b False unfolding intr_frame_def by blast
    then show ?thesis using j by auto
  qed simp
  moreover have "bit (PendingMask s') j" if "bit (PendingMask s) j" for j using f that unfolding intr_frame_def by blast
  ultimately show ?thesis using f unfolding DmaInterrupt_def i
    by (auto simp: intr_frame_def moves_def IntrBH_clears)
qed

theorem interrupt_marks_present_witness:
  "PendingMask (IntrBH (snd (DmaInterrupt sample_drv))) = 0 \<and> \<not> bit (PendingMask (snd (DmaInterrupt sample_drv))) 7"
proof -
  have "\<not> bit (PendingMask sample_drv) 7" by (simp add: sample_drv_def)
  then show ?thesis using interrupt_marks_present[of sample_drv] by (auto simp: Let_def case_prod_beta)
qed

section \<open>Statistics\<close>

text \<open>
  The reference: a list with the newest hundred samples, oldest first. The timer appends a sample,
  the device file fetches the oldest one if there is any.
\<close>

datatype 'a stat_op = Sample 'a | Fetch

fun stat_step :: "'a stat_op \<Rightarrow> 'a stat_ring \<times> 'a list \<Rightarrow> 'a stat_ring \<times> 'a list" where
  "stat_step (Sample v) (q, out) = (stats_put v q, out)"
| "stat_step Fetch (q, out) =
     (if statsNum q = 0 then (q, out) else let (x, q) = stats_get q in (q, out @ [x]))"

fun log_step :: "'a stat_op \<Rightarrow> 'a list \<times> 'a list \<Rightarrow> 'a list \<times> 'a list" where
  "log_step (Sample v) (xs, out) = (drop (length xs + 1 - 100) (xs @ [v]), out)"
| "log_step Fetch ([], out) = ([], out)"
| "log_step Fetch (x # xs, out) = (xs, out @ [x])"

lemma stat_step_log:
  assumes "stats_inv q"
  shows "stats_inv (fst (stat_step p (q, out))) \<and>
    (stats_contents (fst (stat_step p (q, out))), snd (stat_step p (q, out))) = log_step p (stats_contents q, out)"
proof (cases p)
  case (Sample v)
  then show ?thesis using stats_put_law[OF assms, of v] by (simp add: MAX_STATS_def)
next
  case Fetch
  have len: "length (stats_contents q) = statsNum q" by (simp add: stats_contents_def)
  show ?thesis
  proof (cases "stats_contents q")
    case Nil
    then have "statsNum q = 0" using len by simp
    then show ?thesis using Fetch Nil assms by simp
  next
    case (Cons x xs)
    then have "statsNum q \<noteq> 0" using len by auto
    then show ?thesis using Fetch Cons stats_get_law[OF assms Cons] by auto
  qed
qed

text \<open>
  C30: Any sequence of samples and fetches on a freshly reset statistics array delivers exactly the
  samples that the reference delivers, in the same order; never more than a hundred are kept.
\<close>

theorem statistics_equal_log:
  assumes "length (statsArr q) = MAX_STATS"
  shows "let (q', out) = fold stat_step ops (stats_reset q, [])
    in (stats_contents q', out) = fold log_step ops ([], []) \<and> statsNum q' = length (stats_contents q') \<and> statsNum q' \<le> 100"
proof -
  have gen: "stats_inv (fst (fold stat_step ops st)) \<and>
      (stats_contents (fst (fold stat_step ops st)), snd (fold stat_step ops st)) = fold log_step ops (stats_contents (fst st), snd st)"
    if "stats_inv (fst st)" for st
    using that
  proof (induction ops arbitrary: st)
    case (Cons p ops)
    note one = stat_step_log[OF Cons.prems, of p "snd st"]
    then have "stats_inv (fst (stat_step p st))" by simp
    from Cons.IH[OF this] one show ?case by simp
  qed simp
  have "stats_contents (stats_reset q) = []" by (simp add: stats_contents_def stats_reset_def)
  then show ?thesis using gen[of "(stats_reset q, [])"] stats_reset_inv[OF assms]
    by (auto simp: stats_contents_def stats_inv_def MAX_STATS_def split: prod.splits)
qed

theorem statistics_equal_log_witness:
  "snd (fold stat_step [Sample (1 :: int), Sample 2, Fetch, Sample 3, Fetch, Fetch, Fetch]
     (stats_reset \<lparr>statsArr = replicate 100 0, statsRead = 7, statsWrite = 3, statsNum = 9\<rparr>, [])) = [1, 2, 3]"
  using statistics_equal_log[of "\<lparr>statsArr = replicate 100 0, statsRead = 7, statsWrite = 3, statsNum = 9\<rparr>"
      "[Sample (1 :: int), Sample 2, Fetch, Sample 3, Fetch, Fetch, Fetch]"]
  by (simp add: MAX_STATS_def Let_def case_prod_beta)

end
