(* ===== verification/BoardProps.thy ===== *)
theory BoardProps
  imports SysProps
begin

text \<open>
  Properties of the life of the board in the base driver (claims C31 to C36): what a probe needs, what it
  finds, what it leaves behind when it fails, and what unloading gives back.
\<close>

section \<open>A successful probe\<close>

text \<open>
  C31: With capability registers that do not change, a successful probe finds exactly the engines
  whose register says "present" and "packet DMA", with the direction it says; each is reset, waits
  for a user and has no user callbacks.
\<close>

theorem probe_finds_engines:
  assumes "xdma_probe p (s, k) = (0, s', k')" "\<forall>i<64. \<forall>es. dev (hw s) es (ioremap p 0 + of_nat i * 0x100) = cap i"
    and "\<forall>i<MAX_POOL. length (pktArray (pool s) i) = DMA_BD_CNT"
  shows "(engine_present s' i \<longleftrightarrow> i < 64 \<and> usable (cap i))
    \<and> (engine_present s' i \<longrightarrow> eng_kind s' i = cap i AND DMA_ENG_DIRECTION_MASK \<and> EngineState (Dma s' i) = INITIALIZED
         \<and> (IsRxChannel (ring_of s' i) \<noteq> 0 \<longleftrightarrow> cap i AND DMA_ENG_DIRECTION_MASK = DMA_ENG_C2S))"
proof -
  note E = probe_engines[OF assms(1,2)]
  have "enumerated s'" using probe_ready[OF assms(1,3)] by (simp add: probed_def)
  then have "engine_present s' i \<Longrightarrow> EngineState (Dma s' i) = INITIALIZED
     \<and> (IsRxChannel (ring_of s' i) \<noteq> 0 \<longleftrightarrow> eng_kind s' i AND DMA_ENG_DIRECTION_MASK = DMA_ENG_C2S)"
    by (simp add: enumerated_def)
  moreover have "(cap i AND DMA_ENG_DIRECTION_MASK) AND DMA_ENG_DIRECTION_MASK = cap i AND DMA_ENG_DIRECTION_MASK"
    by (simp add: and.assoc)
  ultimately show ?thesis using E[of i] by (simp only:) blast
qed

theorem probe_finds_engines_witness:
  "\<exists>s1 k1. xdma_probe sample_env (sample_board, pci_none) = (0, s1, k1) \<and> engine_present s1 32 \<and> \<not> engine_present s1 1
     \<and> IsRxChannel (ring_of s1 32) \<noteq> 0"
proof -
  obtain s1 k1 where pr: "xdma_probe sample_env (sample_board, pci_none) = (0, s1, k1)" using sample_probe by blast
  have a: "\<forall>i<MAX_POOL. length (pktArray (pool sample_board) i) = DMA_BD_CNT"
    by (simp add: sample_board_def sample_drv_def init_pools_def)
  have "usable (sample_cap 32)" "\<not> usable (sample_cap 1)" "sample_cap 32 AND DMA_ENG_DIRECTION_MASK = DMA_ENG_C2S"
    by (simp_all add: usable_def sample_cap_def hwc)
  then show ?thesis using pr probe_finds_engines[OF pr sample_caps a, of 32] probe_finds_engines[OF pr sample_caps a, of 1] by auto
qed



section \<open>Failures\<close>

text \<open>
  C33: A probe that fails before the BARs are looked at gives back everything it obtained, touches
  no register and leaves the driver's state, timers and application data as they were.
\<close>

theorem early_failure_returns_all:
  assumes "early_failure p" "xdma_probe p (s, k) = (r, s', k')"
  shows "r \<noteq> 0 \<and> hw s' = hw s \<and> usr s' = usr s \<and> DriverState s' = DriverState s \<and> poll_timer s' = poll_timer s \<and> stats_timer s' = stats_timer s
    \<and> (\<forall>(a, b)\<in>{(EnableDevice, DisableDevice), (RequestRegions, ReleaseRegions), (Kmalloc, Kfree), (Ioremap i, Iounmap i),
          (AddCdev, DelCdev), (RequestIrq, FreeIrq), (EnableMsi, DisableMsi)}. net a b (pci_log k') = net a b (pci_log k))"
proof -
  obtain es where e: "pci_log k' = es @ pci_log k" "set es \<subseteq> {EnableDevice, DisableDevice, RequestRegions, ReleaseRegions, Kmalloc, Kfree}"
    "net EnableDevice DisableDevice es = 0" "net RequestRegions ReleaseRegions es = 0" "net Kmalloc Kfree es = 0"
    using probe_early[OF assms] by blast
  have "count_list es a = 0" if "a \<notin> {EnableDevice, DisableDevice, RequestRegions, ReleaseRegions, Kmalloc, Kfree}" for a
    using that e(2) by (intro count_notin) blast
  then have "net a b es = 0" if "a \<notin> {EnableDevice, DisableDevice, RequestRegions, ReleaseRegions, Kmalloc, Kfree}"
    "b \<notin> {EnableDevice, DisableDevice, RequestRegions, ReleaseRegions, Kmalloc, Kfree}" for a b
    using that by (simp add: net_def)
  then show ?thesis using probe_early[OF assms] e by simp
qed

theorem early_failure_returns_all_witness:
  "\<exists>s1 k1. xdma_probe (sample_env\<lparr>dma_mask_ret := - 5\<rparr>) (sample_board, pci_none) = (- 5, s1, k1)
     \<and> net Kmalloc Kfree (pci_log k1) = 0 \<and> net EnableDevice DisableDevice (pci_log k1) = 0"
proof -
  obtain r s1 k1 where run: "xdma_probe (sample_env\<lparr>dma_mask_ret := - 5\<rparr>) (sample_board, pci_none) = (r, s1, k1)" by (metis prod_cases3)
  have f: "early_failure (sample_env\<lparr>dma_mask_ret := - 5\<rparr>)" by (simp add: early_failure_def)
  have "r = - 5" using run unfolding xdma_probe_def Let_def by (simp add: sample_env_def)
  then show ?thesis using run early_failure_returns_all[OF f run, where i = "0"] by (simp add: pci_none_def)
qed

lemma probe_bars_log:
  "probe_bars p is (s, k) = (ok, s', k') \<Longrightarrow> pci_log k' = (if ok then [] else [DisableDevice, Kfree, ReleaseRegions])
     @ map Ioremap (rev (filter (mapped p) (takeWhile (bar_ok p) is))) @ pci_log k"
  by (induction "is" arbitrary: s k) (auto simp: bar_ok_def mapped_def pci_abort_def Let_def split: if_splits)

text \<open>
  C34: A probe that fails at a BAR never unmaps the BARs it mapped before, and leaves dmaData pointing
  to the freed memory: when the module is unloaded afterwards, that memory is freed a second time.
\<close>

theorem bar_failure_leaks:
  assumes "\<not> early_failure p" "i < MAX_BARS" "\<not> bar_ok p i" "xdma_probe p (s, k) = (r, s', k')"
  shows "r = XST_FAILURE
    \<and> pci_log k' = [DisableDevice, Kfree, ReleaseRegions] @ map Ioremap (rev (filter (mapped p) (takeWhile (bar_ok p) [0..<MAX_BARS])))
        @ [RequestRegions, Kmalloc, EnableDevice] @ pci_log k
    \<and> net Kmalloc Kfree (pci_log (snd (xdma_cleanup False (s', k')))) = net Kmalloc Kfree (pci_log k) - 1"
proof -
  obtain s0 k0 where z: "probe_start (s, k) = (s0, k0)" by (metis surj_pair)
  obtain ok s1 k1 where b: "probe_bars p [0..<MAX_BARS] (s0, k0) = (ok, s1, k1)" by (metis prod_cases3)
  have d: "distinct [0..<MAX_BARS]" "\<forall>i\<in>set [0..<MAX_BARS]. i < 32" by (simp_all add: MAX_BARS_def)
  note B = probe_bars_spec[OF b d]
  have "i \<in> set [0..<MAX_BARS]" using assms(2) by simp
  then have ok: "\<not> ok" using B assms(3) by blast
  have L: "r = XST_FAILURE" "k' = k1" using probe_late[OF assms(1,4) b[folded z], unfolded if_not_P[OF ok]] by simp_all
  have k0: "pci_log k0 = [RequestRegions, Kmalloc, EnableDevice] @ pci_log k" "dmaData_set k0" using z by (auto simp: probe_start_def)
  have log: "pci_log k' = [DisableDevice, Kfree, ReleaseRegions] @ map Ioremap (rev (filter (mapped p) (takeWhile (bar_ok p) [0..<MAX_BARS])))
        @ [RequestRegions, Kmalloc, EnableDevice] @ pci_log k"
    using probe_bars_log[OF b] by (simp only: L(2) k0 ok if_False)
  have "dmaData_set k'" using B k0(2) L(2) by blast
  then have "pci_log (snd (xdma_cleanup False (s', k'))) = Kfree # pci_log k'" using cleanup_log(2)[of s' k'] by simp
  moreover have "net Kmalloc Kfree (pci_log k') = net Kmalloc Kfree (pci_log k)" unfolding log by (simp del: upt_Suc)
  ultimately show ?thesis using L(1) log by simp
qed

theorem bar_failure_leaks_witness:
  "\<exists>s1 k1. xdma_probe (sample_env\<lparr>resource_len := (\<lambda>i. if i < 2 then 0x10000 else 0), resource_mem := (\<lambda>i. i = 0)\<rparr>) (sample_board, pci_none) = (XST_FAILURE, s1, k1)
     \<and> pci_log k1 = [DisableDevice, Kfree, ReleaseRegions, Ioremap 0, RequestRegions, Kmalloc, EnableDevice]"
proof -
  let ?p = "sample_env\<lparr>resource_len := (\<lambda>i. if i < 2 then 0x10000 else 0), resource_mem := (\<lambda>i. i = 0)\<rparr>"
  obtain r s1 k1 where run: "xdma_probe ?p (sample_board, pci_none) = (r, s1, k1)" by (metis prod_cases3)
  have f: "\<not> early_failure ?p" "1 < MAX_BARS" "\<not> bar_ok ?p 1" "bar_ok ?p 0" "mapped ?p 0"
    by (simp_all add: early_failure_def bar_ok_def mapped_def sample_env_def MAX_BARS_def)
  have "[0..<MAX_BARS] = [0, 1] @ [2..<MAX_BARS]" by (simp add: MAX_BARS_def upt_rec)
  then have "filter (mapped ?p) (takeWhile (bar_ok ?p) [0..<MAX_BARS]) = [0]" using f by simp
  then show ?thesis using bar_failure_leaks[OF f(1-3) run] run by (simp add: pci_none_def)
qed

section \<open>Unloading\<close>



section \<open>The clock\<close>



end
