(* ===== verification/IoProps.thy ===== *)
theory IoProps
  imports SysProps XdmaIoctl
begin

text \<open>
  Properties of the device file of the base driver (claims C37 to C40).
\<close>

section \<open>Statistics of the engines\<close>

text \<open>
  C37: The caller's array is never overrun, whatever copies fail and however many samples there are: a
  statistics command writes at most as many records as it was asked for (none for a negative
  number), and the count it writes back is the number of records written. Its loop ends by itself:
  the model's bound on the number of rounds never cuts it off.
\<close>

theorem statistics_within_array:
  "let (r, out, n, s1) = ioctl_dma_statistics ua Count s; (r2, out2, n2, s2) = ioctl_sw_statistics ua Count s
   in int (length out) \<le> max 0 Count \<and> n \<in> {None, Some (int (length out))} \<and> r \<in> {0, - 1, - EFAULT}
      \<and> int (length out2) \<le> max 0 Count \<and> n2 \<in> {None, Some (int (length out2))} \<and> r2 \<in> {0, - 1, - EFAULT}
      \<and> stats_outer (nat Count + k) ua dma_num dma_take Count (0, [], s) = stats_outer (nat Count) ua dma_num dma_take Count (0, [], s)
      \<and> stats_outer (nat Count + k) ua sw_num sw_take Count (0, [], s) = stats_outer (nat Count) ua sw_num sw_take Count (0, [], s)"
proof -
  obtain f i out s1 where d: "stats_outer (nat Count) ua dma_num dma_take Count (0, [], s) = (f, i, out, s1)" by (metis prod_cases4)
  obtain f2 i2 out2 s2 where w: "stats_outer (nat Count) ua sw_num sw_take Count (0, [], s) = (f2, i2, out2, s2)" by (metis prod_cases4)
  obtain r ds n t1 where rd: "ioctl_dma_statistics ua Count s = (r, ds, n, t1)" by (metis prod_cases4)
  obtain r2 ws n2 t2 where rw: "ioctl_sw_statistics ua Count s = (r2, ws, n2, t2)" by (metis prod_cases4)
  have "int (length ds) \<le> max 0 Count \<and> n \<in> {None, Some (int (length ds))} \<and> r \<in> {0, - 1, - EFAULT}"
    using rd stats_outer_bounds[OF d] by (auto simp: ioctl_dma_statistics_def d Let_def split: if_splits)
  moreover have "int (length ws) \<le> max 0 Count \<and> n2 \<in> {None, Some (int (length ws))} \<and> r2 \<in> {0, - 1, - EFAULT}"
    using rw stats_outer_bounds[OF w] by (auto simp: ioctl_sw_statistics_def w Let_def split: if_splits)
  moreover have "stats_outer (nat Count + k) ua dma_num dma_take Count (0, [], s) = stats_outer (nat Count) ua dma_num dma_take Count (0, [], s)"
    using stats_outer_enough[of "[] :: DMAStatistics list" 0 Count "nat Count + k" ua dma_num dma_take s] by simp
  moreover have "stats_outer (nat Count + k) ua sw_num sw_take Count (0, [], s) = stats_outer (nat Count) ua sw_num sw_take Count (0, [], s)"
    using stats_outer_enough[of "[] :: SWStatistics list" 0 Count "nat Count + k" ua sw_num sw_take s] by simp
  ultimately show ?thesis unfolding rd rw prod.case Let_def by blast
qed

lemma inner_skip:
  "\<forall>j\<in>set js. num s j = 0 \<Longrightarrow> stats_inner ua num takej Count (js @ ks) (i, out, s) = stats_inner ua num takej Count ks (i, out, s)"
  by (induction js) simp_all

lemma dma_num_hw [simp]: "dma_num (on_hw f s) = dma_num s" "DStats (on_hw f s) = DStats s"
  by (simp_all add: dma_num_def fun_eq_iff on_hw_def)

text \<open>One round when only engine \<open>e\<close> has samples.\<close>

lemma inner_one:
  assumes e: "e < MAX_DMA_ENGINES" and others: "\<forall>j<MAX_DMA_ENGINES. j \<noteq> e \<longrightarrow> dma_num s j = 0"
    and i: "i < Count" and ok: "\<forall>n. to_ok ua n" and inv: "stats_inv (DStats s e)" and c: "stats_contents (DStats s e) = x # xs"
  shows "\<exists>s'. stats_inner ua dma_num dma_take Count [0..<MAX_DMA_ENGINES] (i, out, s) = (False, i + 1, out @ [x\<lparr>D_Engine := int e\<rparr>], s')
    \<and> stats_inv (DStats s' e) \<and> stats_contents (DStats s' e) = xs \<and> (\<forall>j. j \<noteq> e \<longrightarrow> DStats s' j = DStats s j)"
proof -
  have "[0..<MAX_DMA_ENGINES] = [0..<e] @ e # [Suc e..<MAX_DMA_ENGINES]"
    using e by (metis less_imp_le_nat upt_add_eq_append le_add_diff_inverse upt_conv_Cons zero_le)
  moreover have "\<forall>j\<in>set [0..<e]. dma_num s j = 0" using others e by auto
  ultimately have r: "stats_inner ua dma_num dma_take Count [0..<MAX_DMA_ENGINES] (i, out, s)
      = stats_inner ua dma_num dma_take Count (e # [Suc e..<MAX_DMA_ENGINES]) (i, out, s)"
    by (simp only: inner_skip)
  obtain q where q: "stats_get (DStats s e) = (x, q)" "stats_inv q" "stats_contents q = xs" using stats.get_law[OF inv c] by blast
  have nz: "dma_num s e \<noteq> 0" using arg_cong[OF c, of length] by (simp add: dma_num_def stats_contents_def)
  define t where "t = on_hw (spin_unlock DmaStatsLock) ((on_hw (spin_lock DmaStatsLock) s)\<lparr>DStats := (DStats s)(e := q)\<rparr>)"
  have rest: "\<forall>j\<in>set [Suc e..<MAX_DMA_ENGINES]. dma_num t j = 0" using others by (auto simp: t_def dma_num_def)
  have "stats_inner ua dma_num dma_take Count (e # [Suc e..<MAX_DMA_ENGINES]) (i, out, s)
      = (if i + 1 \<ge> Count then (False, i + 1, out @ [x\<lparr>D_Engine := int e\<rparr>], t)
         else stats_inner ua dma_num dma_take Count ([Suc e..<MAX_DMA_ENGINES] @ []) (i + 1, out @ [x\<lparr>D_Engine := int e\<rparr>], t))"
    using nz ok by (simp add: Let_def dma_take_def q(1) t_def)
  also have "\<dots> = (False, i + 1, out @ [x\<lparr>D_Engine := int e\<rparr>], t)" using inner_skip[of _ dma_num t ua dma_take Count "[]", OF rest] by (simp split: if_splits)
  finally show ?thesis using q(2,3) r by (intro exI[of _ t]) (simp add: t_def)
qed

lemma outer_one:
  assumes e: "e < MAX_DMA_ENGINES" and ok: "\<forall>n. to_ok ua n"
  shows "\<forall>j<MAX_DMA_ENGINES. j \<noteq> e \<longrightarrow> dma_num s j = 0 \<Longrightarrow> stats_inv (DStats s e) \<Longrightarrow> nat (Count - i) \<le> k \<Longrightarrow>
    \<exists>i' s'. stats_outer k ua dma_num dma_take Count (i, out, s) = (False, i',
        out @ map (\<lambda>x. x\<lparr>D_Engine := int e\<rparr>) (take (nat ((Count - i + 1) div 2)) (stats_contents (DStats s e))), s')
      \<and> stats_contents (DStats s' e) = drop (nat ((Count - i + 1) div 2)) (stats_contents (DStats s e))"
proof (induction k arbitrary: i out s)
  case 0
  then have "nat ((Count - i + 1) div 2) = 0" by simp
  then show ?case by simp
next
  case (Suc k)
  show ?case
  proof (cases "i \<ge> Count")
    case True
    then have "nat ((Count - i + 1) div 2) = 0" by simp
    then show ?thesis using True by simp
  next
    case False
    then have i: "i < Count" by simp
    show ?thesis
    proof (cases "stats_contents (DStats s e)")
      case Nil
      then have "length (stats_contents (DStats s e)) = 0" by simp
      then have "dma_num s e = 0" by (simp only: dma_num_def stats_contents_def length_map length_cyc)
      then have "\<forall>j\<in>set [0..<MAX_DMA_ENGINES]. dma_num s j = 0" using Suc.prems(1) by (metis atLeastLessThan_iff set_upt)
      from inner_skip[of _ dma_num s ua dma_take Count "[]", OF this] have "stats_inner ua dma_num dma_take Count [0..<MAX_DMA_ENGINES] (i, out, s) = (False, i, out, s)"
        by simp
      then have "stats_outer (Suc k) ua dma_num dma_take Count (i, out, s) = stats_outer k ua dma_num dma_take Count (i + 1, out, s)"
        using i by simp
      then show ?thesis using Suc.IH[OF Suc.prems(1,2), of "i + 1" out] Suc.prems(3) Nil by auto
    next
      case (Cons x xs)
      from inner_one[OF e Suc.prems(1) i ok Suc.prems(2) Cons, of out] obtain t where t:
        "stats_inner ua dma_num dma_take Count [0..<MAX_DMA_ENGINES] (i, out, s) = (False, i + 1, out @ [x\<lparr>D_Engine := int e\<rparr>], t)"
        "stats_inv (DStats t e)" "stats_contents (DStats t e) = xs" "\<forall>j. j \<noteq> e \<longrightarrow> DStats t j = DStats s j" by blast
      have r: "stats_outer (Suc k) ua dma_num dma_take Count (i, out, s)
          = stats_outer k ua dma_num dma_take Count (i + 2, out @ [x\<lparr>D_Engine := int e\<rparr>], t)"
        using i t(1) by (simp add: add.commute)
      have o: "\<forall>j<MAX_DMA_ENGINES. j \<noteq> e \<longrightarrow> dma_num t j = 0" using Suc.prems(1) t(4) by (simp add: dma_num_def)
      have n: "nat ((Count - i + 1) div 2) = Suc (nat ((Count - (i + 2) + 1) div 2))"
      proof -
        have "(Count - i + 1) div 2 = (Count - (i + 2) + 1) div 2 + 1" by linarith
        moreover have "0 \<le> (Count - (i + 2) + 1) div 2" using i by linarith
        ultimately show ?thesis by (simp add: Suc_nat_eq_nat_zadd1)
      qed
      have "nat (Count - (i + 2)) \<le> k" using Suc.prems(3) i by linarith
      from Suc.IH[OF o t(2) this, of "out @ [x\<lparr>D_Engine := int e\<rparr>]"] show ?thesis unfolding r t(3) Cons n by simp
    qed
  qed
qed

text \<open>
  C38: The loop counter is advanced once for every record and once more for every round. When only one
  engine has samples, a request for Count records therefore delivers only half of them, rounded up,
  even if more are available; they are the oldest ones, in order, and the others stay.
\<close>

theorem statistics_half_delivered:
  assumes "e < 64" "\<forall>j<64. j \<noteq> e \<longrightarrow> statsNum (DStats s j) = 0" "stats_inv (DStats s e)" "from_ok ua" "\<forall>n. to_ok ua n"
  shows "let xs = stats_contents (DStats s e); h = nat ((Count + 1) div 2); (r, out, n, s') = ioctl_dma_statistics ua Count s
    in r = 0 \<and> out = map (\<lambda>x. x\<lparr>D_Engine := int e\<rparr>) (take h xs) \<and> n = Some (int (length out))
       \<and> stats_contents (DStats s' e) = drop h xs"
proof -
  have "e < MAX_DMA_ENGINES" "\<forall>j<MAX_DMA_ENGINES. j \<noteq> e \<longrightarrow> dma_num s j = 0"
    using assms(1,2) by (simp_all add: MAX_DMA_ENGINES_def dma_num_def)
  from outer_one[OF this(1) assms(5) this(2) assms(3), of Count 0 "nat Count" "[]"] obtain i' s' where
    "stats_outer (nat Count) ua dma_num dma_take Count (0, [], s) = (False, i', map (\<lambda>x. x\<lparr>D_Engine := int e\<rparr>) (take (nat ((Count + 1) div 2)) (stats_contents (DStats s e))), s')"
    "stats_contents (DStats s' e) = drop (nat ((Count + 1) div 2)) (stats_contents (DStats s e))" by auto
  then show ?thesis using assms(4,5) by (simp add: ioctl_dma_statistics_def Let_def)
qed

theorem statistics_half_delivered_witness:
  "fst (snd (ioctl_dma_statistics \<lparr>from_ok = True, to_ok = (\<lambda>_. True), access_ok = True\<rparr> 2
     (sample_drv\<lparr>DStats := (\<lambda>j. if j = 0 then \<lparr>statsArr = replicate 100 \<lparr>D_Engine = 5, D_LBR = 7, D_LAT = 8, D_LWT = 9\<rparr>, statsRead = 0, statsWrite = 2, statsNum = 2\<rparr>
        else \<lparr>statsArr = [], statsRead = 0, statsWrite = 0, statsNum = 0\<rparr>)\<rparr>))) = [\<lparr>D_Engine = 0, D_LBR = 7, D_LAT = 8, D_LWT = 9\<rparr>]"
proof -
  let ?q = "\<lparr>statsArr = replicate 100 \<lparr>D_Engine = 5, D_LBR = 7, D_LAT = 8, D_LWT = 9\<rparr>, statsRead = 0, statsWrite = 2, statsNum = 2\<rparr>"
  let ?s = "sample_drv\<lparr>DStats := (\<lambda>j. if j = 0 then ?q else \<lparr>statsArr = [], statsRead = 0, statsWrite = 0, statsNum = 0\<rparr>)\<rparr>"
  have "stats_inv ?q" by (simp add: stats_inv_def MAX_STATS_def)
  moreover have "stats_contents ?q = replicate 2 \<lparr>D_Engine = 5, D_LBR = 7, D_LAT = 8, D_LWT = 9\<rparr>"
    by (simp add: stats_contents_def cyc_def MAX_STATS_def numeral_2_eq_2)
  ultimately show ?thesis
    using statistics_half_delivered[of 0 ?s "\<lparr>from_ok = True, to_ok = (\<lambda>_. True), access_ok = True\<rparr>" 2]
    by (simp add: Let_def case_prod_beta)
qed

section \<open>The transaction-layer statistics\<close>

text \<open>
  C39: A request for the samples of the transaction layer delivers the oldest ones, in order, as many
  as asked for and available; the others stay, the count written back is the number delivered, and
  the statistics lock is released as often as taken.
\<close>

theorem trn_oldest_delivered:
  assumes "stats_inv (TStats s)" "from_ok ua" "\<forall>n. to_ok ua n"
  shows "let xs = stats_contents (TStats s); (r, out, n, s') = ioctl_trn_statistics ua Count s
    in r = 0 \<and> out = take (nat Count) xs \<and> n = Some (int (length out)) \<and> stats_contents (TStats s') = drop (nat Count) xs
       \<and> (\<forall>l. lock_depth l (evs (hw s')) = lock_depth l (evs (hw s)))"
proof -
  from trn_loop_spec[OF assms(3,1), of "nat Count" "[]"] obtain s' where
    "trn_loop ua (nat Count) ([], s) = (False, take (nat Count) (stats_contents (TStats s)), s')"
    "stats_contents (TStats s') = drop (nat Count) (stats_contents (TStats s))" "moves 0 (hw s) (hw s')" by auto
  then show ?thesis using assms(2,3) by (simp add: ioctl_trn_statistics_def Let_def moves_def)
qed

theorem trn_oldest_delivered_witness:
  "fst (snd (ioctl_trn_statistics \<lparr>from_ok = True, to_ok = (\<lambda>_. True), access_ok = True\<rparr> 5
     (sample_drv\<lparr>TStats := \<lparr>statsArr = replicate 100 \<lparr>T_LTX = 7, T_LRX = 8\<rparr>, statsRead = 99, statsWrite = 1, statsNum = 2\<rparr>\<rparr>)))
     = [\<lparr>T_LTX = 7, T_LRX = 8\<rparr>, \<lparr>T_LTX = 7, T_LRX = 8\<rparr>]"
proof -
  let ?q = "\<lparr>statsArr = replicate 100 \<lparr>T_LTX = 7, T_LRX = 8\<rparr>, statsRead = 99, statsWrite = 1, statsNum = 2\<rparr>"
  have "stats_inv ?q" by (simp add: stats_inv_def MAX_STATS_def)
  moreover have "stats_contents ?q = replicate 2 \<lparr>T_LTX = 7, T_LRX = 8\<rparr>"
    by (simp add: stats_contents_def cyc_def MAX_STATS_def numeral_2_eq_2)
  ultimately show ?thesis
    using trn_oldest_delivered[of "sample_drv\<lparr>TStats := ?q\<rparr>" "\<lparr>from_ok = True, to_ok = (\<lambda>_. True), access_ok = True\<rparr>" 5]
    by (simp add: Let_def case_prod_beta numeral_2_eq_2)
qed

section \<open>Refused requests\<close>



end
