(* ===== verification/Spec2Isabelle.thy ===== *)
theory Spec2Isabelle
  imports RingProps SysProps DataProps DmaProps BoardProps IoProps
begin

text \<open>
  The scatter-gather DMA driver of \<open>fc1553_dma\<close>: header to be completed.
\<close>

end
